(* ===== verification/Prelude.thy ===== *)
theory Prelude
  imports Main "HOL-Library.Word"
begin

text \<open>
  Shared vocabulary of the development: Go's error values, the outcome of a Go call
  (a value, an error, a panic, or a goroutine that blocks for ever), programs as functions from a
  state to an outcome and a state, the combinators that write Go's \<open>if err != nil { return err }\<close>
  and \<open>fmt.Errorf("...: %w", err)\<close>, and the lemma collections used by every component.
\<close>

named_theorems prog_simps \<open>the equations that run a program one step\<close>
named_theorems prog_elims \<open>inversion of a run that returned\<close>

section \<open>Errors\<close>

text \<open>An argument of a formatted error: a string, an integer or a truth value.\<close>

datatype farg = FS string | FI int | FB bool

text \<open>
  The reasons of a Kubernetes API error the operator distinguishes
  (\<open>apierrors.IsNotFound\<close>, \<open>IsConflict\<close>); every other reason is \<open>OtherReason\<close>.
\<close>

datatype api_reason = NotFound | Conflict | Invalid | OtherReason string

text \<open>
  \<open>Errorf\<close> is \<open>fmt.Errorf\<close> without a wrapped error, \<open>Wrapf\<close> is
  \<open>fmt.Errorf("...: %w", err)\<close>, \<open>ApiStatus\<close> an error of the Kubernetes API,
  \<open>InvalidField name path value detail\<close> is \<open>apierrors.NewInvalid\<close> with the one
  \<open>field.Invalid(path, value, detail)\<close> the webhook puts in it, and
  \<open>External\<close> is an error value handed out by a library or a server.
\<close>

datatype gerror =
    Errorf string "farg list"
  | Wrapf string "farg list" gerror
  | ApiStatus api_reason string
  | InvalidField string "string list" farg string
  | External string

text \<open>\<open>apierrors.IsNotFound\<close> looks through wrapped errors (\<open>errors.As\<close>).\<close>

fun IsNotFound :: "gerror \<Rightarrow> bool" where
  "IsNotFound (ApiStatus r m) = (r = NotFound)"
| "IsNotFound (Wrapf f a e) = IsNotFound e"
| "IsNotFound (Errorf f a) = False"
| "IsNotFound (InvalidField n p v d) = False"
| "IsNotFound (External m) = False"

fun IsConflict :: "gerror \<Rightarrow> bool" where
  "IsConflict (ApiStatus r m) = (r = Conflict)"
| "IsConflict (Wrapf f a e) = IsConflict e"
| "IsConflict (Errorf f a) = False"
| "IsConflict (InvalidField n p v d) = False"
| "IsConflict (External m) = False"

section \<open>Outcomes and programs\<close>

datatype 'a res = Ok 'a | Err gerror | Panic string | Blocked

type_synonym ('s, 'a) prog = "'s \<Rightarrow> 'a res \<times> 's"

definition ret :: "'a \<Rightarrow> ('s, 'a) prog" where
  "ret x = (\<lambda>s. (Ok x, s))"

definition fail :: "gerror \<Rightarrow> ('s, 'a) prog" where
  "fail e = (\<lambda>s. (Err e, s))"

definition panic :: "string \<Rightarrow> ('s, 'a) prog" where
  "panic m = (\<lambda>s. (Panic m, s))"

definition getS :: "('s, 's) prog" where
  "getS = (\<lambda>s. (Ok s, s))"

definition modS :: "('s \<Rightarrow> 's) \<Rightarrow> ('s, unit) prog" where
  "modS f = (\<lambda>s. (Ok (), f s))"

text \<open>Sequencing: the early return on an error and the unwinding on a panic.\<close>

definition bindR :: "('s, 'a) prog \<Rightarrow> ('a \<Rightarrow> ('s, 'b) prog) \<Rightarrow> ('s, 'b) prog" where
  "bindR m k = (\<lambda>s. case m s of
      (Ok x, s') \<Rightarrow> k x s'
    | (Err e, s') \<Rightarrow> (Err e, s')
    | (Panic p, s') \<Rightarrow> (Panic p, s')
    | (Blocked, s') \<Rightarrow> (Blocked, s'))"

text \<open>\<open>ctxR f m\<close>: a failure of \<open>m\<close> is returned rewritten by \<open>f\<close>, as \<open>fmt.Errorf\<close> does.\<close>

definition ctxR :: "(gerror \<Rightarrow> gerror) \<Rightarrow> ('s, 'a) prog \<Rightarrow> ('s, 'a) prog" where
  "ctxR f m = (\<lambda>s. case m s of
      (Ok x, s') \<Rightarrow> (Ok x, s')
    | (Err e, s') \<Rightarrow> (Err (f e), s')
    | (Panic p, s') \<Rightarrow> (Panic p, s')
    | (Blocked, s') \<Rightarrow> (Blocked, s'))"

text \<open>\<open>tryR m\<close>: the error as a value, for code that inspects it and goes on.\<close>

definition tryR :: "('s, 'a) prog \<Rightarrow> ('s, gerror + 'a) prog" where
  "tryR m = (\<lambda>s. case m s of
      (Ok x, s') \<Rightarrow> (Ok (Inr x), s')
    | (Err e, s') \<Rightarrow> (Ok (Inl e), s')
    | (Panic p, s') \<Rightarrow> (Panic p, s')
    | (Blocked, s') \<Rightarrow> (Blocked, s'))"

text \<open>\<open>callR f\<close>: a call of a library or a server, which answers with an error or a value.\<close>

definition callR :: "('s \<Rightarrow> (gerror + 'a) \<times> 's) \<Rightarrow> ('s, 'a) prog" where
  "callR f = (\<lambda>s. case f s of
      (Inl e, s') \<Rightarrow> (Err e, s')
    | (Inr x, s') \<Rightarrow> (Ok x, s'))"

text \<open>\<open>askR f\<close>: a call that cannot fail.\<close>

definition askR :: "('s \<Rightarrow> 'a \<times> 's) \<Rightarrow> ('s, 'a) prog" where
  "askR f = (\<lambda>s. case f s of (x, s') \<Rightarrow> (Ok x, s'))"

definition whenR :: "bool \<Rightarrow> ('s, unit) prog \<Rightarrow> ('s, unit) prog" where
  "whenR b m = (if b then m else ret ())"

text \<open>A \<open>for ... range\<close> loop whose body may return early.\<close>

fun forR :: "'x list \<Rightarrow> ('x \<Rightarrow> ('s, unit) prog) \<Rightarrow> ('s, unit) prog" where
  "forR [] f = ret ()"
| "forR (x # xs) f = bindR (f x) (\<lambda>_. forR xs f)"

abbreviation wrap :: "string \<Rightarrow> ('s, 'a) prog \<Rightarrow> ('s, 'a) prog" where
  "wrap msg \<equiv> ctxR (Wrapf msg [])"

declare ret_def [prog_simps] fail_def [prog_simps] panic_def [prog_simps]
  getS_def [prog_simps] modS_def [prog_simps] whenR_def [prog_simps]

section \<open>Running and inverting programs\<close>

lemma bindR_eq [prog_simps]:
  "m s = (Ok x, s') \<Longrightarrow> bindR m k s = k x s'"
  "m s = (Err e, s') \<Longrightarrow> bindR m k s = (Err e, s')"
  "m s = (Panic p, s') \<Longrightarrow> bindR m k s = (Panic p, s')"
  "m s = (Blocked, s') \<Longrightarrow> bindR m k s = (Blocked, s')"
  by (simp_all add: bindR_def)

lemma ctxR_eq [prog_simps]:
  "m s = (Ok x, s') \<Longrightarrow> ctxR f m s = (Ok x, s')"
  "m s = (Err e, s') \<Longrightarrow> ctxR f m s = (Err (f e), s')"
  "m s = (Panic p, s') \<Longrightarrow> ctxR f m s = (Panic p, s')"
  "m s = (Blocked, s') \<Longrightarrow> ctxR f m s = (Blocked, s')"
  by (simp_all add: ctxR_def)

lemma tryR_eq [prog_simps]:
  "m s = (Ok x, s') \<Longrightarrow> tryR m s = (Ok (Inr x), s')"
  "m s = (Err e, s') \<Longrightarrow> tryR m s = (Ok (Inl e), s')"
  "m s = (Panic p, s') \<Longrightarrow> tryR m s = (Panic p, s')"
  "m s = (Blocked, s') \<Longrightarrow> tryR m s = (Blocked, s')"
  by (simp_all add: tryR_def)

lemma callR_eq [prog_simps]:
  "f s = (Inl e, s') \<Longrightarrow> callR f s = (Err e, s')"
  "f s = (Inr x, s') \<Longrightarrow> callR f s = (Ok x, s')"
  by (simp_all add: callR_def)

lemma askR_eq [prog_simps]: "f s = (x, s') \<Longrightarrow> askR f s = (Ok x, s')"
  by (simp add: askR_def)

lemma bindR_OkE [prog_elims]:
  assumes "bindR m k s = (Ok y, s'')"
  obtains x s' where "m s = (Ok x, s')" and "k x s' = (Ok y, s'')"
  using assms by (auto simp: bindR_def split: prod.splits res.splits)

lemma bindR_ErrE:
  assumes "bindR m k s = (Err e, s'')"
  obtains "m s = (Err e, s'')"
  | x s' where "m s = (Ok x, s')" and "k x s' = (Err e, s'')"
  using assms by (auto simp: bindR_def split: prod.splits res.splits)

lemma ctxR_OkE [prog_elims]:
  assumes "ctxR f m s = (Ok y, s')"
  obtains "m s = (Ok y, s')"
  using assms by (auto simp: ctxR_def split: prod.splits res.splits)

lemma tryR_OkE [prog_elims]:
  assumes "tryR m s = (Ok y, s')"
  obtains e where "y = Inl e" and "m s = (Err e, s')"
  | x where "y = Inr x" and "m s = (Ok x, s')"
  using assms by (auto simp: tryR_def split: prod.splits res.splits)

lemma callR_OkE [prog_elims]:
  assumes "callR f s = (Ok y, s')"
  obtains "f s = (Inr y, s')"
  using assms by (auto simp: callR_def split: prod.splits sum.splits)

lemma askR_OkE [prog_elims]:
  assumes "askR f s = (Ok y, s')"
  obtains "f s = (y, s')"
  using assms by (auto simp: askR_def split: prod.splits)

lemma ret_OkD [dest!]: "ret x s = (Ok y, s') \<Longrightarrow> y = x \<and> s' = s"
  by (simp add: ret_def)

lemma fail_not_Ok [simp]: "fail e s \<noteq> (Ok y, s')" "panic m s \<noteq> (Ok y, s')"
  by (simp_all add: fail_def panic_def)

section \<open>Invariants of programs\<close>

text \<open>
  \<open>keeps I m\<close>: whatever \<open>m\<close> returns (value, error, panic), it leaves the state in \<open>I\<close>.
  The combinators keep what their parts keep, so an invariant of a component's primitive
  operations is one of every program built from them.
\<close>

definition keeps :: "('s \<Rightarrow> bool) \<Rightarrow> ('s, 'a) prog \<Rightarrow> bool" where
  "keeps I m \<longleftrightarrow> (\<forall>s. I s \<longrightarrow> I (snd (m s)))"

named_theorems keeps_intros \<open>programs that keep an invariant\<close>

lemma keepsI: "(\<And>s r s'. I s \<Longrightarrow> m s = (r, s') \<Longrightarrow> I s') \<Longrightarrow> keeps I m"
  unfolding keeps_def by (metis prod.collapse)

lemma keepsD: "keeps I m \<Longrightarrow> I s \<Longrightarrow> m s = (r, s') \<Longrightarrow> I s'"
  unfolding keeps_def by (metis snd_conv)

lemma keeps_basic [keeps_intros]:
  "keeps I (ret x)" "keeps I (fail e)" "keeps I (panic p)" "keeps I getS"
  by (simp_all add: keeps_def prog_simps)

lemma keeps_modS [keeps_intros]: "(\<And>s. I s \<Longrightarrow> I (f s)) \<Longrightarrow> keeps I (modS f)"
  by (simp add: keeps_def modS_def)

lemma keeps_bindR [keeps_intros]:
  assumes "keeps I m" and "\<And>x. keeps I (k x)"
  shows "keeps I (bindR m k)"
proof (rule keepsI)
  fix s r s''
  assume "I s" and run: "bindR m k s = (r, s'')"
  obtain q s' where m: "m s = (q, s')" by (cases "m s")
  have "I s'" using keepsD [OF assms(1) \<open>I s\<close> m] .
  then show "I s''"
    using run m assms(2) by (cases q) (auto simp: bindR_def dest: keepsD)
qed

text \<open>What follows only has to keep the invariant on the values the first part can give.\<close>

lemma keeps_bindR_post:
  assumes m: "keeps I m" and post: "\<And>s x s'. I s \<Longrightarrow> m s = (Ok x, s') \<Longrightarrow> P x" and k: "\<And>x. P x \<Longrightarrow> keeps I (k x)"
  shows "keeps I (bindR m k)"
proof (rule keepsI)
  fix s r s''
  assume "I s" and run: "bindR m k s = (r, s'')"
  obtain q s' where q: "m s = (q, s')" by (cases "m s")
  have "I s'" using keepsD [OF m \<open>I s\<close> q] .
  show "I s''"
  proof (cases q)
    case (Ok x)
    from post [OF \<open>I s\<close> q [unfolded Ok]] have "keeps I (k x)" by (rule k)
    with run q Ok \<open>I s'\<close> show ?thesis by (auto simp: bindR_def dest: keepsD)
  qed (use run q \<open>I s'\<close> in \<open>auto simp: bindR_def\<close>)
qed

lemma keeps_ctxR [keeps_intros]: "keeps I m \<Longrightarrow> keeps I (ctxR f m)"
  by (force simp: keeps_def ctxR_def split: prod.splits res.splits)

lemma keeps_tryR [keeps_intros]: "keeps I m \<Longrightarrow> keeps I (tryR m)"
  by (force simp: keeps_def tryR_def split: prod.splits res.splits)

lemma keeps_whenR [keeps_intros]: "(b \<Longrightarrow> keeps I m) \<Longrightarrow> keeps I (whenR b m)"
  by (simp add: whenR_def keeps_basic)

lemma keeps_if [keeps_intros]:
  "(b \<Longrightarrow> keeps I m) \<Longrightarrow> (\<not> b \<Longrightarrow> keeps I n) \<Longrightarrow> keeps I (if b then m else n)"
  by simp

lemma keeps_option [keeps_intros]:
  "keeps I n \<Longrightarrow> (\<And>x. keeps I (k x)) \<Longrightarrow> keeps I (case z of None \<Rightarrow> n | Some x \<Rightarrow> k x)"
  by (cases z) simp_all

lemma keeps_sum [keeps_intros]:
  "(\<And>x. keeps I (j x)) \<Longrightarrow> (\<And>x. keeps I (k x)) \<Longrightarrow> keeps I (case z of Inl x \<Rightarrow> j x | Inr x \<Rightarrow> k x)"
  by (cases z) simp_all

lemma keeps_forR [keeps_intros]: "(\<And>x. x \<in> set xs \<Longrightarrow> keeps I (f x)) \<Longrightarrow> keeps I (forR xs f)"
  by (induction xs) (auto intro!: keeps_intros)

lemma keeps_callR [keeps_intros]:
  "(\<And>s. I s \<Longrightarrow> I (snd (f s))) \<Longrightarrow> keeps I (callR f)"
  by (force simp: keeps_def callR_def split: prod.splits sum.splits)

lemma keeps_askR [keeps_intros]:
  "(\<And>s. I s \<Longrightarrow> I (snd (f s))) \<Longrightarrow> keeps I (askR f)"
  by (force simp: keeps_def askR_def split: prod.splits)

section \<open>Programs that return\<close>

text \<open>
  \<open>returns I m\<close>: from a state in \<open>I\<close>, \<open>m\<close> ends with a value or an error (no panic, no block) and
  in a state in \<open>I\<close>.
\<close>

definition settled :: "'a res \<Rightarrow> bool" where
  "settled r \<longleftrightarrow> (\<exists>x. r = Ok x) \<or> (\<exists>e. r = Err e)"

lemma settled_simps [simp]:
  "settled (Ok x)" "settled (Err e)" "\<not> settled (Panic m)" "\<not> settled Blocked"
  by (simp_all add: settled_def)

definition returns :: "('s \<Rightarrow> bool) \<Rightarrow> ('s, 'a) prog \<Rightarrow> bool" where
  "returns I m \<longleftrightarrow> keeps I m \<and> (\<forall>s. I s \<longrightarrow> settled (fst (m s)))"

lemma returnsI: "keeps I m \<Longrightarrow> (\<And>s r s'. I s \<Longrightarrow> m s = (r, s') \<Longrightarrow> settled r) \<Longrightarrow> returns I m"
  by (simp add: returns_def) (metis prod.collapse)

lemma returns_keeps: "returns I m \<Longrightarrow> keeps I m"
  by (simp add: returns_def)

lemma returnsD: "returns I m \<Longrightarrow> I s \<Longrightarrow> m s = (r, s') \<Longrightarrow> settled r"
  by (simp add: returns_def) (metis fst_conv)

named_theorems returns_intros \<open>programs that return and keep an invariant\<close>

lemma returns_basic [returns_intros]:
  "returns I (ret x)" "returns I (fail e)" "returns I getS"
  by (simp_all add: returns_def keeps_basic) (simp_all add: prog_simps)

lemma returns_modS [returns_intros]: "(\<And>s. I s \<Longrightarrow> I (f s)) \<Longrightarrow> returns I (modS f)"
  by (simp add: returns_def keeps_modS) (simp add: modS_def)

text \<open>What follows only has to return on the values the first part can give.\<close>

lemma returns_bindR_post:
  assumes m: "returns I m" and post: "\<And>s x s'. I s \<Longrightarrow> m s = (Ok x, s') \<Longrightarrow> P x"
    and k: "\<And>x. P x \<Longrightarrow> returns I (k x)"
  shows "returns I (bindR m k)"
proof -
  have "I s'' \<and> settled r" if I: "I s" and run: "bindR m k s = (r, s'')" for s r s''
  proof -
    obtain q s' where q: "m s = (q, s')" by (cases "m s")
    have "I s'" "settled q"
      using keepsD [OF returns_keeps [OF m] I q] returnsD [OF m I q] by auto
    show ?thesis
    proof (cases q)
      case (Ok x)
      with q run have r: "k x s' = (r, s'')" by (simp add: bindR_def)
      have "returns I (k x)" using post [OF I] q Ok k by blast
      from keepsD [OF returns_keeps [OF this] \<open>I s'\<close> r] returnsD [OF this \<open>I s'\<close> r]
      show ?thesis ..
    qed (use q run \<open>I s'\<close> \<open>settled q\<close> in \<open>auto simp: bindR_def\<close>)
  qed
  then show ?thesis by (intro returnsI keepsI) simp_all
qed

lemma returns_bindR [returns_intros]:
  assumes "returns I m" and "\<And>x. returns I (k x)"
  shows "returns I (bindR m k)"
  using assms by (intro returns_bindR_post [where P = "\<lambda>_. True"]) auto

lemma returns_ctxR [returns_intros]:
  assumes "returns I m"
  shows "returns I (ctxR f m)"
proof (rule returnsI [OF keeps_ctxR [OF returns_keeps [OF assms]]])
  fix s r s'
  assume "I s" "ctxR f m s = (r, s')"
  then show "settled r"
    by (cases "m s") (auto simp: ctxR_def dest: returnsD [OF assms] split: res.splits)
qed

lemma returns_tryR [returns_intros]:
  assumes "returns I m"
  shows "returns I (tryR m)"
proof (rule returnsI [OF keeps_tryR [OF returns_keeps [OF assms]]])
  fix s r s'
  assume "I s" "tryR m s = (r, s')"
  then show "settled r"
    by (cases "m s") (auto simp: tryR_def dest: returnsD [OF assms] split: res.splits)
qed

lemma returns_if [returns_intros]:
  "(b \<Longrightarrow> returns I m) \<Longrightarrow> (\<not> b \<Longrightarrow> returns I n) \<Longrightarrow> returns I (if b then m else n)"
  by simp

lemma returns_whenR [returns_intros]: "(b \<Longrightarrow> returns I m) \<Longrightarrow> returns I (whenR b m)"
  by (simp add: whenR_def returns_basic)

lemma returns_option [returns_intros]:
  "returns I n \<Longrightarrow> (\<And>x. returns I (k x)) \<Longrightarrow> returns I (case z of None \<Rightarrow> n | Some x \<Rightarrow> k x)"
  by (cases z) simp_all

lemma returns_forR [returns_intros]: "(\<And>x. x \<in> set xs \<Longrightarrow> returns I (f x)) \<Longrightarrow> returns I (forR xs f)"
  by (induction xs) (auto intro!: returns_intros)

lemma returns_callR [returns_intros]:
  "(\<And>s. I s \<Longrightarrow> I (snd (f s))) \<Longrightarrow> returns I (callR f)"
  by (simp add: returns_def keeps_callR) (simp add: callR_def split: prod.splits sum.splits)

lemma returns_askR [returns_intros]:
  "(\<And>s. I s \<Longrightarrow> I (snd (f s))) \<Longrightarrow> returns I (askR f)"
  by (simp add: returns_def keeps_askR) (simp add: askR_def split: prod.splits)

section \<open>Association lists as Go maps\<close>

text \<open>
  A Go map is an association list with distinct keys. Assignment to a present key replaces its value
  in place, to an absent key adds it; \<open>delete\<close> drops it.
\<close>

declare map_of_eq_Some_iff [simp del] Some_eq_map_of_iff [simp del]

fun mput :: "'k \<Rightarrow> 'v \<Rightarrow> ('k \<times> 'v) list \<Rightarrow> ('k \<times> 'v) list" where
  "mput k v [] = [(k, v)]"
| "mput k v ((k', v') # m) = (if k' = k then (k, v) # m else (k', v') # mput k v m)"

definition mdel :: "'k \<Rightarrow> ('k \<times> 'v) list \<Rightarrow> ('k \<times> 'v) list" where
  "mdel k m = filter (\<lambda>p. fst p \<noteq> k) m"

abbreviation mkeys :: "('k \<times> 'v) list \<Rightarrow> 'k list" where
  "mkeys m \<equiv> map fst m"

lemma map_of_mput [simp]: "map_of (mput k v m) = (map_of m)(k \<mapsto> v)"
  by (induction k v m rule: mput.induct) (auto simp: fun_eq_iff)

lemma set_mkeys_mput [simp]: "set (mkeys (mput k v m)) = insert k (set (mkeys m))"
  by (induction k v m rule: mput.induct) auto

lemma distinct_mput [simp]: "distinct (mkeys (mput k v m)) = distinct (mkeys m)"
proof (induction k v m rule: mput.induct)
  case (2 k v k' v' m)
  then show ?case using set_mkeys_mput [of k v m] by (auto simp del: set_mkeys_mput)
qed simp

lemma map_of_mdel [simp]: "map_of (mdel k m) = (map_of m)(k := None)"
  by (induction m) (auto simp: mdel_def fun_eq_iff)

lemma set_mkeys_mdel [simp]: "set (mkeys (mdel k m)) = set (mkeys m) - {k}"
  by (auto simp: mdel_def)

lemma distinct_mdel: "distinct (mkeys m) \<Longrightarrow> distinct (mkeys (mdel k m))"
  by (induction m) (auto simp: mdel_def)

lemma map_of_Some_key: "map_of m k = Some v \<Longrightarrow> k \<in> set (mkeys m)"
  by (metis map_of_eq_None_iff image_set option.distinct(1))

end
