(* ===== verification/Utils.thy ===== *)
theory Utils
  imports Prelude
begin

text \<open>
  \<open>internal/utils\<close>: the string-slice helpers of \<open>string.go\<close>, the pointer helpers of
  \<open>typing.go\<close> and the pod readiness test of \<open>k8s.go\<close>, with the interface the
  finalizer handling and the sync tracker rely on: a slice used as a set.
\<close>

section \<open>Slices used as sets: the interface\<close>

text \<open>
  A collection that is tested and added to. The client lemma says what a run of additions leaves;
  \<open>shrinking_set\<close> adds removal.
\<close>

locale growing_set =
  fixes isin :: "'s \<Rightarrow> 'a \<Rightarrow> bool"
    and add :: "'s \<Rightarrow> 'a \<Rightarrow> 's"
    and elems :: "'s \<Rightarrow> 'a set"
  assumes isin_iff: "isin s x = (x \<in> elems s)"
    and elems_add: "elems (add s x) = insert x (elems s)"
begin

lemma isin_add: "isin (add s x) y = (y = x \<or> isin s y)"
  by (simp add: isin_iff elems_add)

lemma elems_foldl_add: "elems (foldl add s xs) = elems s \<union> set xs"
  by (induction xs arbitrary: s) (auto simp: elems_add)

lemma isin_foldl_add: "isin (foldl add s xs) y = (isin s y \<or> y \<in> set xs)"
  by (simp add: isin_iff elems_foldl_add)

end

locale shrinking_set = growing_set +
  fixes del :: "'a \<Rightarrow> 'b \<Rightarrow> 'a"
  assumes elems_del: "elems (del s x) = elems s - {x}"
begin

lemma isin_del: "isin (del s x) y = (isin s y \<and> y \<noteq> x)"
  by (auto simp: isin_iff elems_del)

lemma elems_add_del: "elems (del (add s x) x) = elems s - {x}"
  by (auto simp: elems_del elems_add)

lemma not_isin_after_del: "\<not> isin (del s x) x"
  by (simp add: isin_del)

end

section \<open>string.go\<close>

fun ContainsString :: "string list \<Rightarrow> string \<Rightarrow> bool" where
  "ContainsString [] s = False"
| "ContainsString (v # xs) s = (if v = s then True else ContainsString xs s)"

fun RemoveString :: "string list \<Rightarrow> string \<Rightarrow> string list" where
  "RemoveString [] s = []"
| "RemoveString (v # xs) s = (if v \<noteq> s then v # RemoveString xs s else RemoveString xs s)"

lemma ContainsString_iff: "ContainsString xs s = (s \<in> set xs)"
  by (induction xs) auto

lemma RemoveString_filter: "RemoveString xs s = filter (\<lambda>v. v \<noteq> s) xs"
  by (induction xs) auto

interpretation finalizers: shrinking_set ContainsString "\<lambda>xs x. xs @ [x]" set RemoveString
  by unfold_locales (auto simp: ContainsString_iff RemoveString_filter)

section \<open>typing.go\<close>

text \<open>A pointer to a fresh copy of a value: \<open>Some\<close>, with \<open>None\<close> for \<open>nil\<close>.\<close>

definition Int32Ptr :: "32 word \<Rightarrow> 32 word option" where
  "Int32Ptr i = Some i"

definition PtrTo :: "'a \<Rightarrow> 'a option" where
  "PtrTo v = Some v"

section \<open>k8s.go\<close>

record PodCondition =
  pcType :: string
  pcStatus :: string

record Pod =
  podName :: string
  podUID :: string
  podIP :: string
  podConditions :: "PodCondition list"

fun pod_ready_conds :: "PodCondition list \<Rightarrow> bool" where
  "pod_ready_conds [] = False"
| "pod_ready_conds (cond # cs) =
     (if pcType cond = ''Ready'' \<and> pcStatus cond = ''True'' then True else pod_ready_conds cs)"

definition IsPodReady :: "Pod \<Rightarrow> bool" where
  "IsPodReady pod = pod_ready_conds (podConditions pod)"

lemma IsPodReady_iff:
  "IsPodReady pod \<longleftrightarrow> (\<exists>c \<in> set (podConditions pod). pcType c = ''Ready'' \<and> pcStatus c = ''True'')"
proof -
  have "pod_ready_conds cs \<longleftrightarrow> (\<exists>c \<in> set cs. pcType c = ''Ready'' \<and> pcStatus c = ''True'')" for cs
    by (induction cs) auto
  then show ?thesis by (simp add: IsPodReady_def)
qed

end
