(* ===== verification/ApiTypes.thy ===== *)
theory ApiTypes
  imports Utils
begin

text \<open>
  \<open>api/v1/piholecluster_types.go\<close>: the custom resource, one record per Go struct, one field
  per field (prefixed where two structs share a field name). A pointer field is an \<open>option\<close>
  (\<open>nil\<close> is \<open>None\<close>), a slice a list, a string map an association list, an \<open>int32\<close> a
  \<open>32 word\<close> read with \<open>sint\<close>.
  Structures of the Kubernetes libraries that the operator only copies or compares with their zero
  value (resource requirements, security contexts) are \<open>opaque\<close> values with \<open>[]\<close> as the zero value.
\<close>

type_synonym int32 = "32 word"
type_synonym opaque = string
type_synonym smap = "(string \<times> string) list"

section \<open>Library structures the operator builds or reads\<close>

text \<open>\<open>corev1.ProbeHandler\<close>: the two handlers the operator builds, and any other one.\<close>

datatype ProbeHandler = TCPSocket string | HTTPGet string string | OtherHandler opaque

record Probe =
  prbHandler :: ProbeHandler
  InitialDelaySeconds :: int32
  PeriodSeconds :: int32
  TimeoutSeconds :: int32
  prbRest :: opaque

record SecretKeySelector =
  sksName :: string
  sksKey :: string

text \<open>\<open>metav1.Condition\<close>; times are instants in nanoseconds, \<open>0\<close> the zero time.\<close>

record Condition =
  cndType :: string
  cndStatus :: string
  cndReason :: string
  cndMessage :: string
  cndTransition :: int

section \<open>The specification\<close>

record APIPassword =
  apPassword :: string
  apSecretRef :: "SecretKeySelector option"

record ConfigSpec =
  cfgAPIPassword :: APIPassword
  cfgEnvVars :: smap
  cfgAdLists :: "string list"

record PersistenceSpec =
  perSize :: string
  perStorageClassName :: "string option"
  perAccessModes :: "string list"

record ReadOnlyVolumeSpec =
  ReadOnlyVolumeType :: string
  rovSize :: string
  rovStorageClassName :: "string option"
  rovAccessModes :: "string list"

record IngressSpec =
  ingEnabled :: bool
  ingDomain :: string

record SyncSpec =
  synConfig :: bool
  synAdLists :: bool

record ExporterSpec =
  expEnabled :: bool
  expResources :: opaque
  expContainerSecurityContext :: "opaque option"
  expLivenessProbe :: "Probe option"
  expReadinessProbe :: "Probe option"

record PodMonitorSpec =
  pmEnabled :: bool

record MonitoringSpec =
  monExporter :: "ExporterSpec option"
  monPodMonitor :: "PodMonitorSpec option"

record ServiceSpec =
  svcType :: string
  svcExternalTrafficPolicy :: string
  svcClusterIP :: string
  svcAnnotations :: smap
  svcLabels :: smap

record SecuritySpec =
  secPodSecurityContext :: "opaque option"
  secContainerSecurityContext :: "opaque option"

record PiHoleClusterSpec =
  Replicas :: int32
  ReadOnlyVolume :: "ReadOnlyVolumeSpec option"
  Ingress :: "IngressSpec option"
  Sync :: "SyncSpec option"
  Monitoring :: "MonitoringSpec option"
  Service :: "ServiceSpec option"
  Config :: "ConfigSpec option"
  Persistence :: "PersistenceSpec option"
  Resources :: opaque
  Security :: "SecuritySpec option"
  LivenessProbe :: "Probe option"
  ReadinessProbe :: "Probe option"

section \<open>The status and the resource\<close>

record SyncedPod =
  spName :: string
  spUID :: string

record PiHoleClusterStatus =
  ResourcesReady :: bool
  ConfigSynced :: bool
  AdListSynced :: bool
  SyncedPods :: "SyncedPod list"
  LastConfigSyncTime :: int
  LastAdListSyncTime :: int
  LastError :: string
  Conditions :: "Condition list"

text \<open>
  The metadata fields the operator reads or writes; \<open>clResourceVersion\<close> is the version the API
  server checks on an update.
\<close>

record PiHoleCluster =
  clName :: string
  clNamespace :: string
  clUID :: string
  clResourceVersion :: string
  clFinalizers :: "string list"
  clDeletionTimestamp :: "int option"
  clSpec :: PiHoleClusterSpec
  clStatus :: PiHoleClusterStatus

text \<open>A \<open>runtime.Object\<close>: a cluster, or an object of another type with its type name.\<close>

datatype runtime_obj = ClusterObj PiHoleCluster | OtherObj string

section \<open>Zero values\<close>

definition zero_spec :: PiHoleClusterSpec where
  "zero_spec = \<lparr>Replicas = 0, ReadOnlyVolume = None, Ingress = None, Sync = None,
     Monitoring = None, Service = None, Config = None, Persistence = None, Resources = [],
     Security = None, LivenessProbe = None, ReadinessProbe = None\<rparr>"

definition zero_status :: PiHoleClusterStatus where
  "zero_status = \<lparr>ResourcesReady = False, ConfigSynced = False, AdListSynced = False,
     SyncedPods = [], LastConfigSyncTime = 0, LastAdListSyncTime = 0, LastError = [],
     Conditions = []\<rparr>"

definition zero_cluster :: PiHoleCluster where
  "zero_cluster = \<lparr>clName = [], clNamespace = [], clUID = [], clResourceVersion = [],
     clFinalizers = [], clDeletionTimestamp = None, clSpec = zero_spec, clStatus = zero_status\<rparr>"

definition zero_exporter :: ExporterSpec where
  "zero_exporter = \<lparr>expEnabled = False, expResources = [], expContainerSecurityContext = None,
     expLivenessProbe = None, expReadinessProbe = None\<rparr>"

end
