(* ===== verification/Retry.thy ===== *)
theory Retry
  imports Prelude
begin

text \<open>
  The exponential back-off helper of \<open>internal/pihole_api/api_client.go\<close> (lines 54 to 107):
  \<open>backoffConfig\<close> and \<open>retryWithBackoff\<close> over any operation on any state, with durations kept as
  64-bit signed nanoseconds. The interface \<open>retrier\<close> states what callers of a retry helper rely on;
  it is proved for \<open>retryWithBackoff\<close> here, and is what \<open>retry.RetryOnConflict\<close> of client-go
  documents.
\<close>

type_synonym duration = "64 word"

text \<open>\<open>MaxRetries\<close> is a Go \<open>int\<close>; the loop returns before the counter could pass it.\<close>

record backoffConfig =
  MaxRetries :: int
  Initial :: duration
  Max :: duration

section \<open>The interface of a retry helper\<close>

text \<open>
  \<open>run f\<close> calls \<open>f\<close> a number of times with pauses in between. \<open>pause s t\<close>: waiting can take the
  state from \<open>s\<close> to \<open>t\<close>. What failing calls and pauses keep holds before every call and after a
  failure of \<open>run f\<close>; a success, a panic or a block of \<open>run f\<close> is one of a call of \<open>f\<close>.
\<close>

definition kept_by :: "('s \<Rightarrow> bool) \<Rightarrow> ('s \<Rightarrow> 's \<Rightarrow> bool) \<Rightarrow> bool" where
  "kept_by I p \<longleftrightarrow> (\<forall>s t. I s \<longrightarrow> p s t \<longrightarrow> I t)"

definition failing :: "('s, unit) prog \<Rightarrow> 's \<Rightarrow> 's \<Rightarrow> bool" where
  "failing f s t \<longleftrightarrow> (\<exists>e. f s = (Err e, t))"

locale retrier =
  fixes run :: "('s, unit) prog \<Rightarrow> ('s, unit) prog"
    and pause :: "'s \<Rightarrow> 's \<Rightarrow> bool"
  assumes run_Err: "kept_by I (failing f) \<Longrightarrow> kept_by I pause \<Longrightarrow> I s \<Longrightarrow> run f s = (Err e, s') \<Longrightarrow> I s'"
    and run_outcome: "kept_by I (failing f) \<Longrightarrow> kept_by I pause \<Longrightarrow> I s \<Longrightarrow>
      run f s = (r, s') \<Longrightarrow> \<nexists>e. r = Err e \<Longrightarrow> \<exists>t. I t \<and> f t = (r, s')"
begin

lemma run_Ok_post:
  assumes "kept_by I (failing f)" "kept_by I pause" "I s" "run f s = (Ok (), s')"
    and "\<And>t t'. I t \<Longrightarrow> f t = (Ok (), t') \<Longrightarrow> Q t'"
  shows "Q s'"
  using run_outcome [OF assms(1-4)] assms(5) by auto

lemma run_keeps:
  assumes "keeps I f" "kept_by I pause"
  shows "keeps I (run f)"
proof (rule keepsI)
  fix s r s'
  assume s: "I s" "run f s = (r, s')"
  have k: "kept_by I (failing f)"
    using assms(1) by (auto simp: kept_by_def failing_def dest: keepsD)
  show "I s'"
  proof (cases "\<exists>e. r = Err e")
    case True
    with s run_Err [OF k assms(2)] show ?thesis by blast
  next
    case False
    with run_outcome [OF k assms(2) s] obtain t where "I t" "f t = (r, s')" by auto
    with assms(1) show ?thesis by (rule keepsD)
  qed
qed

lemma run_settled:
  assumes "returns I f" "kept_by I pause"
  shows "returns I (run f)"
proof -
  have k: "keeps I f" and kf: "kept_by I (failing f)"
    using assms(1) by (auto simp: returns_keeps kept_by_def failing_def dest: returns_keeps keepsD)
  have "settled r" if s: "I s" "run f s = (r, s')" for s r s'
  proof (cases "\<exists>e. r = Err e")
    case False
    with run_outcome [OF kf assms(2) s] assms(1) show ?thesis by (auto dest: returnsD)
  qed (auto simp: settled_def)
  then show ?thesis
    by (rule returnsI [OF run_keeps [OF k assms(2)]])
qed

end

section \<open>The loop\<close>

text \<open>
  \<open>sel d\<close> is the \<open>select\<close> between \<open>time.After(d)\<close> and \<open>ctx.Done()\<close>: \<open>None\<close> when the timer
  fires, \<open>Some err\<close> with \<open>ctx.Err()\<close> when the context ends first.
\<close>

type_synonym 's select = "duration \<Rightarrow> 's \<Rightarrow> gerror option \<times> 's"

definition next_backoff :: "backoffConfig \<Rightarrow> duration \<Rightarrow> duration" where
  "next_backoff cfg b = (let b2 = b * 2 in if sint (Max cfg) < sint b2 then Max cfg else b2)"

function retry_loop ::
  "'s select \<Rightarrow> backoffConfig \<Rightarrow> ('s, unit) prog \<Rightarrow> int \<Rightarrow> duration \<Rightarrow> 's \<Rightarrow> unit res \<times> 's" where
  "retry_loop sel cfg fn attempt backOff s =
     (if attempt \<le> MaxRetries cfg then
        (case fn s of
            (Ok u, s1) \<Rightarrow> (Ok (), s1)
          | (Err e, s1) \<Rightarrow>
              if attempt = MaxRetries cfg then
                (Err (Wrapf ''after %d attempts'' [FI (attempt + 1)] e), s1)
              else (case sel backOff s1 of
                  (Some ce, s2) \<Rightarrow> (Err ce, s2)
                | (None, s2) \<Rightarrow> retry_loop sel cfg fn (attempt + 1) (next_backoff cfg backOff) s2)
          | (Panic p, s1) \<Rightarrow> (Panic p, s1)
          | (Blocked, s1) \<Rightarrow> (Blocked, s1))
      else (Ok (), s))"
  by pat_completeness auto
termination
  by (relation "measure (\<lambda>(sel, cfg, fn, attempt, b, s). nat (MaxRetries cfg + 1 - attempt))") auto

declare retry_loop.simps [simp del]

definition retryWithBackoff ::
  "'s select \<Rightarrow> backoffConfig \<Rightarrow> ('s, unit) prog \<Rightarrow> ('s, unit) prog" where
  "retryWithBackoff sel cfg fn = (\<lambda>s. retry_loop sel cfg fn 0 (Initial cfg) s)"

definition second :: duration where
  "second = 1000000000"

definition millisecond :: duration where
  "millisecond = 1000000"

text \<open>The configuration of \<open>Authenticate\<close> and of \<open>UploadTeleporter\<close>.\<close>

definition pihole_backoff :: backoffConfig where
  "pihole_backoff = \<lparr>MaxRetries = 5, Initial = 500 * millisecond, Max = 5 * second\<rparr>"

section \<open>The reference: a list of waits\<close>

text \<open>
  The specification of a retry loop: one attempt after each wait of a list, and a first one; a success
  or a panic ends it, a context that ends during a wait ends it, and the last failure is wrapped.
\<close>

fun attempts :: "'s select \<Rightarrow> ('s, unit) prog \<Rightarrow> (gerror \<Rightarrow> gerror) \<Rightarrow> duration list \<Rightarrow> ('s, unit) prog" where
  "attempts sel fn fin [] s = ctxR fin fn s"
| "attempts sel fn fin (d # ds) s =
     (case fn s of
         (Err e, s1) \<Rightarrow>
           (case sel d s1 of
               (Some ce, s2) \<Rightarrow> (Err ce, s2)
             | (None, s2) \<Rightarrow> attempts sel fn fin ds s2)
       | out \<Rightarrow> out)"

fun waits :: "backoffConfig \<Rightarrow> nat \<Rightarrow> duration \<Rightarrow> duration list" where
  "waits cfg 0 b = []"
| "waits cfg (Suc n) b = b # waits cfg n (next_backoff cfg b)"

lemma length_waits [simp]: "length (waits cfg n b) = n"
  by (induction n arbitrary: b) auto

lemma retry_loop_attempts:
  "MaxRetries cfg = attempt + int n \<Longrightarrow>
   retry_loop sel cfg fn attempt b s =
     attempts sel fn (Wrapf ''after %d attempts'' [FI (MaxRetries cfg + 1)]) (waits cfg n b) s"
proof (induction n arbitrary: attempt b s)
  case 0
  then show ?case
    by (subst retry_loop.simps) (auto simp: ctxR_def split: prod.splits res.splits)
next
  case (Suc n)
  then have eq: "MaxRetries cfg = attempt + 1 + int n" by simp
  show ?case
    using Suc.prems
    by (subst retry_loop.simps)
      (auto simp: Suc.IH [OF eq] split: prod.splits res.splits option.splits)
qed

lemma nth_waits_bound:
  assumes "0 \<le> sint (Initial cfg)" "sint (Initial cfg) \<le> sint (Max cfg)" "sint (Max cfg) < 2 ^ 62"
  shows "k < n \<Longrightarrow> 0 \<le> sint b \<Longrightarrow> sint b \<le> sint (Max cfg) \<Longrightarrow>
    sint (waits cfg n b ! k) = min (sint b * 2 ^ k) (sint (Max cfg))"
proof (induction k arbitrary: n b)
  case 0
  then show ?case by (cases n) auto
next
  case (Suc k)
  then obtain m where n: "n = Suc m" "k < m" by (cases n) auto
  have dbl: "sint (b * 2) = sint b * 2"
  proof -
    have "sint (b * 2) = signed_take_bit 63 (sint b * sint (2 :: 64 word))"
      by (simp add: sint_word_ariths)
    also have "\<dots> = signed_take_bit 63 (sint b * 2)" by simp
    also have "\<dots> = sint b * 2"
      using Suc.prems assms(3) by (intro signed_take_bit_int_eq_self) auto
    finally show ?thesis .
  qed
  have nb: "sint (next_backoff cfg b) = min (sint b * 2) (sint (Max cfg))"
    by (simp add: next_backoff_def Let_def dbl min_def)
  have "sint (waits cfg n b ! Suc k) = sint (waits cfg m (next_backoff cfg b) ! k)"
    by (simp add: n)
  also have "\<dots> = min (sint (next_backoff cfg b) * 2 ^ k) (sint (Max cfg))"
    using Suc.prems n(2) by (intro Suc.IH) (auto simp: nb)
  also have "\<dots> = min (sint b * 2 ^ Suc k) (sint (Max cfg))"
  proof (cases "sint b * 2 \<le> sint (Max cfg)")
    case True
    then show ?thesis by (simp add: nb algebra_simps)
  next
    case False
    then have "sint (Max cfg) \<le> sint (Max cfg) * 2 ^ k"
      using Suc.prems by (simp add: mult_le_cancel_left1)
    moreover have "sint (Max cfg) \<le> sint b * 2 * 2 ^ k"
    proof -
      have "sint b * 2 * 1 \<le> sint b * 2 * 2 ^ k"
        using Suc.prems by (intro mult_left_mono) auto
      with False show ?thesis by linarith
    qed
    ultimately show ?thesis using False by (simp add: nb min_def algebra_simps)
  qed
  finally show ?case .
qed

section \<open>The loop implements the interface\<close>

definition pause_of :: "'s select \<Rightarrow> 's \<Rightarrow> 's \<Rightarrow> bool" where
  "pause_of sel s t \<longleftrightarrow> (\<exists>d r. sel d s = (r, t))"

lemma attempts_keeps:
  assumes "kept_by I (failing fn)" "kept_by I (pause_of sel)"
  shows "I s \<Longrightarrow> attempts sel fn fin ds s = (r, s') \<Longrightarrow>
    (if \<exists>e. r = Err e then I s' else \<exists>t. I t \<and> fn t = (r, s'))"
proof (induction ds arbitrary: s)
  case Nil
  then show ?case
    using assms(1) by (auto simp: ctxR_def kept_by_def failing_def split: prod.splits res.splits)
next
  case (Cons d ds)
  obtain q s1 where fn: "fn s = (q, s1)" by (cases "fn s")
  show ?case
  proof (cases "\<exists>e. q = Err e")
    case True
    then have I1: "I s1" using assms(1) Cons.prems(1) fn by (auto simp: kept_by_def failing_def)
    obtain z s2 where sel: "sel d s1 = (z, s2)" by (cases "sel d s1")
    with I1 assms(2) have I2: "I s2" unfolding pause_of_def kept_by_def by blast
    show ?thesis
      using Cons.prems Cons.IH [OF I2] True sel I2
      by (cases z) (auto simp: fn)
  next
    case False
    with Cons.prems fn show ?thesis by (cases q) auto
  qed
qed

text \<open>At most one more call than there are waits.\<close>

lemma attempts_bound:
  assumes "\<And>t r t'. fn t = (r, t') \<Longrightarrow> m t' \<le> Suc (m t)" "\<And>t t'. pause_of sel t t' \<Longrightarrow> m t' = (m t :: nat)"
  shows "attempts sel fn fin ds s = (r, s') \<Longrightarrow> m s' \<le> m s + Suc (length ds)"
proof (induction ds arbitrary: s)
  case Nil
  then show ?case
    using assms(1) by (auto simp: ctxR_def split: prod.splits res.splits)
next
  case (Cons d ds)
  obtain q s1 where fn: "fn s = (q, s1)" by (cases "fn s")
  obtain z s2 where sel: "sel d s1 = (z, s2)" by (cases "sel d s1")
  have "m s1 \<le> Suc (m s)" "m s2 = m s1"
    using assms(1) [OF fn] assms(2) [of s1 s2] sel by (auto simp: pause_of_def)
  then show ?case
    using Cons.prems Cons.IH [of s2] fn sel
    by (cases q; cases z) (auto simp: fn)
qed

lemma retryWithBackoff_attempts:
  "MaxRetries cfg = int n \<Longrightarrow> retryWithBackoff sel cfg fn =
     attempts sel fn (Wrapf ''after %d attempts'' [FI (MaxRetries cfg + 1)]) (waits cfg n (Initial cfg))"
  by (rule ext) (simp add: retryWithBackoff_def retry_loop_attempts)

lemma pihole_backoff_attempts:
  "retryWithBackoff sel pihole_backoff fn =
     attempts sel fn (Wrapf ''after %d attempts'' [FI 6]) (waits pihole_backoff 5 (500 * millisecond))"
  by (subst retryWithBackoff_attempts [where n = 5]) (simp_all add: pihole_backoff_def)

text \<open>A first attempt that succeeds is the only one.\<close>

lemma pihole_backoff_first:
  "fn s = (Ok (), s') \<Longrightarrow> retryWithBackoff sel pihole_backoff fn s = (Ok (), s')"
  by (simp add: retryWithBackoff_def retry_loop.simps pihole_backoff_def)

interpretation backoff: retrier "retryWithBackoff sel pihole_backoff" "pause_of sel" for sel
proof
  show "I s'"
    if "kept_by I (failing f)" "kept_by I (pause_of sel)" "I s"
      "retryWithBackoff sel pihole_backoff f s = (Err e, s')" for I f s e s'
    using attempts_keeps [OF that(1-3)] that(4) unfolding pihole_backoff_attempts by auto
  show "\<exists>t. I t \<and> f t = (r, s')"
    if "kept_by I (failing f)" "kept_by I (pause_of sel)" "I s"
      "retryWithBackoff sel pihole_backoff f s = (r, s')" "\<nexists>e. r = Err e" for I f s r s'
    using attempts_keeps [OF that(1-3)] that(4,5) unfolding pihole_backoff_attempts by auto
qed

section \<open>Properties\<close>

text \<open>C22: the back-off loop with \<open>n\<close> retries is the reference loop over its list of \<open>n\<close> waits: a
  first attempt, then one after each wait, ending at the first success, panic or cancelled wait, the
  last error wrapped with the number of attempts made, \<open>n + 1\<close>.\<close>

theorem retry_is_reference_loop:
  "retryWithBackoff sel \<lparr>MaxRetries = int n, Initial = i, Max = m\<rparr> fn =
   attempts sel fn (Wrapf ''after %d attempts'' [FI (int n + 1)])
     (waits \<lparr>MaxRetries = int n, Initial = i, Max = m\<rparr> n i)"
  by (simp add: retryWithBackoff_attempts)

text \<open>C23: while the cap stays below half the range of a 64-bit duration, the k-th wait is the
  initial one doubled k times and cut at the cap: doubling never wraps round, and no wait is
  negative.\<close>

theorem backoff_waits_closed_form:
  assumes "0 \<le> sint (Initial cfg)" "sint (Initial cfg) \<le> sint (Max cfg)" "sint (Max cfg) < 2 ^ 62"
    and "k < n"
  shows "sint (waits cfg n (Initial cfg) ! k) = min (sint (Initial cfg) * 2 ^ k) (sint (Max cfg))"
  using nth_waits_bound [OF assms(1-3) assms(4) assms(1,2)] .

theorem backoff_waits_closed_form_witness:
  "sint (waits pihole_backoff 5 (Initial pihole_backoff) ! 4) =
     min (sint (Initial pihole_backoff) * 2 ^ 4) (sint (Max pihole_backoff))"
  by (rule backoff_waits_closed_form) (simp_all add: pihole_backoff_def second_def millisecond_def)

text \<open>The shipped configuration makes six attempts, not the four its comment announces, and
  sleeps 0.5, 1, 2, 4 and 5 seconds between them; a call that always fails is made six times and the
  error says so.\<close>

theorem shipped_backoff_makes_six_attempts:
  "map sint (waits pihole_backoff 5 (Initial pihole_backoff)) =
     [500000000, 1000000000, 2000000000, 4000000000, 5000000000] \<and>
   retryWithBackoff (\<lambda>d (n, slept). (None, (n, slept @ [sint d]))) pihole_backoff
     (\<lambda>(n, slept). (Err e, (Suc n, slept))) (0, []) =
     (Err (Wrapf ''after %d attempts'' [FI 6] e),
      (6, [500000000, 1000000000, 2000000000, 4000000000, 5000000000]))"
  unfolding pihole_backoff_attempts
  by (simp add: pihole_backoff_def second_def millisecond_def next_backoff_def eval_nat_numeral Let_def ctxR_def)

text \<open>With a negative number of retries the loop body never runs: the helper reports success
  without a single attempt (the line its comment calls unreachable).\<close>

theorem negative_retries_succeed_without_attempt:
  assumes "MaxRetries cfg < 0"
  shows "retryWithBackoff sel cfg fn s = (Ok (), s)"
  using assms by (simp add: retryWithBackoff_def retry_loop.simps)

theorem negative_retries_succeed_without_attempt_witness:
  "retryWithBackoff (\<lambda>d s. (None, s)) \<lparr>MaxRetries = - 1, Initial = 1, Max = 1\<rparr> (\<lambda>s. (Err (External ''x''), s)) (0 :: nat)
     = (Ok (), 0)"
  by (rule negative_retries_succeed_without_attempt) simp

end
