(* ===== verification/UrlEscape.thy ===== *)
theory UrlEscape
  imports Prelude
begin

text \<open>
  \<open>net/url\<close> as \<open>DeleteAdList\<close> of \<open>internal/pihole_api/api_client.go\<close> uses it: \<open>QueryEscape\<close>
  on bytes, and the two decoders (of a query component, of a path segment) its result can meet.
\<close>

section \<open>Hexadecimal digits\<close>

definition hex_digit :: "nat \<Rightarrow> char" where
  "hex_digit n = char_of (if n < 10 then 48 + n else 55 + n)"

definition hex_val :: "char \<Rightarrow> nat option" where
  "hex_val c = (let n = of_char c :: nat in
     if 48 \<le> n \<and> n \<le> 57 then Some (n - 48)
     else if 65 \<le> n \<and> n \<le> 70 then Some (n - 55)
     else if 97 \<le> n \<and> n \<le> 102 then Some (n - 87)
     else None)"

lemma hex_val_digit [simp]: "n < 16 \<Longrightarrow> hex_val (hex_digit n) = Some n"
  by (simp add: hex_val_def hex_digit_def Let_def)

section \<open>Escaping and the two decoders\<close>

definition unreserved :: "char \<Rightarrow> bool" where
  "unreserved c = (let n = of_char c :: nat in
     (97 \<le> n \<and> n \<le> 122) \<or> (65 \<le> n \<and> n \<le> 90) \<or> (48 \<le> n \<and> n \<le> 57) \<or>
     c = CHR ''-'' \<or> c = CHR ''_'' \<or> c = CHR ''.'' \<or> c = CHR ''~'')"

definition escape_char :: "char \<Rightarrow> string" where
  "escape_char c =
     (if unreserved c then [c]
      else if c = CHR '' '' then ''+''
      else [CHR ''%'', hex_digit (of_char c div 16), hex_digit (of_char c mod 16)])"

definition QueryEscape :: "string \<Rightarrow> string" where
  "QueryEscape s = concat (map escape_char s)"

text \<open>\<open>unescape pl\<close>: \<open>pl\<close> is the meaning of \<open>+\<close> (a space in a query, itself in a path).\<close>

fun unescape :: "char \<Rightarrow> string \<Rightarrow> string option" where
  "unescape pl [] = Some []"
| "unescape pl (c # s) =
     (if c = CHR ''%'' then
        (case s of
            a # b # t \<Rightarrow>
              (case (hex_val a, hex_val b) of
                  (Some x, Some y) \<Rightarrow> map_option ((#) (char_of (16 * x + y))) (unescape pl t)
                | _ \<Rightarrow> None)
          | _ \<Rightarrow> None)
      else map_option ((#) (if c = CHR ''+'' then pl else c)) (unescape pl s))"

definition QueryUnescape :: "string \<Rightarrow> string option" where
  "QueryUnescape s = unescape (CHR '' '') s"

definition PathUnescape :: "string \<Rightarrow> string option" where
  "PathUnescape s = unescape (CHR ''+'') s"

lemma of_char_less [simp]: "(of_char c :: nat) < 256"
  using of_char_mod_256 [of c] by (metis mod_less_divisor zero_less_numeral)

lemma unreserved_plain: "unreserved c \<Longrightarrow> c \<noteq> CHR ''%'' \<and> c \<noteq> CHR ''+'' \<and> c \<noteq> CHR '' ''"
  by (auto simp: unreserved_def Let_def)

lemma unescape_escape_char:
  "unescape pl (escape_char c @ s) =
     map_option ((#) (if c = CHR '' '' then pl else c)) (unescape pl s)"
proof -
  have "16 * (of_char c div 16) + of_char c mod 16 = (of_char c :: nat)"
    by simp
  moreover have "(of_char c :: nat) div 16 < 16"
    using of_char_less [of c] by (simp add: div_less_iff_less_mult)
  ultimately show ?thesis
    using unreserved_plain [of c] by (auto simp: escape_char_def)
qed

lemma unescape_QueryEscape:
  "unescape pl (QueryEscape s) = Some (map (\<lambda>c. if c = CHR '' '' then pl else c) s)"
  by (induction s) (simp_all add: QueryEscape_def unescape_escape_char)

text \<open>An escaped address decodes to itself as a query component; decoded as the path segment
  \<open>DeleteAdList\<close> puts it in, it comes back with every space turned into a plus sign, so it names the
  address asked for exactly when that holds no space.\<close>

theorem query_escape_in_path:
  "QueryUnescape (QueryEscape s) = Some s \<and>
   PathUnescape (QueryEscape s) = Some (map (\<lambda>c. if c = CHR '' '' then CHR ''+'' else c) s) \<and>
   (PathUnescape (QueryEscape s) = Some s \<longleftrightarrow> CHR '' '' \<notin> set s)"
proof -
  have "map (\<lambda>c. if c = CHR '' '' then CHR ''+'' else c) s = s \<longleftrightarrow> CHR '' '' \<notin> set s"
    by (induction s) auto
  moreover have "map (\<lambda>c. if c = CHR '' '' then CHR '' '' else c) s = s"
    by (simp add: map_idI)
  ultimately show ?thesis
    by (simp add: QueryUnescape_def PathUnescape_def unescape_QueryEscape)
qed

lemma hex_digit_unreserved: "n < 16 \<Longrightarrow> unreserved (hex_digit n)"
  by (auto simp: hex_digit_def unreserved_def Let_def)

lemma escape_char_chars: "d \<in> set (escape_char c) \<Longrightarrow> unreserved d \<or> d = CHR ''%'' \<or> d = CHR ''+''"
proof -
  have "(of_char c :: nat) div 16 < 16" "(of_char c :: nat) mod 16 < 16"
    using of_char_less [of c] by (simp_all add: div_less_iff_less_mult)
  then have "unreserved (hex_digit (of_char c div 16))" "unreserved (hex_digit (of_char c mod 16))"
    by (auto intro: hex_digit_unreserved)
  then show "d \<in> set (escape_char c) \<Longrightarrow> ?thesis"
    unfolding escape_char_def by (auto split: if_split_asm)
qed

lemma escape_chars: "d \<in> set (QueryEscape s) \<Longrightarrow> unreserved d \<or> d = CHR ''%'' \<or> d = CHR ''+''"
  unfolding QueryEscape_def using escape_char_chars by auto

text \<open>Escaping is injective, and an escaped address holds none of the characters that would end
  the path segment it is put in (slash, question mark, hash), no space and no ampersand.\<close>

theorem query_escape_is_one_segment:
  "(QueryEscape s = QueryEscape t \<longleftrightarrow> s = t) \<and>
   set (QueryEscape s) \<inter> {CHR ''/'', CHR ''?'', CHR ''#'', CHR '' '', CHR ''&''} = {}"
proof
  have "unescape (CHR '' '') (QueryEscape u) = Some u" for u
    by (simp add: unescape_QueryEscape map_idI)
  then show "QueryEscape s = QueryEscape t \<longleftrightarrow> s = t"
    by (metis option.inject)
  have "\<not> unreserved (CHR ''/'')" "\<not> unreserved (CHR ''?'')" "\<not> unreserved (CHR ''#'')"
    "\<not> unreserved (CHR '' '')" "\<not> unreserved (CHR ''&'')"
    by (simp_all add: unreserved_def)
  then show "set (QueryEscape s) \<inter> {CHR ''/'', CHR ''?'', CHR ''#'', CHR '' '', CHR ''&''} = {}"
    by (auto dest!: escape_chars)
qed

end
