(* ===== verification/ApiClient.thy ===== *)
theory ApiClient
  imports Retry UrlEscape
begin

text \<open>
  \<open>internal/pihole_api/api_client.go\<close>: the HTTP client of one Pi-hole pod. A client is the record
  \<open>APIClient\<close>; an operation is a program on the pair of the client and the world. The Pi-hole server,
  the clock and the JSON decoder are the fields of the record \<open>net\<close>, a parameter of every operation;
  nothing is assumed of them here. Log lines and the closing of response bodies are left out: they
  have no influence on results or state.
\<close>

section \<open>Requests, responses and the parameters\<close>

datatype ctx = Background | Ctx nat | WithTimeout ctx duration

datatype json = JStr string | JInt int | JBool bool | JArr "json list" | JObj "(string \<times> json) list"

text \<open>A body: none, a marshalled value, or a multipart form with one file (boundary, field, name, data).\<close>

datatype body = NoBody | JsonBody json | FormFile string string string string

record http_req =
  rqMethod :: string
  rqURL :: string
  rqHeader :: "(string \<times> string) list"
  rqBody :: body
  rqCtx :: ctx

text \<open>A response: the bytes of the body that can be read, and the error that ends the reading, if any.\<close>

record http_resp =
  rspStatus :: int
  rspBody :: string
  rspReadErr :: "gerror option"

record authResponse =
  auValid :: bool
  auSID :: string
  auValidity :: int

record AdList =
  adAddress :: string
  adID :: int
  adComment :: "string option"

text \<open>
  The parameters. \<open>http_do timeout skipTLS req\<close> is \<open>http.Client.Do\<close> against the server;
  \<open>url_err\<close> the error \<open>url.Parse\<close> has for a URL; \<open>dec_auth\<close> is \<open>json.Unmarshal\<close> into an
  \<open>authResponse\<close> and \<open>dec_lists\<close> a JSON decoder reading a \<open>listsResponse\<close> from a body that may
  end in a read error; \<open>time_now\<close> the clock in nanoseconds; \<open>wait\<close> the \<open>select\<close> of a timer and a
  context; \<open>boundary\<close> the random boundary of a multipart writer.
\<close>

record 'w net =
  http_do :: "duration \<Rightarrow> bool \<Rightarrow> http_req \<Rightarrow> 'w \<Rightarrow> (gerror + http_resp) \<times> 'w"
  url_err :: "string \<Rightarrow> gerror option"
  dec_auth :: "string \<Rightarrow> gerror + authResponse"
  dec_lists :: "string \<Rightarrow> gerror option \<Rightarrow> gerror + AdList list"
  time_now :: "'w \<Rightarrow> int \<times> 'w"
  wait :: "ctx \<Rightarrow> duration \<Rightarrow> 'w \<Rightarrow> gerror option \<times> 'w"
  boundary :: "'w \<Rightarrow> string \<times> 'w"

section \<open>The client\<close>

record APIClient =
  BaseURL :: string
  cltTimeout :: duration
  cltSkipTLS :: bool
  password :: string
  sessionID :: string
  validity :: int
  mu :: bool

type_synonym 'w cst = "APIClient \<times> 'w"

definition MaxResponseSize :: nat where
  "MaxResponseSize = 25 * 1024 * 1024"

definition NewAPIClient :: "string \<Rightarrow> string \<Rightarrow> duration \<Rightarrow> bool \<Rightarrow> APIClient" where
  "NewAPIClient baseURL pw timeout skipTLS =
     \<lparr>BaseURL = baseURL, cltTimeout = timeout, cltSkipTLS = skipTLS, password = pw,
      sessionID = [], validity = 0, mu = False\<rparr>"

section \<open>Library calls\<close>

definition newRequest :: "'w net \<Rightarrow> ctx \<Rightarrow> string \<Rightarrow> string \<Rightarrow> body \<Rightarrow> ('w cst, http_req) prog" where
  "newRequest N ctx meth url b = (case url_err N url of
      Some e \<Rightarrow> fail e
    | None \<Rightarrow> ret \<lparr>rqMethod = meth, rqURL = url, rqHeader = [], rqBody = b, rqCtx = ctx\<rparr>)"

definition setHeader :: "string \<Rightarrow> string \<Rightarrow> http_req \<Rightarrow> http_req" where
  "setHeader k v r = r\<lparr>rqHeader := mput k v (rqHeader r)\<rparr>"

definition Do :: "'w net \<Rightarrow> http_req \<Rightarrow> ('w cst, http_resp) prog" where
  "Do N req = callR (\<lambda>(c, w). case http_do N (cltTimeout c) (cltSkipTLS c) req w of (x, w') \<Rightarrow> (x, (c, w')))"

definition now :: "'w net \<Rightarrow> ('w cst, int) prog" where
  "now N = askR (\<lambda>(c, w). case time_now N w of (t, w') \<Rightarrow> (t, (c, w')))"

definition client :: "('w cst, APIClient) prog" where
  "client = askR (\<lambda>(c, w). (c, (c, w)))"

definition modC :: "(APIClient \<Rightarrow> APIClient) \<Rightarrow> ('w cst, unit) prog" where
  "modC f = modS (\<lambda>(c, w). (f c, w))"

definition pureR :: "gerror + 'a \<Rightarrow> ('s, 'a) prog" where
  "pureR x = (case x of Inl e \<Rightarrow> fail e | Inr y \<Rightarrow> ret y)"

text \<open>\<open>io.ReadAll\<close>, and \<open>io.ReadAll(io.LimitReader(body, n))\<close>, which never sees an error beyond \<open>n\<close>.\<close>

definition ReadAll :: "http_resp \<Rightarrow> gerror + string" where
  "ReadAll r = (case rspReadErr r of Some e \<Rightarrow> Inl e | None \<Rightarrow> Inr (rspBody r))"

definition ReadAllLimit :: "nat \<Rightarrow> http_resp \<Rightarrow> gerror + string" where
  "ReadAllLimit n r = (if length (rspBody r) < n then ReadAll r else Inr (take n (rspBody r)))"

text \<open>The \<open>select\<close> of the retry helper: \<open>context.Background()\<close> is never done.\<close>

definition sel :: "'w net \<Rightarrow> ctx \<Rightarrow> 'w cst select" where
  "sel N ctx d = (\<lambda>(c, w). case wait N ctx d w of
     (r, w') \<Rightarrow> (if ctx = Background then None else r, (c, w')))"

text \<open>\<open>mu.Lock()\<close> on a held mutex never returns; \<open>defer mu.Unlock()\<close> runs on every way out.\<close>

definition Lock :: "('w cst, unit) prog" where
  "Lock = (\<lambda>(c, w). if mu c then (Blocked, (c, w)) else (Ok (), (c\<lparr>mu := True\<rparr>, w)))"

definition Unlock :: "('w cst, unit) prog" where
  "Unlock = modC (\<lambda>c. c\<lparr>mu := False\<rparr>)"

definition locked :: "('w cst, 'a) prog \<Rightarrow> ('w cst, 'a) prog" where
  "locked m = bindR Lock (\<lambda>_ s. case m s of
      (Blocked, s') \<Rightarrow> (Blocked, s')
    | (r, (c, w)) \<Rightarrow> (r, (c\<lparr>mu := False\<rparr>, w)))"

section \<open>Authentication\<close>

text \<open>\<open>time.Duration(validity) * time.Second\<close>, on 64-bit integers.\<close>

definition seconds :: "int \<Rightarrow> int" where
  "seconds n = sint (word_of_int n * second)"

definition doAuth :: "'w net \<Rightarrow> ('w cst, unit) prog" where
  "doAuth N =
     bindR client (\<lambda>c.
     let address = BaseURL c @ ''/api/auth'';
         payload = JObj [(''password'', JStr (password c))]
     in
     bindR (wrap ''authentication request failed''
        (bindR (newRequest N Background ''POST'' address (JsonBody payload)) (\<lambda>req.
         Do N (setHeader ''Content-Type'' ''application/json'' req)))) (\<lambda>resp.
     if rspStatus resp \<noteq> 200 then fail (Errorf ''authentication failed, status code'' [FI (rspStatus resp)])
     else
     bindR (wrap ''failed to read authentication response'' (pureR (ReadAllLimit MaxResponseSize resp))) (\<lambda>b.
     bindR (wrap ''failed to parse authentication response'' (pureR (dec_auth N b))) (\<lambda>a.
     if \<not> auValid a then fail (Errorf ''authentication unsuccessful'' [])
     else
     bindR (modC (\<lambda>c. c\<lparr>sessionID := auSID a\<rparr>)) (\<lambda>_.
     bindR (now N) (\<lambda>t.
     modC (\<lambda>c. c\<lparr>validity := t + seconds (auValidity a)\<rparr>)))))))"

definition Authenticate :: "'w net \<Rightarrow> ('w cst, unit) prog" where
  "Authenticate N = locked (retryWithBackoff (sel N Background) pihole_backoff (doAuth N))"

definition ensureAuth :: "'w net \<Rightarrow> ('w cst, unit) prog" where
  "ensureAuth N =
     bindR Lock (\<lambda>_.
     bindR client (\<lambda>c.
     bindR (now N) (\<lambda>t.
     let needsAuth = (validity c < t) in
     bindR Unlock (\<lambda>_.
     if needsAuth then Authenticate N else ret ()))))"

section \<open>The operations\<close>

definition DownloadTeleporter :: "'w net \<Rightarrow> ctx \<Rightarrow> ('w cst, string) prog" where
  "DownloadTeleporter N ctx =
     bindR (wrap ''auth'' (ensureAuth N)) (\<lambda>_.
     bindR client (\<lambda>c.
     let address = BaseURL c @ ''/api/teleporter'' in
     bindR (wrap ''new request'' (newRequest N ctx ''GET'' address NoBody)) (\<lambda>req.
     bindR (wrap ''GET teleporter'' (Do N (setHeader ''X-FTL-SID'' (sessionID c) req))) (\<lambda>resp.
     if rspStatus resp \<noteq> 200 then fail (Errorf ''GET teleporter status'' [FI (rspStatus resp)])
     else wrap ''read teleporter body'' (pureR (ReadAll resp))))))"

definition doUpload :: "'w net \<Rightarrow> ctx \<Rightarrow> string \<Rightarrow> string \<Rightarrow> body \<Rightarrow> ('w cst, unit) prog" where
  "doUpload N ctx address contentType payload =
     bindR client (\<lambda>c.
     bindR (wrap ''new request'' (newRequest N ctx ''POST'' address payload)) (\<lambda>req.
     bindR (wrap ''POST teleporter''
        (Do N (setHeader ''Content-Type'' contentType (setHeader ''X-FTL-SID'' (sessionID c) req)))) (\<lambda>resp.
     if rspStatus resp \<noteq> 200 \<and> rspStatus resp \<noteq> 201
     then fail (Errorf ''POST teleporter status'' [FI (rspStatus resp)])
     else ret ())))"

text \<open>The multipart writer works on a memory buffer, so building the form cannot fail.\<close>

definition UploadTeleporter :: "'w net \<Rightarrow> ctx \<Rightarrow> string \<Rightarrow> ('w cst, unit) prog" where
  "UploadTeleporter N ctx data =
     bindR (wrap ''auth'' (ensureAuth N)) (\<lambda>_.
     bindR client (\<lambda>c.
     let address = BaseURL c @ ''/api/teleporter'' in
     bindR (askR (\<lambda>(c, w). case boundary N w of (b, w') \<Rightarrow> (b, (c, w')))) (\<lambda>b.
     let payload = FormFile b ''file'' ''teleporter.zip'' data;
         contentType = ''multipart/form-data; boundary='' @ b
     in retryWithBackoff (sel N ctx) pihole_backoff (doUpload N ctx address contentType payload))))"

definition GetAdLists :: "'w net \<Rightarrow> ctx \<Rightarrow> ('w cst, AdList list) prog" where
  "GetAdLists N ctx =
     bindR client (\<lambda>c0.
     let address = BaseURL c0 @ ''/api/lists'' in
     bindR (wrap ''auth'' (ensureAuth N)) (\<lambda>_.
     bindR client (\<lambda>c.
     bindR (wrap ''new request'' (newRequest N ctx ''GET'' address NoBody)) (\<lambda>req.
     bindR (wrap ''GET ad-lists'' (Do N (setHeader ''X-FTL-SID'' (sessionID c) req))) (\<lambda>resp.
     if rspStatus resp \<noteq> 200
     then fail (Errorf ''GET %s returned status %d'' [FS address, FI (rspStatus resp)])
     else ctxR (Wrapf ''decode %s'' [FS address]) (pureR (dec_lists N (rspBody resp) (rspReadErr resp))))))))"

text \<open>\<open>json.Marshal\<close> writes the keys of a map in order.\<close>

definition adlist_payload :: "string \<Rightarrow> json" where
  "adlist_payload addr = JObj
     [(''address'', JStr addr), (''comment'', JStr ''Created by PiHole operator''),
      (''enabled'', JBool True), (''groups'', JArr [JInt 0]), (''type'', JStr ''block'')]"

definition PostAdList :: "'w net \<Rightarrow> ctx \<Rightarrow> string \<Rightarrow> ('w cst, unit) prog" where
  "PostAdList N ctx addr =
     bindR client (\<lambda>c0.
     let address = BaseURL c0 @ ''/api/lists'' in
     bindR (wrap ''auth'' (ensureAuth N)) (\<lambda>_.
     bindR client (\<lambda>c.
     bindR (wrap ''create POST request'' (newRequest N ctx ''POST'' address (JsonBody (adlist_payload addr)))) (\<lambda>req.
     bindR (ctxR (Wrapf ''POST %s'' [FS address])
        (Do N (setHeader ''Content-Type'' ''application/json'' (setHeader ''X-FTL-SID'' (sessionID c) req)))) (\<lambda>resp.
     if rspStatus resp \<noteq> 200 \<and> rspStatus resp \<noteq> 201
     then fail (Errorf ''POST %s returned status %d'' [FS address, FI (rspStatus resp)])
     else ret ())))))"

definition delete_url :: "string \<Rightarrow> string \<Rightarrow> string" where
  "delete_url base addr = base @ ''/api/lists/'' @ QueryEscape addr @ ''?type=block''"

text \<open>Unlike every other operation, this one sets no header on its request.\<close>

definition DeleteAdList :: "'w net \<Rightarrow> ctx \<Rightarrow> string \<Rightarrow> ('w cst, unit) prog" where
  "DeleteAdList N ctx addr =
     bindR client (\<lambda>c0.
     let address = delete_url (BaseURL c0) addr in
     bindR (wrap ''auth'' (ensureAuth N)) (\<lambda>_.
     bindR (wrap ''create DELETE request'' (newRequest N ctx ''DELETE'' address NoBody)) (\<lambda>req.
     bindR (ctxR (Wrapf ''DELETE %s'' [FS address]) (Do N req)) (\<lambda>resp.
     if rspStatus resp \<noteq> 200 \<and> rspStatus resp \<noteq> 204
     then fail (Errorf ''DELETE %s returned status %d'' [FS address, FI (rspStatus resp)])
     else ret ()))))"

definition RunGravity :: "'w net \<Rightarrow> ctx \<Rightarrow> ('w cst, unit) prog" where
  "RunGravity N ctx =
     bindR client (\<lambda>c0.
     let address = BaseURL c0 @ ''/api/action/gravity'' in
     bindR (wrap ''auth'' (ensureAuth N)) (\<lambda>_.
     bindR client (\<lambda>c.
     bindR (wrap ''create POST request'' (newRequest N ctx ''POST'' address NoBody)) (\<lambda>req.
     bindR (ctxR (Wrapf ''POST %s'' [FS address]) (Do N (setHeader ''X-FTL-SID'' (sessionID c) req))) (\<lambda>resp.
     if rspStatus resp \<noteq> 200 \<and> rspStatus resp \<noteq> 201
     then fail (Errorf ''POST %s returned status %d'' [FS address, FI (rspStatus resp)])
     else ret ())))))"

end
