(* ===== verification/Kube.thy ===== *)
theory Kube
  imports ApiTypes ApiClient "HOL-Library.Multiset"
begin

text \<open>
  The Kubernetes side: the objects the operator builds and reads (the fields it writes or looks at,
  the rest of an object being opaque), the API server and the library functions the operator calls as
  the fields of the parameter \<open>kube\<close>, and the state of the reconciler
  (\<open>internal/controller/piholecluster/piholecluster_controller.go\<close>, lines 37 to 50).
  Nothing is assumed of the parameters here.
\<close>

section \<open>Objects\<close>

text \<open>\<open>omRest\<close>: what the server adds (UID, timestamps).\<close>

record ObjMeta =
  omName :: string
  omNamespace :: string
  omLabels :: smap
  omAnnotations :: smap
  omOwners :: "string list"
  omVersion :: string
  omRest :: opaque

record EnvVar =
  evName :: string
  evValue :: string
  evFrom :: "SecretKeySelector option"

record ContainerPort =
  cpPort :: int32
  cpProtocol :: string
  cpName :: string

record VolumeMount =
  vmName :: string
  vmMountPath :: string
  vmSubPath :: string

text \<open>A volume: a claim by name, an empty directory, or an ephemeral claim template (name, access
  modes, storage class, requested size).\<close>

datatype VolumeSource =
    VolPVC string
  | VolEmptyDir
  | VolEphemeral string "string list" "string option" string

record Volume =
  volName :: string
  volSource :: VolumeSource

record Container =
  ctName :: string
  ctImage :: string
  ctPorts :: "ContainerPort list"
  ctEnv :: "EnvVar list"
  ctEnvFrom :: "string list"
  ctVolumeMounts :: "VolumeMount list"
  ctResources :: opaque
  ctSecurityContext :: "opaque option"
  ctLivenessProbe :: "Probe option"
  ctReadinessProbe :: "Probe option"

record PodSpec =
  psContainers :: "Container list"
  psVolumes :: "Volume list"
  psSecurityContext :: "opaque option"

record StatefulSet =
  stsMeta :: ObjMeta
  stsReplicas :: "int32 option"
  stsSelector :: smap
  stsServiceName :: string
  stsTemplateLabels :: smap
  stsPodSpec :: PodSpec
  stsReadyReplicas :: int32

record Secret =
  scMeta :: ObjMeta
  scData :: smap

record ConfigMap =
  cmMeta :: ObjMeta
  cmData :: smap

record PVC =
  pvcMeta :: ObjMeta
  pvcAccessModes :: "string list"
  pvcRequests :: smap
  pvcStorageClassName :: "string option"
  pvcPhase :: string

record ServicePort =
  spPortName :: string
  spProtocol :: string
  spPort :: int32
  spTargetPort :: int32

record KService =
  ksMeta :: ObjMeta
  ksType :: string
  ksExternalTrafficPolicy :: string
  ksClusterIP :: string
  ksPorts :: "ServicePort list"
  ksSelector :: smap

record KIngress =
  kiMeta :: ObjMeta
  kiHost :: string
  kiPath :: string
  kiPathType :: "string option"
  kiBackend :: string
  kiPort :: int32

record KPodMonitor =
  kpMeta :: ObjMeta
  kpSelector :: smap
  kpPort :: "string option"
  kpPath :: string
  kpInterval :: string

datatype kobj =
    OSecret Secret
  | OConfigMap ConfigMap
  | OPVC PVC
  | OStatefulSet StatefulSet
  | OService KService
  | OIngress KIngress
  | OPodMonitor KPodMonitor

datatype kind =
  SecretKind | ConfigMapKind | PVCKind | StatefulSetKind | ServiceKind | IngressKind | PodMonitorKind

fun kind_of :: "kobj \<Rightarrow> kind" where
  "kind_of (OSecret x) = SecretKind"
| "kind_of (OConfigMap x) = ConfigMapKind"
| "kind_of (OPVC x) = PVCKind"
| "kind_of (OStatefulSet x) = StatefulSetKind"
| "kind_of (OService x) = ServiceKind"
| "kind_of (OIngress x) = IngressKind"
| "kind_of (OPodMonitor x) = PodMonitorKind"

fun meta_of :: "kobj \<Rightarrow> ObjMeta" where
  "meta_of (OSecret x) = scMeta x"
| "meta_of (OConfigMap x) = cmMeta x"
| "meta_of (OPVC x) = pvcMeta x"
| "meta_of (OStatefulSet x) = stsMeta x"
| "meta_of (OService x) = ksMeta x"
| "meta_of (OIngress x) = kiMeta x"
| "meta_of (OPodMonitor x) = kpMeta x"

definition mk_meta :: "string \<Rightarrow> string \<Rightarrow> smap \<Rightarrow> ObjMeta" where
  "mk_meta n ns ls = \<lparr>omName = n, omNamespace = ns, omLabels = ls, omAnnotations = [], omOwners = [],
     omVersion = [], omRest = []\<rparr>"

section \<open>The reconciler\<close>

text \<open>
  \<open>ApiClientEntry\<close>: a pointer to a client (\<open>None\<close> is nil) and the address it was made for. The
  clients live in a store; \<open>nextAddr\<close> is the next free address. \<open>idleClosed\<close> lists the clients whose
  \<open>Close\<close> was called, in order; \<open>upVars\<close> holds the two variables \<open>existing\<close> and \<open>desired\<close> of
  \<open>UpsertResource\<close> that its retried closure assigns. \<open>cluster\<close> is the object the handlers share through the pointer
  \<open>cluster\<close>, and \<open>world\<close> everything outside the process.
\<close>

record ApiClientEntry =
  enClient :: "nat option"
  enIP :: string

record 'w rs =
  ApiClients :: "(string \<times> ApiClientEntry) list"
  currentClusterName :: string
  heap :: "nat \<Rightarrow> APIClient"
  nextAddr :: nat
  idleClosed :: "nat list"
  upVars :: "kobj \<times> kobj"
  cluster :: PiHoleCluster
  world :: 'w

definition no_obj :: kobj where
  "no_obj = OSecret \<lparr>scMeta = mk_meta [] [] [], scData = []\<rparr>"

text \<open>The reconciler as \<open>main\<close> makes it, with the cluster object it is about to handle.\<close>

definition new_rs :: "PiHoleCluster \<Rightarrow> 'w \<Rightarrow> 'w rs" where
  "new_rs cl w = \<lparr>ApiClients = [], currentClusterName = clName cl,
     heap = (\<lambda>_. NewAPIClient [] [] 0 False), nextAddr = 0, idleClosed = [],
     upVars = (no_obj, no_obj), cluster = cl, world = w\<rparr>"

section \<open>The API server and the libraries\<close>

text \<open>
  \<open>k_get\<close>, \<open>k_list_pods\<close>, \<open>k_create\<close>, \<open>k_update\<close>: the controller-runtime client, with the object
  the server sends back; \<open>k_get_cluster\<close>, \<open>k_update_cluster\<close>, \<open>k_status_update\<close> the same for the
  custom resource; \<open>set_controller_ref\<close> is \<open>ctrl.SetControllerReference\<close>, \<open>retry_on_conflict\<close>
  \<open>retry.RetryOnConflict\<close> with its default back-off, \<open>set_status_condition\<close>
  \<open>meta.SetStatusCondition\<close>, \<open>parse_quantity\<close> the parser behind \<open>resource.MustParse\<close>;
  \<open>map_order\<close> is the order in which Go ranges over a map with the given keys.
\<close>

record 'w kube =
  k_get :: "kind \<Rightarrow> string \<Rightarrow> string \<Rightarrow> 'w \<Rightarrow> (gerror + kobj) \<times> 'w"
  k_list_pods :: "string \<Rightarrow> smap \<Rightarrow> 'w \<Rightarrow> (gerror + Pod list) \<times> 'w"
  k_create :: "kobj \<Rightarrow> 'w \<Rightarrow> (gerror + kobj) \<times> 'w"
  k_update :: "kobj \<Rightarrow> 'w \<Rightarrow> (gerror + kobj) \<times> 'w"
  k_get_cluster :: "string \<Rightarrow> string \<Rightarrow> 'w \<Rightarrow> (gerror + PiHoleCluster) \<times> 'w"
  k_update_cluster :: "PiHoleCluster \<Rightarrow> 'w \<Rightarrow> (gerror + PiHoleCluster) \<times> 'w"
  k_status_update :: "PiHoleCluster \<Rightarrow> 'w \<Rightarrow> (gerror + PiHoleCluster) \<times> 'w"
  set_controller_ref :: "PiHoleCluster \<Rightarrow> kobj \<Rightarrow> gerror + kobj"
  retry_on_conflict :: "('w rs, unit) prog \<Rightarrow> ('w rs, unit) prog"
  set_status_condition :: "Condition \<Rightarrow> Condition list \<Rightarrow> 'w \<Rightarrow> Condition list \<times> 'w"
  parse_quantity :: "string \<Rightarrow> string option"
  map_order :: "string list \<Rightarrow> 'w \<Rightarrow> string list \<times> 'w"

text \<open>
  What the code relies on: the API server answers \<open>Get\<close> with an object of the kind asked for, and
  ranging over a map visits every key once.
\<close>

definition typed_get :: "'w kube \<Rightarrow> bool" where
  "typed_get K \<longleftrightarrow> (\<forall>kd ns n w x. fst (k_get K kd ns n w) = Inr x \<longrightarrow> kind_of x = kd)"

definition ranges_all :: "'w kube \<Rightarrow> bool" where
  "ranges_all K \<longleftrightarrow> (\<forall>ks w. mset (fst (map_order K ks w)) = mset ks)"

text \<open>\<open>retry.RetryOnConflict\<close> as client-go writes it, with \<open>n\<close> steps and without the clock: the function
  is called again after a conflict, and any other outcome, or the last one, is returned.\<close>

fun conflict_retry :: "nat \<Rightarrow> ('s, unit) prog \<Rightarrow> ('s, unit) prog" where
  "conflict_retry 0 f = f"
| "conflict_retry (Suc n) f = (\<lambda>s. case f s of
     (Err e, s1) \<Rightarrow> if IsConflict e \<and> n > 0 then conflict_retry n f s1 else (Err e, s1)
   | out \<Rightarrow> out)"

interpretation conflict: retrier "conflict_retry n" p for n p
proof
  have run: "kept_by I (failing f) \<Longrightarrow> I s \<Longrightarrow> conflict_retry n f s = (r, s') \<Longrightarrow>
      ((\<exists>e. r = Err e) \<longrightarrow> I s') \<and> ((\<nexists>e. r = Err e) \<longrightarrow> (\<exists>t. I t \<and> f t = (r, s')))" for I f s r s'
  proof (induction n arbitrary: s)
    case 0
    then show ?case by (auto simp: kept_by_def failing_def)
  next
    case (Suc n)
    obtain q s1 where q: "f s = (q, s1)" by (cases "f s")
    show ?case
    proof (cases q)
      case (Err e)
      with q Suc.prems(1,2) have "I s1" unfolding kept_by_def failing_def by blast
      with Suc.IH [of s1] Suc.prems q Err show ?thesis by (auto split: if_splits)
    qed (use Suc.prems q in auto)
  qed
  show "I s'" if "kept_by I (failing f)" "kept_by I p" "I s" "conflict_retry n f s = (Err e, s')" for I f s e s'
    using run [OF that(1,3,4)] by blast
  show "\<exists>t. I t \<and> f t = (r, s')"
    if "kept_by I (failing f)" "kept_by I p" "I s" "conflict_retry n f s = (r, s')" "\<nexists>e. r = Err e" for I f s r s'
    using run [OF that(1,3,4)] that(5) by blast
qed

text \<open>A server whose objects and pods never change, for concrete runs.\<close>

definition static_kube :: "Pod list \<Rightarrow> kobj list \<Rightarrow> PiHoleCluster \<Rightarrow> 'w kube" where
  "static_kube pods objs cl = \<lparr>
     k_get = (\<lambda>kd ns n w. (case filter (\<lambda>x. kind_of x = kd \<and> omNamespace (meta_of x) = ns
        \<and> omName (meta_of x) = n) objs of
          [] \<Rightarrow> Inl (ApiStatus NotFound n) | x # _ \<Rightarrow> Inr x, w)),
     k_list_pods = (\<lambda>ns ls w. (Inr pods, w)),
     k_create = (\<lambda>x w. (Inr x, w)),
     k_update = (\<lambda>x w. (Inr x, w)),
     k_get_cluster = (\<lambda>ns n w. (Inr cl, w)),
     k_update_cluster = (\<lambda>c w. (Inr c, w)),
     k_status_update = (\<lambda>c w. (Inr c, w)),
     set_controller_ref = (\<lambda>c x. Inr x),
     retry_on_conflict = conflict_retry 4,
     set_status_condition = (\<lambda>c cs w. (filter (\<lambda>d. cndType d \<noteq> cndType c) cs @ [c], w)),
     parse_quantity = (\<lambda>q. Some q),
     map_order = (\<lambda>ks w. (ks, w))\<rparr>"

lemma static_kube_laws: "typed_get (static_kube pods objs cl)" "ranges_all (static_kube pods objs cl)"
proof -
  show "typed_get (static_kube pods objs cl)"
    by (auto simp: typed_get_def static_kube_def filter_eq_Cons_iff split: list.splits)
  show "ranges_all (static_kube pods objs cl)" by (simp add: ranges_all_def static_kube_def)
qed

section \<open>Programs on the reconciler\<close>

definition callW :: "('w \<Rightarrow> (gerror + 'a) \<times> 'w) \<Rightarrow> ('w rs, 'a) prog" where
  "callW f = callR (\<lambda>s. case f (world s) of (x, w) \<Rightarrow> (x, s\<lparr>world := w\<rparr>))"

definition askW :: "('w \<Rightarrow> 'a \<times> 'w) \<Rightarrow> ('w rs, 'a) prog" where
  "askW f = askR (\<lambda>s. case f (world s) of (x, w) \<Rightarrow> (x, s\<lparr>world := w\<rparr>))"

definition getCluster :: "('w rs, PiHoleCluster) prog" where
  "getCluster = askR (\<lambda>s. (cluster s, s))"

definition modCluster :: "(PiHoleCluster \<Rightarrow> PiHoleCluster) \<Rightarrow> ('w rs, unit) prog" where
  "modCluster f = modS (\<lambda>s. s\<lparr>cluster := f (cluster s)\<rparr>)"

definition modStatus :: "(PiHoleClusterStatus \<Rightarrow> PiHoleClusterStatus) \<Rightarrow> ('w rs, unit) prog" where
  "modStatus f = modCluster (\<lambda>c. c\<lparr>clStatus := f (clStatus c)\<rparr>)"

text \<open>A method call on a client pointer; on nil it dereferences nil.\<close>

definition on_client :: "nat option \<Rightarrow> ('w cst, 'a) prog \<Rightarrow> ('w rs, 'a) prog" where
  "on_client p m = (case p of
      None \<Rightarrow> panic ''nil pointer dereference''
    | Some a \<Rightarrow> (\<lambda>s. case m (heap s a, world s) of
        (r, (c, w)) \<Rightarrow> (r, s\<lparr>heap := (heap s)(a := c), world := w\<rparr>)))"

text \<open>The secrets: \<open>r.Get\<close> into a \<open>corev1.Secret\<close>.\<close>

definition asSecret :: "kobj \<Rightarrow> ('s, Secret) prog" where
  "asSecret x = (case x of OSecret sec \<Rightarrow> ret sec | _ \<Rightarrow> panic ''interface conversion'')"

definition getAPISecret :: "'w kube \<Rightarrow> ('w rs, Secret) prog" where
  "getAPISecret K =
     bindR getCluster (\<lambda>cl.
     case Config (clSpec cl) of
       Some cfg \<Rightarrow>
         (case apSecretRef (cfgAPIPassword cfg) of
            Some ref \<Rightarrow>
              bindR (wrap ''failed to read referenced secret''
                 (callW (k_get K SecretKind (clNamespace cl) (sksName ref)))) (\<lambda>x.
              bindR (asSecret x) (\<lambda>sec.
              if map_of (scData sec) (sksKey ref) = None
              then fail (Errorf ''key %q not found in secret %s/%s''
                     [FS (sksKey ref), FS (omNamespace (scMeta sec)), FS (omName (scMeta sec))])
              else ret sec))
          | None \<Rightarrow>
              bindR (ctxR (Wrapf ''reading API secret %s/%s'' [FS (clNamespace cl), FS (clName cl @ ''-api-password'')])
                 (callW (k_get K SecretKind (clNamespace cl) (clName cl @ ''-api-password'')))) asSecret)
     | None \<Rightarrow>
         bindR (ctxR (Wrapf ''reading API secret %s/%s'' [FS (clNamespace cl), FS (clName cl @ ''-api-password'')])
            (callW (k_get K SecretKind (clNamespace cl) (clName cl @ ''-api-password'')))) asSecret)"

section \<open>Invariants of the calls\<close>

text \<open>An invariant that does not look at the world is kept by every call of the outside.\<close>

definition worldless :: "('w rs \<Rightarrow> bool) \<Rightarrow> bool" where
  "worldless I \<longleftrightarrow> (\<forall>s w. I s \<longrightarrow> I (s\<lparr>world := w\<rparr>))"

lemma worldless_calls [returns_intros]:
  "worldless I \<Longrightarrow> returns I (callW f)" "worldless I \<Longrightarrow> returns I (askW g)"
  unfolding callW_def askW_def worldless_def
  by (auto intro!: returns_intros split: prod.splits)

lemma getCluster_returns [returns_intros]: "returns I getCluster"
  unfolding getCluster_def by (auto intro!: returns_intros)

lemma getAPISecret_keeps [keeps_intros]:
  assumes "worldless I"
  shows "keeps I (getAPISecret K)"
proof -
  have "keeps I (asSecret x)" for x
    unfolding asSecret_def by (cases x) (auto intro: keeps_intros)
  with assms show ?thesis
    unfolding getAPISecret_def
    by (intro keeps_bindR keeps_option keeps_ctxR keeps_if keeps_basic
        returns_keeps [OF getCluster_returns] returns_keeps [OF worldless_calls(1)])
qed

text \<open>With a typed server, what follows a \<open>Get\<close> only has to deal with objects of the kind asked for.\<close>

lemma typed_get_returns:
  assumes "typed_get K" "worldless I" and k: "\<And>x. kind_of x = kd \<Longrightarrow> returns I (k x)"
  shows "returns I (bindR (ctxR f (callW (k_get K kd ns n))) k)"
proof -
  have "returns I (ctxR f (callW (k_get K kd ns n)))"
    using assms(2) by (intro returns_intros)
  moreover have "kind_of x = kd" if "ctxR f (callW (k_get K kd ns n)) s = (Ok x, s')" for x s s'
  proof -
    from that obtain w where "k_get K kd ns n (world s) = (Inr x, w)"
      by (auto simp: ctxR_def callW_def callR_def split: prod.splits sum.splits res.splits)
    with assms(1) show ?thesis unfolding typed_get_def by (metis fst_conv)
  qed
  ultimately show ?thesis using k by (rule returns_bindR_post)
qed

lemma asSecret_returns: "kind_of x = SecretKind \<Longrightarrow> returns I (asSecret x)"
  by (cases x) (auto simp: asSecret_def intro: returns_intros)

lemma getAPISecret_returns:
  assumes "typed_get K" "worldless I"
  shows "returns I (getAPISecret K)"
  unfolding getAPISecret_def
  by (rule returns_bindR [OF getCluster_returns]) (auto intro!: typed_get_returns [OF assms] asSecret_returns
      returns_bindR returns_if returns_basic split: option.splits)

end
