(* ===== verification/Upsert.thy ===== *)
theory Upsert
  imports Kube
begin

text \<open>
  \<open>internal/utils/generic_reconciler.go\<close>: \<open>UpsertResource\<close>, which brings one object of the API server
  to a desired state, and \<open>UpdateClusterStatusWithRetry\<close>; with the interface \<open>api_server\<close> of a server
  that stores what it is sent, and what an upsert makes of the store.
\<close>

section \<open>The code\<close>

type_synonym 'w customizer = "kobj \<Rightarrow> kobj \<Rightarrow> ('w rs, kobj) prog"

definition controllerRef :: "'w kube \<Rightarrow> kobj \<Rightarrow> ('w rs, kobj) prog" where
  "controllerRef K desired = bindR getCluster (\<lambda>owner. pureR (set_controller_ref K owner desired))"

definition getVars :: "('w rs, kobj \<times> kobj) prog" where
  "getVars = askR (\<lambda>s. (upVars s, s))"

definition setVars :: "kobj \<Rightarrow> kobj \<Rightarrow> ('w rs, unit) prog" where
  "setVars existing desired = modS (\<lambda>s. s\<lparr>upVars := (existing, desired)\<rparr>)"

definition getObject :: "'w kube \<Rightarrow> kind \<Rightarrow> string \<Rightarrow> ('w rs, kobj) prog" where
  "getObject K kd name = bindR getCluster (\<lambda>owner. callW (k_get K kd (clNamespace owner) name))"

text \<open>The retried closure: it assigns \<open>existing\<close> and \<open>desired\<close>.\<close>

definition refreshAndUpdate :: "'w kube \<Rightarrow> string \<Rightarrow> ('w rs, unit) prog" where
  "refreshAndUpdate K name =
     bindR getVars (\<lambda>(_, desired).
     bindR (wrap ''refresh before update'' (getObject K (kind_of desired) name)) (\<lambda>existing.
     bindR (setVars existing desired) (\<lambda>_.
     bindR (wrap ''set owner'' (controllerRef K desired)) (\<lambda>desired.
     bindR (setVars existing desired) (\<lambda>_.
     bindR (callW (k_update K desired)) (\<lambda>desired.
     setVars existing desired))))))"

definition UpsertResource :: "'w kube \<Rightarrow> kobj \<Rightarrow> string \<Rightarrow> 'w customizer option \<Rightarrow> ('w rs, kobj) prog" where
  "UpsertResource K desired0 name customizer =
     bindR (wrap ''set owner reference'' (controllerRef K desired0)) (\<lambda>desired.
     bindR (tryR (getObject K (kind_of desired) name)) (\<lambda>got.
     case got of
       Inl err \<Rightarrow>
         if IsNotFound err then wrap ''create'' (callW (k_create K desired))
         else fail (Wrapf ''get'' [] err)
     | Inr existing \<Rightarrow>
         (case customizer of
            Some f \<Rightarrow> f existing desired
          | None \<Rightarrow>
              if existing \<noteq> desired then
                bindR (setVars existing desired) (\<lambda>_.
                bindR (wrap ''update'' (retry_on_conflict K (refreshAndUpdate K name))) (\<lambda>_.
                bindR getVars (\<lambda>(existing, _). ret existing)))
              else ret existing)))"

definition UpdateClusterStatusWithRetry :: "'w kube \<Rightarrow> ('w rs, unit) prog" where
  "UpdateClusterStatusWithRetry K =
     retry_on_conflict K
       (bindR getCluster (\<lambda>cl.
        bindR (callW (k_status_update K cl)) (\<lambda>cl.
        modCluster (\<lambda>_. cl))))"

section \<open>The calls come back\<close>

text \<open>Waiting in a retry helper is part of the world; \<open>outer\<close> invariants look neither at the world nor at
  the two variables.\<close>

definition world_pause :: "'w rs \<Rightarrow> 'w rs \<Rightarrow> bool" where
  "world_pause s t \<longleftrightarrow> (\<exists>w. t = s\<lparr>world := w\<rparr>)"

definition outer :: "('w rs \<Rightarrow> bool) \<Rightarrow> bool" where
  "outer I \<longleftrightarrow> (\<forall>s w v. I s \<longrightarrow> I (s\<lparr>upVars := v, world := w\<rparr>))"

lemma outer_worldless: "outer I \<Longrightarrow> worldless I"
  unfolding outer_def worldless_def
proof (intro allI impI)
  fix s w
  assume "\<forall>s w v. I s \<longrightarrow> I (s\<lparr>upVars := v, world := w\<rparr>)" "I s"
  then have "I (s\<lparr>upVars := upVars s, world := w\<rparr>)" by blast
  then show "I (s\<lparr>world := w\<rparr>)" by simp
qed

lemma outer_vars: "outer I \<Longrightarrow> I s \<Longrightarrow> I (s\<lparr>upVars := v\<rparr>)"
proof -
  assume "outer I" "I s"
  then have "I (s\<lparr>upVars := v, world := world s\<rparr>)" unfolding outer_def by blast
  then show ?thesis by simp
qed

lemma world_pause_kept: "worldless I \<Longrightarrow> kept_by I world_pause"
  by (auto simp: kept_by_def world_pause_def worldless_def)

lemma returns_pureR: "returns I (pureR x)"
  by (cases x) (simp_all add: pureR_def returns_basic)

lemma upsert_parts_return:
  assumes "outer I"
  shows "returns I (controllerRef K d)" "returns I getVars" "returns I (setVars x y)" "returns I (getObject K kd n)"
  using outer_worldless [OF assms] outer_vars [OF assms]
  unfolding controllerRef_def getVars_def setVars_def getObject_def
  by (auto intro!: returns_bindR getCluster_returns returns_pureR returns_askR returns_modS worldless_calls)

lemma UpsertResource_returns:
  assumes I: "outer I" and R: "retrier (retry_on_conflict K) world_pause"
    and f: "\<And>f x d. c = Some f \<Longrightarrow> returns I (f x d)"
  shows "returns I (UpsertResource K d n c)"
proof -
  note parts = upsert_parts_return [OF I] worldless_calls [OF outer_worldless [OF I]]
  have "returns I (refreshAndUpdate K n)"
    unfolding refreshAndUpdate_def
    by (auto intro!: returns_bindR returns_ctxR parts split: prod.splits)
  then have "returns I (retry_on_conflict K (refreshAndUpdate K n))"
    by (rule retrier.run_settled [OF R _ world_pause_kept [OF outer_worldless [OF I]]])
  then show ?thesis
    unfolding UpsertResource_def using f
    by (cases c) (auto intro!: returns_bindR returns_ctxR returns_tryR returns_if returns_basic parts
        split: sum.splits prod.splits)
qed

lemma UpdateStatus_returns:
  assumes I: "worldless I" "\<And>s c. I s \<Longrightarrow> I (s\<lparr>cluster := c\<rparr>)" and R: "retrier (retry_on_conflict K) world_pause"
  shows "returns I (UpdateClusterStatusWithRetry K)"
  unfolding UpdateClusterStatusWithRetry_def
  by (rule retrier.run_settled [OF R _ world_pause_kept [OF I(1)]])
     (auto intro!: returns_bindR getCluster_returns worldless_calls I returns_modS simp: modCluster_def)

section \<open>The three ways of an upsert\<close>

lemma upsert_ref_fails:
  "set_controller_ref K (cluster s) d0 = Inl e \<Longrightarrow>
   UpsertResource K d0 n c s = (Err (Wrapf ''set owner reference'' [] e), s)"
  by (simp add: UpsertResource_def controllerRef_def getCluster_def askR_def bindR_def ctxR_def pureR_def fail_def)

lemma upsert_absent:
  assumes "set_controller_ref K (cluster s) d0 = Inr d"
    and "k_get K (kind_of d) (clNamespace (cluster s)) n (world s) = (Inl e, w)"
  shows "UpsertResource K d0 n c s =
    (if IsNotFound e then (case k_create K d w of
        (Inl e, w') \<Rightarrow> (Err (Wrapf ''create'' [] e), s\<lparr>world := w'\<rparr>)
      | (Inr x, w') \<Rightarrow> (Ok x, s\<lparr>world := w'\<rparr>))
     else (Err (Wrapf ''get'' [] e), s\<lparr>world := w\<rparr>))"
  using assms
  by (simp add: UpsertResource_def controllerRef_def getCluster_def askR_def bindR_def ctxR_def pureR_def
      ret_def fail_def tryR_def getObject_def callW_def callR_def split: prod.splits sum.splits)

lemma upsert_present:
  assumes "set_controller_ref K (cluster s) d0 = Inr d"
    and "k_get K (kind_of d) (clNamespace (cluster s)) n (world s) = (Inr ex, w)"
  shows "UpsertResource K d0 n (Some f) s = f ex d (s\<lparr>world := w\<rparr>)"
    and "UpsertResource K d0 n None s =
      (if ex = d then (Ok ex, s\<lparr>world := w\<rparr>)
       else case retry_on_conflict K (refreshAndUpdate K n) (s\<lparr>world := w, upVars := (ex, d)\<rparr>) of
           (Ok _, s') \<Rightarrow> (Ok (fst (upVars s')), s')
         | (Err e, s') \<Rightarrow> (Err (Wrapf ''update'' [] e), s')
         | (Panic p, s') \<Rightarrow> (Panic p, s')
         | (Blocked, s') \<Rightarrow> (Blocked, s'))"
  using assms
  by (simp_all add: UpsertResource_def controllerRef_def getCluster_def askR_def bindR_def ctxR_def pureR_def
      ret_def tryR_def getObject_def callW_def callR_def setVars_def getVars_def modS_def case_prod_beta
      split: prod.splits res.splits)

section \<open>The interface of the API server\<close>

text \<open>
  \<open>objs w\<close> are the objects the server holds, by kind, namespace and name; \<open>like d x\<close> says that the
  stored object \<open>x\<close> is what the server makes of the submitted \<open>d\<close> (it adds defaults and metadata of its
  own). A failed call changes nothing, setting the controller reference a second time changes nothing,
  and nobody else writes meanwhile.
\<close>

type_synonym okey = "kind \<times> string \<times> string"

definition key_of :: "kobj \<Rightarrow> okey" where
  "key_of x = (kind_of x, omNamespace (meta_of x), omName (meta_of x))"

text \<open>A change of the metadata.\<close>

fun upd_meta :: "(ObjMeta \<Rightarrow> ObjMeta) \<Rightarrow> kobj \<Rightarrow> kobj" where
  "upd_meta f (OSecret x) = OSecret (x\<lparr>scMeta := f (scMeta x)\<rparr>)"
| "upd_meta f (OConfigMap x) = OConfigMap (x\<lparr>cmMeta := f (cmMeta x)\<rparr>)"
| "upd_meta f (OPVC x) = OPVC (x\<lparr>pvcMeta := f (pvcMeta x)\<rparr>)"
| "upd_meta f (OStatefulSet x) = OStatefulSet (x\<lparr>stsMeta := f (stsMeta x)\<rparr>)"
| "upd_meta f (OService x) = OService (x\<lparr>ksMeta := f (ksMeta x)\<rparr>)"
| "upd_meta f (OIngress x) = OIngress (x\<lparr>kiMeta := f (kiMeta x)\<rparr>)"
| "upd_meta f (OPodMonitor x) = OPodMonitor (x\<lparr>kpMeta := f (kpMeta x)\<rparr>)"

lemma upd_meta [simp]: "kind_of (upd_meta f x) = kind_of x" "meta_of (upd_meta f x) = f (meta_of x)"
  "upd_meta f (upd_meta g x) = upd_meta (\<lambda>m. f (g m)) x"
  by (cases x; simp)+

lemma upd_meta_id: "f (meta_of x) = meta_of x \<Longrightarrow> upd_meta f x = x"
  by (cases x) simp_all

definition quiet_pause :: "('w \<Rightarrow> (okey \<rightharpoonup> kobj)) \<Rightarrow> 'w rs \<Rightarrow> 'w rs \<Rightarrow> bool" where
  "quiet_pause objs s t \<longleftrightarrow> (\<exists>w. t = s\<lparr>world := w\<rparr> \<and> objs w = objs (world s))"

locale api_server =
  fixes K :: "'w kube" and objs :: "'w \<Rightarrow> (okey \<rightharpoonup> kobj)" and like :: "kobj \<Rightarrow> kobj \<Rightarrow> bool"
  assumes get_found: "k_get K kd ns n w = (Inr x, w') \<Longrightarrow> objs w' = objs w \<and> objs w (kd, ns, n) = Some x"
    and get_failed: "k_get K kd ns n w = (Inl e, w') \<Longrightarrow>
      objs w' = objs w \<and> (IsNotFound e \<longrightarrow> objs w (kd, ns, n) = None)"
    and create_ok: "k_create K d w = (Inr x, w') \<Longrightarrow>
      objs w' = (objs w)(key_of d \<mapsto> x) \<and> like d x \<and> key_of x = key_of d"
    and create_failed: "k_create K d w = (Inl e, w') \<Longrightarrow> objs w' = objs w"
    and update_ok: "k_update K d w = (Inr x, w') \<Longrightarrow>
      objs w' = (objs w)(key_of d \<mapsto> x) \<and> like d x \<and> key_of x = key_of d"
    and update_failed: "k_update K d w = (Inl e, w') \<Longrightarrow> objs w' = objs w"
    and stored_key: "objs w k = Some x \<Longrightarrow> key_of x = k"
    and ref_key: "set_controller_ref K c d = Inr d' \<Longrightarrow> key_of d' = key_of d"
    and ref_again: "set_controller_ref K c d = Inr d' \<Longrightarrow> set_controller_ref K c d' = Inr d'"
    and ref_meta: "set_controller_ref K c d = Inr d' \<Longrightarrow> \<exists>f. d' = upd_meta f d"
    and like_refl: "like d d"
    and retry: "retrier (retry_on_conflict K) (quiet_pause objs)"

sublocale api_server \<subseteq> conflicts: retrier "retry_on_conflict K" "quiet_pause objs"
  by (rule retry)

context api_server
begin

lemma typed: "typed_get K"
  unfolding typed_get_def
  using get_found stored_key by (auto simp: key_of_def prod_eq_iff) (metis prod.inject prod.collapse)

lemma world_retry: "retrier (retry_on_conflict K) world_pause"
proof -
  have "kept_by I (quiet_pause objs)" if "kept_by I world_pause" for I
    using that by (auto simp: kept_by_def quiet_pause_def world_pause_def)
  then show ?thesis
    using conflicts.run_Err conflicts.run_outcome unfolding retrier_def by metis
qed

text \<open>One pass of the retried closure.\<close>

lemma refreshAndUpdate_Ok:
  assumes run: "refreshAndUpdate K n s = (Ok (), s')"
  shows "\<exists>old d d' x. upVars s = (old, d) \<and> set_controller_ref K (cluster s) d = Inr d' \<and> like d' x \<and>
    objs (world s') = (objs (world s))(key_of d \<mapsto> x) \<and>
    objs (world s) (kind_of d, clNamespace (cluster s), n) = Some (fst (upVars s')) \<and>
    cluster s' = cluster s"
proof -
  obtain old d where v: "upVars s = (old, d)" by (cases "upVars s")
  from run v obtain ex w1 d' x w2 where
    g: "k_get K (kind_of d) (clNamespace (cluster s)) n (world s) = (Inr ex, w1)"
    and c: "set_controller_ref K (cluster s) d = Inr d'" and u: "k_update K d' w1 = (Inr x, w2)"
    and s': "s' = s\<lparr>world := w2, upVars := (ex, x)\<rparr>"
    unfolding refreshAndUpdate_def getVars_def setVars_def getObject_def controllerRef_def getCluster_def
      pureR_def callW_def
    by (auto simp: bindR_def ctxR_def askR_def callR_def modS_def ret_def fail_def
        split: prod.splits res.splits sum.splits)
  have "objs w1 = objs (world s)" using get_found [OF g] by simp
  then show ?thesis
    using v c get_found [OF g] update_ok [OF u] ref_key [OF c] s' by auto
qed

lemma refreshAndUpdate_Err:
  assumes d: "set_controller_ref K (cluster s) (snd (upVars s)) = Inr (snd (upVars s))"
    and run: "refreshAndUpdate K n s = (Err e, s')"
  shows "objs (world s') = objs (world s) \<and> snd (upVars s') = snd (upVars s) \<and> cluster s' = cluster s"
proof -
  obtain old d where v: "upVars s = (old, d)" by (cases "upVars s")
  from run v d show ?thesis
    unfolding refreshAndUpdate_def getVars_def setVars_def getObject_def controllerRef_def getCluster_def
      pureR_def callW_def
    by (auto simp: bindR_def ctxR_def askR_def callR_def modS_def ret_def fail_def
        split: prod.splits res.splits sum.splits dest!: get_found get_failed update_failed)
qed

text \<open>The retry: the last pass decides, and the passes before it changed nothing.\<close>

lemma retried_update_Ok:
  assumes d: "set_controller_ref K (cluster s) (snd (upVars s)) = Inr (snd (upVars s))"
    and run: "retry_on_conflict K (refreshAndUpdate K n) s = (Ok (), s')"
  shows "\<exists>x. like (snd (upVars s)) x \<and> objs (world s') = (objs (world s))(key_of (snd (upVars s)) \<mapsto> x) \<and>
    objs (world s) (kind_of (snd (upVars s)), clNamespace (cluster s), n) = Some (fst (upVars s'))"
proof -
  let ?I = "\<lambda>t. objs (world t) = objs (world s) \<and> snd (upVars t) = snd (upVars s) \<and> cluster t = cluster s"
  have k: "kept_by ?I (failing (refreshAndUpdate K n))"
    using refreshAndUpdate_Err d unfolding kept_by_def failing_def by metis
  have p: "kept_by ?I (quiet_pause objs)" by (auto simp: kept_by_def quiet_pause_def)
  show ?thesis
  proof (rule conflicts.run_Ok_post [OF k p _ run])
    fix t t'
    assume I: "?I t" and t: "refreshAndUpdate K n t = (Ok (), t')"
    from refreshAndUpdate_Ok [OF t] obtain old d1 d' x where "upVars t = (old, d1)"
      "set_controller_ref K (cluster t) d1 = Inr d'" "like d' x"
      "objs (world t') = (objs (world t))(key_of d1 \<mapsto> x)"
      "objs (world t) (kind_of d1, clNamespace (cluster t), n) = Some (fst (upVars t'))" by blast
    with I d show "\<exists>x. like (snd (upVars s)) x \<and> objs (world t') = (objs (world s))(key_of (snd (upVars s)) \<mapsto> x) \<and>
      objs (world s) (kind_of (snd (upVars s)), clNamespace (cluster s), n) = Some (fst (upVars t'))" by auto
  qed simp
qed

text \<open>An upsert that returns an object: the server holds the desired object, and the returned one has
  its key. \<open>desired\<close> must be named \<open>n\<close> in the namespace of the cluster.\<close>

lemma upsert_Ok:
  assumes key: "key_of d0 = (kd, clNamespace (cluster s), n)"
    and run: "UpsertResource K d0 n None s = (Ok r, s')"
  shows "\<exists>d x. set_controller_ref K (cluster s) d0 = Inr d \<and> like d x \<and>
    objs (world s') = (objs (world s))(key_of d0 \<mapsto> x) \<and> key_of r = key_of d0"
proof -
  from run obtain d where d: "set_controller_ref K (cluster s) d0 = Inr d"
    by (cases "set_controller_ref K (cluster s) d0") (simp_all add: upsert_ref_fails)
  have kd: "key_of d = key_of d0" "kind_of d = kd" using ref_key [OF d] key by (auto simp: key_of_def)
  obtain got w1 where g: "k_get K (kind_of d) (clNamespace (cluster s)) n (world s) = (got, w1)" by (meson surj_pair)
  show ?thesis
  proof (cases got)
    case (Inl e)
    with run upsert_absent [OF d g [unfolded Inl]] obtain w2 where
      c: "k_create K d w1 = (Inr r, w2)" "s' = s\<lparr>world := w2\<rparr>"
      by (auto split: if_splits prod.splits sum.splits)
    then show ?thesis
      using create_ok [OF c(1)] get_failed [OF g [unfolded Inl]] d kd by auto
  next
    case (Inr ex)
    note G = get_found [OF g [unfolded Inr]] and U = upsert_present(2) [OF d g [unfolded Inr]]
    show ?thesis
    proof (cases "ex = d")
      case True
      have r: "r = d" "s' = s\<lparr>world := w1\<rparr>" using run unfolding U True by simp_all
      have "objs (world s) (key_of d0) = Some d" using G True key kd(2) by simp
      then have "objs (world s') = (objs (world s))(key_of d0 \<mapsto> d)" using G r(2) by (simp add: fun_upd_idem)
      with d kd like_refl r(1) show ?thesis by blast
    next
      case False
      let ?t = "s\<lparr>world := w1, upVars := (ex, d)\<rparr>"
      from run False obtain s2 where
        u: "retry_on_conflict K (refreshAndUpdate K n) ?t = (Ok (), s2)" "s' = s2" "r = fst (upVars s2)"
        unfolding U by (simp split: prod.splits res.splits)
      have "set_controller_ref K (cluster ?t) (snd (upVars ?t)) = Inr (snd (upVars ?t))"
        using ref_again [OF d] by simp
      from retried_update_Ok [OF this u(1)] obtain x where
        x: "like d x" "objs (world s2) = (objs w1)(key_of d \<mapsto> x)" "objs w1 (kd, clNamespace (cluster s), n) = Some r"
        using u kd by auto
      have "key_of r = key_of d0" using stored_key [OF x(3)] key by simp
      with x u(2) G d kd(1) show ?thesis by auto
    qed
  qed
qed

text \<open>An upsert that fails has written nothing.\<close>

lemma upsert_Err:
  assumes "UpsertResource K d0 n None s = (Err e, s')"
  shows "objs (world s') = objs (world s)"
proof -
  have keep: "objs (world s2) = objs (world t)"
    if "set_controller_ref K (cluster t) (snd (upVars t)) = Inr (snd (upVars t))"
      "retry_on_conflict K (refreshAndUpdate K n) t = (Err e, s2)" for t e s2
  proof -
    let ?I = "\<lambda>u. objs (world u) = objs (world t) \<and> snd (upVars u) = snd (upVars t) \<and> cluster u = cluster t"
    have k: "kept_by ?I (failing (refreshAndUpdate K n))"
      using refreshAndUpdate_Err that(1) unfolding kept_by_def failing_def by metis
    have p: "kept_by ?I (quiet_pause objs)" by (auto simp: kept_by_def quiet_pause_def)
    from conflicts.run_Err [OF k p _ that(2)] show ?thesis by simp
  qed
  show ?thesis
  proof (cases "set_controller_ref K (cluster s) d0")
    case (Inl e1)
    with assms show ?thesis by (simp add: upsert_ref_fails)
  next
    case d: (Inr d)
    obtain got w1 where g: "k_get K (kind_of d) (clNamespace (cluster s)) n (world s) = (got, w1)"
      by (meson surj_pair)
    have w1: "objs w1 = objs (world s)" using g get_failed get_found by (cases got) blast+
    show ?thesis
    proof (cases got)
      case (Inl e1)
      obtain y w2 where c: "k_create K d w1 = (y, w2)" by (meson surj_pair)
      with assms upsert_absent [OF d g [unfolded Inl]] w1 create_failed [of d w1] show ?thesis
        by (cases y) (auto split: if_splits)
    next
      case (Inr ex)
      let ?t = "s\<lparr>world := w1, upVars := (ex, d)\<rparr>"
      have self: "set_controller_ref K (cluster ?t) (snd (upVars ?t)) = Inr (snd (upVars ?t))"
        using ref_again [OF d] by simp
      obtain q s2 where r: "retry_on_conflict K (refreshAndUpdate K n) ?t = (q, s2)" by (meson surj_pair)
      with assms upsert_present(2) [OF d g [unfolded Inr]] obtain e2 where "q = Err e2" "s' = s2"
        by (cases q) (auto split: if_splits)
      with keep [OF self] r w1 show ?thesis by simp
    qed
  qed
qed

end

section \<open>A server that meets the interface\<close>

text \<open>The objects by key; every write stamps a version; owners are kept as a set.\<close>

type_synonym cellar = "(okey \<times> kobj) list"

definition stamp :: "kobj \<Rightarrow> kobj" where
  "stamp = upd_meta (\<lambda>m. m\<lparr>omVersion := ''1''\<rparr>)"

definition stamped :: "kobj \<Rightarrow> kobj \<Rightarrow> bool" where
  "stamped d x \<longleftrightarrow> stamp d = stamp x"

definition cellar_objs :: "cellar \<Rightarrow> (okey \<rightharpoonup> kobj)" where
  "cellar_objs w k = (case map_of w k of Some x \<Rightarrow> if key_of x = k then Some x else None | None \<Rightarrow> None)"

definition cellar_kube :: "Pod list \<Rightarrow> PiHoleCluster \<Rightarrow> cellar kube" where
  "cellar_kube pods cl = (static_kube pods [] cl)\<lparr>
     k_get := (\<lambda>kd ns n w. (case cellar_objs w (kd, ns, n) of
         Some x \<Rightarrow> Inr x | None \<Rightarrow> Inl (ApiStatus NotFound n), w)),
     k_create := (\<lambda>d w. if cellar_objs w (key_of d) \<noteq> None then (Inl (ApiStatus (OtherReason ''AlreadyExists'') []), w)
       else (Inr (stamp d), mput (key_of d) (stamp d) w)),
     k_update := (\<lambda>d w. if cellar_objs w (key_of d) = None then (Inl (ApiStatus NotFound []), w)
       else (Inr (stamp d), mput (key_of d) (stamp d) w)),
     set_controller_ref := (\<lambda>c. Inr \<circ> upd_meta (\<lambda>m.
       if clUID c \<in> set (omOwners m) then m else m\<lparr>omOwners := omOwners m @ [clUID c]\<rparr>))\<rparr>"

lemma key_stamp [simp]: "key_of (stamp x) = key_of x"
  by (simp add: key_of_def stamp_def)

lemma stamp_stamp [simp]: "stamp (stamp x) = stamp x"
  by (simp add: stamp_def)

lemma cellar_objs_mput [simp]: "key_of x = k \<Longrightarrow> cellar_objs (mput k x w) = (cellar_objs w)(k \<mapsto> x)"
  by (auto simp: cellar_objs_def fun_eq_iff)

lemma cellar_key: "cellar_objs w k = Some x \<Longrightarrow> key_of x = k"
  by (auto simp: cellar_objs_def split: option.splits if_splits)

interpretation cellar: api_server "cellar_kube pods cl" cellar_objs stamped for pods cl
proof (rule api_server.intro)
  show "retrier (retry_on_conflict (cellar_kube pods cl)) (quiet_pause cellar_objs)"
    by (simp add: cellar_kube_def static_kube_def conflict.retrier_axioms)
  fix kd ns n k c d d' x and w w' :: cellar and e
  show "k_get (cellar_kube pods cl) kd ns n w = (Inr x, w') \<Longrightarrow>
      cellar_objs w' = cellar_objs w \<and> cellar_objs w (kd, ns, n) = Some x"
    "k_get (cellar_kube pods cl) kd ns n w = (Inl e, w') \<Longrightarrow>
      cellar_objs w' = cellar_objs w \<and> (IsNotFound e \<longrightarrow> cellar_objs w (kd, ns, n) = None)"
    by (auto simp: cellar_kube_def split: option.splits)
  show "k_create (cellar_kube pods cl) d w = (Inr x, w') \<Longrightarrow>
      cellar_objs w' = (cellar_objs w)(key_of d \<mapsto> x) \<and> stamped d x \<and> key_of x = key_of d"
    "k_create (cellar_kube pods cl) d w = (Inl e, w') \<Longrightarrow> cellar_objs w' = cellar_objs w"
    "k_update (cellar_kube pods cl) d w = (Inr x, w') \<Longrightarrow>
      cellar_objs w' = (cellar_objs w)(key_of d \<mapsto> x) \<and> stamped d x \<and> key_of x = key_of d"
    "k_update (cellar_kube pods cl) d w = (Inl e, w') \<Longrightarrow> cellar_objs w' = cellar_objs w"
    by (auto simp: cellar_kube_def stamped_def split: if_splits)
  show "cellar_objs w k = Some x \<Longrightarrow> key_of x = k" by (rule cellar_key)
  show "stamped d d" by (simp add: stamped_def)
  assume "set_controller_ref (cellar_kube pods cl) c d = Inr d'"
  then have d': "d' = upd_meta (\<lambda>m. if clUID c \<in> set (omOwners m) then m else m\<lparr>omOwners := omOwners m @ [clUID c]\<rparr>) d"
    by (simp add: cellar_kube_def)
  show "key_of d' = key_of d" by (simp add: d' key_of_def)
  show "\<exists>f. d' = upd_meta f d" unfolding d' by blast
  show "set_controller_ref (cellar_kube pods cl) c d' = Inr d'"
    by (simp add: cellar_kube_def, rule upd_meta_id) (simp add: d')
qed

section \<open>Properties\<close>

text \<open>C9: an upsert that reports success leaves the server holding the desired object, with the cluster
  as its controller, under the desired key, whether it was absent, different or already there and
  however many conflicts were retried; every other object is untouched, and the object handed back has
  that key. An upsert that reports an error has written nothing.\<close>

theorem upsert_establishes_the_desired_object:
  assumes "api_server K objs like" "key_of d0 = (kd, clNamespace (cluster s), n)"
    and "UpsertResource K d0 n None s = (r, s')"
  shows "(\<forall>y. r = Ok y \<longrightarrow> (\<exists>d x. set_controller_ref K (cluster s) d0 = Inr d \<and> like d x \<and>
      objs (world s') = (objs (world s))(key_of d0 \<mapsto> x) \<and> key_of y = key_of d0)) \<and>
    (\<forall>e. r = Err e \<longrightarrow> objs (world s') = objs (world s))"
  using api_server.upsert_Ok [OF assms(1,2)] api_server.upsert_Err [OF assms(1)] assms(3) by blast

definition a_secret :: kobj where
  "a_secret = OSecret \<lparr>scMeta = mk_meta ''s'' ''dns'' [], scData = [(''password'', ''pw'')]\<rparr>"

definition some_cluster :: PiHoleCluster where
  "some_cluster = zero_cluster\<lparr>clName := ''pi'', clNamespace := ''dns'', clUID := ''u1''\<rparr>"

theorem upsert_establishes_the_desired_object_witness:
  "\<exists>x. cellar_objs (world (snd (UpsertResource (cellar_kube [] some_cluster) a_secret ''s'' None (new_rs some_cluster []))))
     (key_of a_secret) = Some x"
proof -
  have ok: "case fst (UpsertResource (cellar_kube [] some_cluster) a_secret ''s'' None (new_rs some_cluster [])) of
      Ok y \<Rightarrow> True | _ \<Rightarrow> False"
    by code_simp
  obtain r s' where run: "UpsertResource (cellar_kube [] some_cluster) a_secret ''s'' None (new_rs some_cluster []) = (r, s')"
    by (meson surj_pair)
  have key: "key_of a_secret = (SecretKind, clNamespace (cluster (new_rs some_cluster [])), ''s'')"
    by (simp add: key_of_def a_secret_def mk_meta_def new_rs_def some_cluster_def zero_cluster_def)
  from upsert_establishes_the_desired_object [OF cellar.api_server_axioms key run] ok run show ?thesis
    by (cases r) auto
qed

text \<open>The comparison before the update never finds the objects equal: an object read from the server
  carries a resource version and the desired one does not. So an upsert of an object that is there
  always goes to the retried update, also when nothing has changed.\<close>

theorem upsert_always_writes:
  assumes "set_controller_ref K (cluster s) d0 = Inr d"
    and "k_get K (kind_of d) (clNamespace (cluster s)) n (world s) = (Inr ex, w)"
    and "omVersion (meta_of d) = []" "omVersion (meta_of ex) \<noteq> []"
    and "UpsertResource K d0 n None s = (Ok r, s')"
  shows "retry_on_conflict K (refreshAndUpdate K n) (s\<lparr>world := w, upVars := (ex, d)\<rparr>) = (Ok (), s') \<and>
    r = fst (upVars s')"
proof -
  have "ex \<noteq> d" using assms(3,4) by auto
  then show ?thesis
    using assms(5) unfolding upsert_present(2) [OF assms(1,2)] by (auto split: prod.splits res.splits)
qed

theorem upsert_always_writes_witness:
  "\<exists>s'. retry_on_conflict (cellar_kube [] some_cluster) (refreshAndUpdate (cellar_kube [] some_cluster) ''s'')
      (new_rs some_cluster [(key_of a_secret, stamp a_secret)]\<lparr>upVars := (stamp a_secret,
         upd_meta (\<lambda>m. m\<lparr>omOwners := [''u1'']\<rparr>) a_secret)\<rparr>) = (Ok (), s')"
proof -
  let ?K = "cellar_kube [] some_cluster" and ?w = "[(key_of a_secret, stamp a_secret)]"
  let ?s = "new_rs some_cluster ?w"
  have ok: "case fst (UpsertResource ?K a_secret ''s'' None ?s) of Ok y \<Rightarrow> True | _ \<Rightarrow> False"
    by code_simp
  obtain r s' where run: "UpsertResource ?K a_secret ''s'' None ?s = (r, s')" by (meson surj_pair)
  with ok obtain y where y: "UpsertResource ?K a_secret ''s'' None ?s = (Ok y, s')" by (cases r) auto
  have d: "set_controller_ref ?K (cluster ?s) a_secret = Inr (upd_meta (\<lambda>m. m\<lparr>omOwners := [''u1'']\<rparr>) a_secret)"
    by (simp add: cellar_kube_def some_cluster_def new_rs_def a_secret_def mk_meta_def zero_cluster_def)
  have g: "k_get ?K (kind_of (upd_meta (\<lambda>m. m\<lparr>omOwners := [''u1'']\<rparr>) a_secret)) (clNamespace (cluster ?s)) ''s'' (world ?s)
      = (Inr (stamp a_secret), ?w)"
    by (simp add: cellar_kube_def cellar_objs_def some_cluster_def new_rs_def a_secret_def mk_meta_def zero_cluster_def
        key_of_def stamp_def)
  from upsert_always_writes [OF d g _ _ y] show ?thesis
    by (auto simp: a_secret_def mk_meta_def stamp_def new_rs_def)
qed

end
