(* ===== verification/Resources.thy ===== *)
theory Resources
  imports Upsert
begin

text \<open>
  \<open>internal/controller/piholecluster/resources.go\<close> and \<open>conditional_addons.go\<close>: the desired state of
  every object of a cluster as a function of the resource, and the operations that bring it to the API
  server.
\<close>

section \<open>Default probes\<close>

definition probe :: "ProbeHandler \<Rightarrow> int32 \<Rightarrow> int32 \<Rightarrow> int32 \<Rightarrow> Probe" where
  "probe h delay period timeout = \<lparr>prbHandler = h, InitialDelaySeconds = delay, PeriodSeconds = period,
     TimeoutSeconds = timeout, prbRest = []\<rparr>"

definition defaultProbes :: "PiHoleCluster \<Rightarrow> PiHoleCluster" where
  "defaultProbes cl =
     (let sp = clSpec cl;
          sp1 = (if LivenessProbe sp = None then sp\<lparr>LivenessProbe := Some (probe (TCPSocket ''http'') 30 30 5)\<rparr> else sp);
          sp2 = (if ReadinessProbe sp1 = None
                 then sp1\<lparr>ReadinessProbe := Some (probe (HTTPGet ''/admin'' ''http'') 10 10 2)\<rparr> else sp1)
      in cl\<lparr>clSpec := sp2\<rparr>)"

definition defaultExporterProbes :: "ExporterSpec \<Rightarrow> ExporterSpec" where
  "defaultExporterProbes e =
     (let e1 = (if expLivenessProbe e = None
                then e\<lparr>expLivenessProbe := Some (probe (TCPSocket ''metrics'') 30 30 5)\<rparr> else e)
      in if expReadinessProbe e1 = None
         then e1\<lparr>expReadinessProbe := Some (probe (HTTPGet ''/metrics'' ''metrics'') 10 10 2)\<rparr> else e1)"

section \<open>The exporter side car\<close>

definition plain_env :: "string \<Rightarrow> string \<Rightarrow> EnvVar" where
  "plain_env n v = \<lparr>evName = n, evValue = v, evFrom = None\<rparr>"

definition secret_env :: "string \<Rightarrow> SecretKeySelector \<Rightarrow> EnvVar" where
  "secret_env n src = \<lparr>evName = n, evValue = [], evFrom = Some src\<rparr>"

definition new_container :: "string \<Rightarrow> string \<Rightarrow> ContainerPort list \<Rightarrow> EnvVar list \<Rightarrow> Container" where
  "new_container n img ports env = \<lparr>ctName = n, ctImage = img, ctPorts = ports, ctEnv = env, ctEnvFrom = [],
     ctVolumeMounts = [], ctResources = [], ctSecurityContext = None, ctLivenessProbe = None,
     ctReadinessProbe = None\<rparr>"

definition exporter_container :: "ExporterSpec \<Rightarrow> SecretKeySelector \<Rightarrow> Container" where
  "exporter_container e src =
     (let c0 = new_container ''pihole-exporter'' ''ekofr/pihole-exporter:latest''
            [\<lparr>cpPort = 9617, cpProtocol = [], cpName = ''metrics''\<rparr>]
            ([plain_env ''TZ'' ''UTC'', plain_env ''PIHOLE_PORT'' ''80''] @ [secret_env ''PIHOLE_PASSWORD'' src]);
          c1 = (if expResources e \<noteq> [] then c0\<lparr>ctResources := expResources e\<rparr> else c0);
          c2 = (if expContainerSecurityContext e \<noteq> None
                then c1\<lparr>ctSecurityContext := expContainerSecurityContext e\<rparr> else c1);
          c3 = (if expLivenessProbe e \<noteq> None then c2\<lparr>ctLivenessProbe := expLivenessProbe e\<rparr> else c2)
      in if expReadinessProbe e \<noteq> None then c3\<lparr>ctReadinessProbe := expReadinessProbe e\<rparr> else c3)"

text \<open>The pod spec with the side car, and the cluster, whose exporter block gets the default probes.\<close>

definition addExporterIfEnabled ::
  "PiHoleCluster \<Rightarrow> PodSpec \<Rightarrow> SecretKeySelector \<Rightarrow> PodSpec \<times> PiHoleCluster" where
  "addExporterIfEnabled cl ps src =
     (case Monitoring (clSpec cl) of
        None \<Rightarrow> (ps, cl)
      | Some mon \<Rightarrow>
          (case monExporter mon of
             None \<Rightarrow> (ps, cl)
           | Some e \<Rightarrow>
               if \<not> expEnabled e then (ps, cl)
               else (let e' = defaultExporterProbes e in
                 (ps\<lparr>psContainers := psContainers ps @ [exporter_container e' src]\<rparr>,
                  cl\<lparr>clSpec := (clSpec cl)\<lparr>Monitoring := Some (mon\<lparr>monExporter := Some e'\<rparr>)\<rparr>\<rparr>))))"

section \<open>Stateful sets\<close>

definition instance_labels :: "PiHoleCluster \<Rightarrow> smap" where
  "instance_labels cl = [(''app.kubernetes.io/name'', ''pihole''), (''app.kubernetes.io/instance'', clName cl)]"

definition sts_labels :: "PiHoleCluster \<Rightarrow> string \<Rightarrow> smap" where
  "sts_labels cl role = instance_labels cl @ [(''supporterino.de/pihole-role'', role)]"

definition pihole_container :: Container where
  "pihole_container = new_container ''pihole'' ''pihole/pihole:latest''
     [\<lparr>cpPort = 80, cpProtocol = [], cpName = ''http''\<rparr>, \<lparr>cpPort = 53, cpProtocol = ''UDP'', cpName = ''dns''\<rparr>]
     [plain_env ''TZ'' ''UTC'']"

definition new_sts :: "PiHoleCluster \<Rightarrow> string \<Rightarrow> string \<Rightarrow> int32 \<Rightarrow> StatefulSet" where
  "new_sts cl stsName role n =
     \<lparr>stsMeta = mk_meta stsName (clNamespace cl) (sts_labels cl role), stsReplicas = Int32Ptr n,
      stsSelector = sts_labels cl role, stsServiceName = stsName, stsTemplateLabels = sts_labels cl role,
      stsPodSpec = \<lparr>psContainers = [pihole_container], psVolumes = [], psSecurityContext = None\<rparr>,
      stsReadyReplicas = 0\<rparr>"

text \<open>\<open>desired.Spec.Template.Spec.Containers[0]\<close> is changed in place; the pod spec always has it.\<close>

definition onPodSpec :: "(PodSpec \<Rightarrow> PodSpec) \<Rightarrow> StatefulSet \<Rightarrow> StatefulSet" where
  "onPodSpec f s = s\<lparr>stsPodSpec := f (stsPodSpec s)\<rparr>"

definition onMain :: "(Container \<Rightarrow> Container) \<Rightarrow> StatefulSet \<Rightarrow> StatefulSet" where
  "onMain f = onPodSpec (\<lambda>ps. ps\<lparr>psContainers := (psContainers ps)[0 := f (psContainers ps ! 0)]\<rparr>)"

definition withProbes :: "PiHoleCluster \<Rightarrow> StatefulSet \<Rightarrow> StatefulSet" where
  "withProbes cl s =
     (let s1 = (if LivenessProbe (clSpec cl) \<noteq> None
                then onMain (\<lambda>c. c\<lparr>ctLivenessProbe := LivenessProbe (clSpec cl)\<rparr>) s else s)
      in if ReadinessProbe (clSpec cl) \<noteq> None
         then onMain (\<lambda>c. c\<lparr>ctReadinessProbe := ReadinessProbe (clSpec cl)\<rparr>) s1 else s1)"

definition password_key :: "PiHoleCluster \<Rightarrow> string" where
  "password_key cl = (case Config (clSpec cl) of
      Some cfg \<Rightarrow> (case apSecretRef (cfgAPIPassword cfg) of Some ref \<Rightarrow> sksKey ref | None \<Rightarrow> ''password'')
    | None \<Rightarrow> ''password'')"

definition data_mounts :: "VolumeMount list" where
  "data_mounts =
     [\<lparr>vmName = ''pihole-data'', vmMountPath = ''/etc/pihole/db'', vmSubPath = ''databases''\<rparr>,
      \<lparr>vmName = ''pihole-data'', vmMountPath = ''/etc/pihole'', vmSubPath = ''config''\<rparr>,
      \<lparr>vmName = ''pihole-data'', vmMountPath = ''/etc/dnsmasq.d'', vmSubPath = ''dnsmasq''\<rparr>]"

definition withVolume :: "VolumeSource \<Rightarrow> StatefulSet \<Rightarrow> StatefulSet" where
  "withVolume v s = onPodSpec (\<lambda>ps. ps\<lparr>psVolumes := [\<lparr>volName = ''pihole-data'', volSource = v\<rparr>]\<rparr>)
     (onMain (\<lambda>c. c\<lparr>ctVolumeMounts := data_mounts\<rparr>) s)"

definition withEnvCM :: "ConfigMap option \<Rightarrow> StatefulSet \<Rightarrow> StatefulSet" where
  "withEnvCM cm s = (case cm of
      None \<Rightarrow> s
    | Some m \<Rightarrow> onMain (\<lambda>c. c\<lparr>ctEnvFrom := ctEnvFrom c @ [omName (cmMeta m)]\<rparr>) s)"

definition withLimits :: "PiHoleCluster \<Rightarrow> StatefulSet \<Rightarrow> StatefulSet" where
  "withLimits cl s =
     (let sp = clSpec cl;
          s1 = (if Resources sp \<noteq> [] then onMain (\<lambda>c. c\<lparr>ctResources := Resources sp\<rparr>) s else s);
          s2 = (case Security sp of
              Some sec \<Rightarrow>
                if secPodSecurityContext sec \<noteq> None
                then onPodSpec (\<lambda>ps. ps\<lparr>psSecurityContext := secPodSecurityContext sec\<rparr>) s1 else s1
            | None \<Rightarrow> s1)
      in (case Security sp of
              Some sec \<Rightarrow>
                if secContainerSecurityContext sec \<noteq> None
                then onMain (\<lambda>c. c\<lparr>ctSecurityContext := secContainerSecurityContext sec\<rparr>) s2 else s2
            | None \<Rightarrow> s2))"

text \<open>The probes, the password and the side car: the part both stateful sets share. It reads the secret,
  and it writes the default probes into the cluster object.\<close>

definition withPassword :: "'w kube \<Rightarrow> StatefulSet \<Rightarrow> ('w rs, StatefulSet) prog" where
  "withPassword K desired =
     bindR (modCluster defaultProbes) (\<lambda>_.
     bindR getCluster (\<lambda>cl.
     let desired = withProbes cl desired in
     bindR (getAPISecret K) (\<lambda>secret.
     let src = \<lparr>sksName = omName (scMeta secret), sksKey = password_key cl\<rparr>;
         desired = onMain (\<lambda>c. c\<lparr>ctEnv := ctEnv c @ [secret_env ''FTLCONF_webserver_api_password'' src]\<rparr>) desired
     in bindR getCluster (\<lambda>cl.
        bindR (modCluster (\<lambda>c. snd (addExporterIfEnabled c (stsPodSpec desired) src))) (\<lambda>_.
        ret (desired\<lparr>stsPodSpec := fst (addExporterIfEnabled cl (stsPodSpec desired) src)\<rparr>))))))"

section \<open>The secret, the config map and the claim\<close>

definition asConfigMap :: "kobj \<Rightarrow> ('s, ConfigMap) prog" where
  "asConfigMap x = (case x of OConfigMap cm \<Rightarrow> ret cm | _ \<Rightarrow> panic ''interface conversion'')"

definition asPVC :: "kobj \<Rightarrow> ('s, PVC) prog" where
  "asPVC x = (case x of OPVC p \<Rightarrow> ret p | _ \<Rightarrow> panic ''interface conversion'')"

definition mustParse :: "'w kube \<Rightarrow> string \<Rightarrow> ('w rs, string) prog" where
  "mustParse K q = (case parse_quantity K q of
      Some v \<Rightarrow> ret v
    | None \<Rightarrow> panic ''cannot parse quantity'')"

definition desired_secret :: "PiHoleCluster \<Rightarrow> ConfigSpec \<Rightarrow> kobj" where
  "desired_secret cl cfg = OSecret \<lparr>scMeta = mk_meta (clName cl @ ''-api-password'') (clNamespace cl) [],
     scData = [(''password'', apPassword (cfgAPIPassword cfg))]\<rparr>"

definition ensureAPISecret :: "'w kube \<Rightarrow> ('w rs, Secret option) prog" where
  "ensureAPISecret K =
     bindR getCluster (\<lambda>cl.
     case Config (clSpec cl) of
       None \<Rightarrow> ret None
     | Some cfg \<Rightarrow>
         if apPassword (cfgAPIPassword cfg) = [] \<and> apSecretRef (cfgAPIPassword cfg) = None then ret None
         else (case apSecretRef (cfgAPIPassword cfg) of
           Some ref \<Rightarrow>
             bindR (wrap ''failed to read referenced secret''
                (callW (k_get K SecretKind (clNamespace cl) (sksName ref)))) (\<lambda>x.
             bindR (asSecret x) (\<lambda>sec.
             if map_of (scData sec) (sksKey ref) = None
             then fail (Errorf ''key %q not found in secret %s/%s''
                    [FS (sksKey ref), FS (omNamespace (scMeta sec)), FS (omName (scMeta sec))])
             else ret (Some sec)))
         | None \<Rightarrow>
             bindR (UpsertResource K (desired_secret cl cfg) (clName cl @ ''-api-password'') None) (\<lambda>x.
             bindR (asSecret x) (\<lambda>sec. ret (Some sec)))))"

definition desired_env_cm :: "PiHoleCluster \<Rightarrow> ConfigSpec \<Rightarrow> kobj" where
  "desired_env_cm cl cfg = OConfigMap \<lparr>cmMeta = mk_meta (clName cl @ ''-env'') (clNamespace cl) [],
     cmData = cfgEnvVars cfg\<rparr>"

definition ensurePiHoleEnvCM :: "'w kube \<Rightarrow> ('w rs, ConfigMap option) prog" where
  "ensurePiHoleEnvCM K =
     bindR getCluster (\<lambda>cl.
     case Config (clSpec cl) of
       None \<Rightarrow> ret None
     | Some cfg \<Rightarrow>
         if cfgEnvVars cfg = [] then ret None
         else bindR (UpsertResource K (desired_env_cm cl cfg) (clName cl @ ''-env'') None) (\<lambda>x.
              bindR (asConfigMap x) (\<lambda>cm. ret (Some cm))))"

text \<open>Size, access modes and storage class of the claim: the block \<open>persistence\<close> over the defaults.\<close>

definition pvc_params :: "PiHoleCluster \<Rightarrow> string \<times> string list \<times> string option" where
  "pvc_params cl =
     (let storageSize = ''10Gi''; accessModes = [''ReadWriteOnce'']; storageClassName = None
      in case Persistence (clSpec cl) of
        None \<Rightarrow> (storageSize, accessModes, storageClassName)
      | Some p \<Rightarrow>
          (if perSize p \<noteq> [] then perSize p else storageSize,
           if perAccessModes p \<noteq> [] then perAccessModes p else accessModes,
           if perStorageClassName p \<noteq> None then perStorageClassName p else storageClassName))"

definition desired_pvc :: "PiHoleCluster \<Rightarrow> string \<Rightarrow> PVC" where
  "desired_pvc cl quantity =
     \<lparr>pvcMeta = mk_meta (clName cl @ ''-data'') (clNamespace cl) [],
      pvcAccessModes = fst (snd (pvc_params cl)), pvcRequests = [(''storage'', quantity)],
      pvcStorageClassName = snd (snd (pvc_params cl)), pvcPhase = []\<rparr>"

text \<open>The customizer only updates the storage request of the claim that is there.\<close>

definition pvcCustomizer :: "'w kube \<Rightarrow> 'w customizer" where
  "pvcCustomizer K existing desired =
     bindR (asPVC existing) (\<lambda>e.
     bindR (asPVC desired) (\<lambda>d.
     if pvcRequests e \<noteq> pvcRequests d
     then wrap ''update pvc'' (callW (k_update K (OPVC (e\<lparr>pvcRequests := pvcRequests d\<rparr>))))
     else ret (OPVC d)))"

definition ensurePiHolePVC :: "'w kube \<Rightarrow> ('w rs, PVC) prog" where
  "ensurePiHolePVC K =
     bindR getCluster (\<lambda>cl.
     bindR (mustParse K (fst (pvc_params cl))) (\<lambda>quantity.
     bindR (UpsertResource K (OPVC (desired_pvc cl quantity)) (clName cl @ ''-data'') (Some (pvcCustomizer K))) asPVC))"

section \<open>The stateful sets\<close>

definition ensureReadWriteSTS :: "'w kube \<Rightarrow> ('w rs, unit) prog" where
  "ensureReadWriteSTS K =
     bindR getCluster (\<lambda>cl.
     let stsName = clName cl @ ''-rw'' in
     bindR (withPassword K (new_sts cl stsName ''readwrite'' 1)) (\<lambda>desired.
     bindR (ensurePiHolePVC K) (\<lambda>pvc.
     let desired = withVolume (VolPVC (omName (pvcMeta pvc))) desired in
     bindR (ensurePiHoleEnvCM K) (\<lambda>envCM.
     bindR getCluster (\<lambda>cl.
     bindR (UpsertResource K (OStatefulSet (withLimits cl (withEnvCM envCM desired))) stsName None) (\<lambda>_.
     ret ()))))))"

text \<open>The volume of a replica, by \<open>readOnlyVolume\<close>; the pointer is dereferenced.\<close>

definition readOnlyVolume :: "'w kube \<Rightarrow> ('w rs, VolumeSource) prog" where
  "readOnlyVolume K =
     bindR getCluster (\<lambda>cl.
     case ReadOnlyVolume (clSpec cl) of
       None \<Rightarrow> panic ''nil pointer dereference''
     | Some v \<Rightarrow>
         if ReadOnlyVolumeType v = ''ephemeral'' then
           bindR (mustParse K (rovSize v)) (\<lambda>quantity.
           ret (VolEphemeral ''pihole-data'' (rovAccessModes v) (rovStorageClassName v) quantity))
         else ret VolEmptyDir)"

definition ensureReadOnlySTS :: "'w kube \<Rightarrow> ('w rs, unit) prog" where
  "ensureReadOnlySTS K =
     bindR getCluster (\<lambda>cl.
     if sint (Replicas (clSpec cl)) \<le> 0 then ret ()
     else
     let stsName = clName cl @ ''-ro'' in
     bindR (withPassword K (new_sts cl stsName ''readonly'' (Replicas (clSpec cl)))) (\<lambda>desired.
     bindR (ensurePiHoleEnvCM K) (\<lambda>envCM.
     let desired = withEnvCM envCM desired in
     bindR (readOnlyVolume K) (\<lambda>volume.
     bindR getCluster (\<lambda>cl.
     bindR (UpsertResource K (OStatefulSet (withLimits cl (withVolume volume desired))) stsName None) (\<lambda>_.
     ret ()))))))"

definition areRWPodsReady :: "'w kube \<Rightarrow> ('w rs, bool) prog" where
  "areRWPodsReady K =
     bindR getCluster (\<lambda>cl.
     bindR (wrap ''list RW pods'' (callW (k_list_pods K (clNamespace cl) (sts_labels cl ''readwrite'')))) (\<lambda>pods.
     if pods = [] then ret False
     else ret (list_ex IsPodReady pods)))"

definition asStatefulSet :: "kobj \<Rightarrow> ('s, StatefulSet) prog" where
  "asStatefulSet x = (case x of OStatefulSet ss \<Rightarrow> ret ss | _ \<Rightarrow> panic ''interface conversion'')"

definition areROPodsReady :: "'w kube \<Rightarrow> ('w rs, bool) prog" where
  "areROPodsReady K =
     bindR getCluster (\<lambda>cl.
     let stsName = clName cl @ ''-ro'' in
     bindR (tryR (callW (k_get K StatefulSetKind (clNamespace cl) stsName))) (\<lambda>got.
     case got of
       Inl err \<Rightarrow>
         if IsNotFound err then ret False
         else fail (Wrapf ''unable to get RO statefulset %s'' [FS stsName] err)
     | Inr x \<Rightarrow>
         bindR (asStatefulSet x) (\<lambda>ss.
         if stsReadyReplicas ss = 0 then ret False
         else
         bindR (wrap ''list RO pods'' (callW (k_list_pods K (clNamespace cl) (sts_labels cl ''readonly'')))) (\<lambda>pods.
         if pods = [] then ret False
         else (case stsReplicas ss of
             None \<Rightarrow> panic ''nil pointer dereference''
           | Some n \<Rightarrow> ret (int (length (filter IsPodReady pods)) = sint n))))))"

section \<open>Pod monitor, ingress and service\<close>

definition desired_pod_monitor :: "PiHoleCluster \<Rightarrow> kobj" where
  "desired_pod_monitor cl = OPodMonitor
     \<lparr>kpMeta = mk_meta (clName cl) (clNamespace cl) (instance_labels cl), kpSelector = instance_labels cl,
      kpPort = PtrTo ''metrics'', kpPath = ''/metrics'', kpInterval = ''30s''\<rparr>"

definition podMonitorEnabled :: "PiHoleCluster \<Rightarrow> bool" where
  "podMonitorEnabled cl = (case Monitoring (clSpec cl) of
      None \<Rightarrow> False
    | Some mon \<Rightarrow> (case monPodMonitor mon of None \<Rightarrow> False | Some pm \<Rightarrow> pmEnabled pm))"

definition ensurePodMonitor :: "'w kube \<Rightarrow> ('w rs, unit) prog" where
  "ensurePodMonitor K =
     bindR getCluster (\<lambda>cl.
     if \<not> podMonitorEnabled cl then ret ()
     else bindR (UpsertResource K (desired_pod_monitor cl) (clName cl) None) (\<lambda>_. ret ()))"

definition desired_ingress :: "PiHoleCluster \<Rightarrow> IngressSpec \<Rightarrow> kobj" where
  "desired_ingress cl ing = OIngress
     \<lparr>kiMeta = mk_meta (clName cl) (clNamespace cl) (instance_labels cl), kiHost = ingDomain ing, kiPath = ''/'',
      kiPathType = PtrTo ''Prefix'', kiBackend = clName cl @ ''-rw'', kiPort = 80\<rparr>"

definition ensureIngress :: "'w kube \<Rightarrow> ('w rs, unit) prog" where
  "ensureIngress K =
     bindR getCluster (\<lambda>cl.
     case Ingress (clSpec cl) of
       None \<Rightarrow> ret ()
     | Some ing \<Rightarrow>
         if \<not> ingEnabled ing then ret ()
         else bindR (UpsertResource K (desired_ingress cl ing) (clName cl) None) (\<lambda>_. ret ()))"

text \<open>The labels of the resource are written over the labels of the operator.\<close>

definition merge_labels :: "smap \<Rightarrow> smap \<Rightarrow> smap" where
  "merge_labels base labels = fold (\<lambda>(k, v) m. mput k v m) labels base"

definition base_service :: "PiHoleCluster \<Rightarrow> KService" where
  "base_service cl =
     \<lparr>ksMeta = mk_meta (clName cl @ ''-dns'') (clNamespace cl) (instance_labels cl), ksType = [],
      ksExternalTrafficPolicy = [], ksClusterIP = [],
      ksPorts = [\<lparr>spPortName = ''dns'', spProtocol = ''UDP'', spPort = 53, spTargetPort = 53\<rparr>],
      ksSelector = instance_labels cl\<rparr>"

definition desired_service :: "PiHoleCluster \<Rightarrow> KService" where
  "desired_service cl =
     (let d = base_service cl
      in case Service (clSpec cl) of
        None \<Rightarrow> d\<lparr>ksType := ''ClusterIP''\<rparr>
      | Some sv \<Rightarrow>
          (let d = (if svcType sv \<noteq> [] then d\<lparr>ksType := svcType sv\<rparr> else d\<lparr>ksType := ''ClusterIP''\<rparr>);
               d = (if svcExternalTrafficPolicy sv \<noteq> []
                    then d\<lparr>ksExternalTrafficPolicy := svcExternalTrafficPolicy sv\<rparr> else d);
               d = (if svcClusterIP sv \<noteq> [] then d\<lparr>ksClusterIP := svcClusterIP sv\<rparr> else d);
               d = (if svcAnnotations sv \<noteq> []
                    then d\<lparr>ksMeta := (ksMeta d)\<lparr>omAnnotations := svcAnnotations sv\<rparr>\<rparr> else d)
           in if svcLabels sv \<noteq> []
              then d\<lparr>ksMeta := (ksMeta d)\<lparr>omLabels := merge_labels (omLabels (ksMeta d)) (svcLabels sv)\<rparr>\<rparr>
              else d))"

definition ensureDNSService :: "'w kube \<Rightarrow> ('w rs, unit) prog" where
  "ensureDNSService K =
     bindR getCluster (\<lambda>cl.
     bindR (UpsertResource K (OService (desired_service cl)) (clName cl @ ''-dns'') None) (\<lambda>_. ret ()))"

end
