(* ===== verification/Ensure.thy ===== *)
theory Ensure
  imports Resources
begin

text \<open>
  What each operation of \<open>Resources\<close> makes of the API server: it comes back, it writes no object but its
  own, and it leaves its desired object there. The facts about \<open>UpsertResource\<close> come from the interface
  \<open>api_server\<close>.
\<close>

section \<open>What the operations change of the cluster object\<close>

definition exporterEnabled :: "PiHoleCluster \<Rightarrow> bool" where
  "exporterEnabled cl = (case Monitoring (clSpec cl) of
      None \<Rightarrow> False
    | Some mon \<Rightarrow> (case monExporter mon of None \<Rightarrow> False | Some e \<Rightarrow> expEnabled e))"

text \<open>Only the probes change.\<close>

definition spec_kept :: "PiHoleCluster \<Rightarrow> PiHoleCluster \<Rightarrow> bool" where
  "spec_kept c d \<longleftrightarrow> podMonitorEnabled d = podMonitorEnabled c \<and> exporterEnabled d = exporterEnabled c \<and>
     d = c\<lparr>clSpec := (clSpec c)\<lparr>LivenessProbe := LivenessProbe (clSpec d), ReadinessProbe := ReadinessProbe (clSpec d),
       Monitoring := Monitoring (clSpec d)\<rparr>\<rparr>"

lemma spec_keptD:
  assumes "spec_kept c d"
  shows "clName d = clName c" "clNamespace d = clNamespace c" "clUID d = clUID c" "clStatus d = clStatus c"
    "clFinalizers d = clFinalizers c" "clDeletionTimestamp d = clDeletionTimestamp c"
    "Config (clSpec d) = Config (clSpec c)" "Replicas (clSpec d) = Replicas (clSpec c)"
    "ReadOnlyVolume (clSpec d) = ReadOnlyVolume (clSpec c)" "Sync (clSpec d) = Sync (clSpec c)"
    "Ingress (clSpec d) = Ingress (clSpec c)" "Service (clSpec d) = Service (clSpec c)"
    "Persistence (clSpec d) = Persistence (clSpec c)" "podMonitorEnabled d = podMonitorEnabled c"
    "exporterEnabled d = exporterEnabled c"
proof -
  from assms obtain a b m where d: "d = c\<lparr>clSpec := (clSpec c)\<lparr>LivenessProbe := a, ReadinessProbe := b, Monitoring := m\<rparr>\<rparr>"
    and pm: "podMonitorEnabled d = podMonitorEnabled c" "exporterEnabled d = exporterEnabled c" unfolding spec_kept_def by blast
  show "podMonitorEnabled d = podMonitorEnabled c" "exporterEnabled d = exporterEnabled c" by (rule pm)+
  show "clName d = clName c" by (subst d, simp)
  show "clNamespace d = clNamespace c" by (subst d, simp)
  show "clUID d = clUID c" by (subst d, simp)
  show "clStatus d = clStatus c" by (subst d, simp)
  show "clFinalizers d = clFinalizers c" by (subst d, simp)
  show "clDeletionTimestamp d = clDeletionTimestamp c" by (subst d, simp)
  show "Config (clSpec d) = Config (clSpec c)" by (subst d, simp)
  show "Replicas (clSpec d) = Replicas (clSpec c)" by (subst d, simp)
  show "ReadOnlyVolume (clSpec d) = ReadOnlyVolume (clSpec c)" by (subst d, simp)
  show "Sync (clSpec d) = Sync (clSpec c)" by (subst d, simp)
  show "Ingress (clSpec d) = Ingress (clSpec c)" by (subst d, simp)
  show "Service (clSpec d) = Service (clSpec c)" by (subst d, simp)
  show "Persistence (clSpec d) = Persistence (clSpec c)" by (subst d, simp)
qed

lemma spec_kept_refl: "spec_kept c c"
  by (simp add: spec_kept_def)

lemma spec_keptI:
  assumes "d = c\<lparr>clSpec := (clSpec c)\<lparr>LivenessProbe := a, ReadinessProbe := b, Monitoring := m\<rparr>\<rparr>"
    "podMonitorEnabled d = podMonitorEnabled c" "exporterEnabled d = exporterEnabled c"
  shows "spec_kept c d"
  using assms(2,3) unfolding spec_kept_def by (simp add: assms(1))

lemma spec_kept_trans:
  assumes "spec_kept c d" "spec_kept d e"
  shows "spec_kept c e"
proof -
  from assms(1) obtain a b m where d: "d = c\<lparr>clSpec := (clSpec c)\<lparr>LivenessProbe := a, ReadinessProbe := b, Monitoring := m\<rparr>\<rparr>"
    unfolding spec_kept_def by blast
  from assms(2) obtain a' b' m' where
    e: "e = d\<lparr>clSpec := (clSpec d)\<lparr>LivenessProbe := a', ReadinessProbe := b', Monitoring := m'\<rparr>\<rparr>"
    unfolding spec_kept_def by blast
  have "e = c\<lparr>clSpec := (clSpec c)\<lparr>LivenessProbe := a', ReadinessProbe := b', Monitoring := m'\<rparr>\<rparr>"
    unfolding e d by simp
  then show ?thesis
    by (rule spec_keptI) (use spec_keptD(14,15) [OF assms(1)] spec_keptD(14,15) [OF assms(2)] in simp_all)
qed

lemma defaultProbes_kept: "spec_kept c (defaultProbes c)"
  by (simp add: spec_kept_def defaultProbes_def Let_def podMonitorEnabled_def exporterEnabled_def)

lemma defaultExporterProbes_enabled [simp]: "expEnabled (defaultExporterProbes e) = expEnabled e"
  by (simp add: defaultExporterProbes_def Let_def)

lemma addExporter_kept: "addExporterIfEnabled c ps src = (ps', c') \<Longrightarrow> spec_kept c c'"
  by (auto simp: spec_kept_def addExporterIfEnabled_def Let_def podMonitorEnabled_def exporterEnabled_def split: option.splits if_splits)

section \<open>The operations come back\<close>

text \<open>An invariant of the operator that survives a change of the probes.\<close>

definition probe_closed :: "('w rs \<Rightarrow> bool) \<Rightarrow> bool" where
  "probe_closed I \<longleftrightarrow> outer I \<and> (\<forall>s c. I s \<longrightarrow> spec_kept (cluster s) c \<longrightarrow> I (s\<lparr>cluster := c\<rparr>))"

lemma probe_closedD: "probe_closed I \<Longrightarrow> outer I" "probe_closed I \<Longrightarrow> worldless I"
  by (simp_all add: probe_closed_def outer_worldless)

lemma returns_on_cluster:
  assumes "\<And>s. I s \<Longrightarrow> P (cluster s)" "\<And>c. P c \<Longrightarrow> returns I (k c)"
  shows "returns I (bindR getCluster k)"
  using getCluster_returns _ assms(2)
  by (rule returns_bindR_post) (auto simp: getCluster_def askR_def assms(1))

lemma modCluster_closed:
  assumes "probe_closed I" "\<And>c. spec_kept c (f c)"
  shows "returns I (modCluster f)"
  using assms unfolding modCluster_def probe_closed_def by (auto intro!: returns_modS)

lemma withPassword_returns:
  assumes "typed_get K" "probe_closed I"
  shows "returns I (withPassword K d)"
  unfolding withPassword_def Let_def
  by (intro returns_bindR modCluster_closed [OF assms(2)] defaultProbes_kept getCluster_returns
      getAPISecret_returns [OF assms(1) probe_closedD(2) [OF assms(2)]] returns_basic addExporter_kept)
     (rule prod.collapse [symmetric])

context api_server
begin

lemma upsert_kind:
  assumes run: "UpsertResource K d0 n None s = (Ok r, s')"
  shows "kind_of r = kind_of d0"
proof -
  from run obtain d where d: "set_controller_ref K (cluster s) d0 = Inr d"
    by (cases "set_controller_ref K (cluster s) d0") (simp_all add: upsert_ref_fails)
  have kd: "kind_of d = kind_of d0" using ref_key [OF d] by (simp add: key_of_def)
  obtain got w1 where g: "k_get K (kind_of d) (clNamespace (cluster s)) n (world s) = (got, w1)" by (meson surj_pair)
  show ?thesis
  proof (cases got)
    case (Inl e)
    with run upsert_absent [OF d g [unfolded Inl]] obtain w2 where "k_create K d w1 = (Inr r, w2)"
      by (auto split: if_splits prod.splits sum.splits)
    from create_ok [OF this] kd show ?thesis by (simp add: key_of_def)
  next
    case (Inr ex)
    note U = upsert_present(2) [OF d g [unfolded Inr]]
    let ?t = "s\<lparr>world := w1, upVars := (ex, d)\<rparr>"
    show ?thesis
    proof (cases "ex = d")
      case False
      with run obtain s2 where u: "retry_on_conflict K (refreshAndUpdate K n) ?t = (Ok (), s2)" "r = fst (upVars s2)"
        unfolding U by (simp split: prod.splits res.splits)
      from retried_update_Ok [OF _ u(1)] ref_again [OF d] have "objs w1 (kind_of d, clNamespace (cluster s), n) = Some r"
        using u(2) by auto
      from stored_key [OF this] kd show ?thesis by (simp add: key_of_def)
    qed (use run U kd in simp)
  qed
qed

lemma upsert_then:
  assumes "outer I" "\<And>x. kind_of x = kind_of d \<Longrightarrow> returns I (k x)"
  shows "returns I (bindR (UpsertResource K d n None) k)"
  using UpsertResource_returns [OF assms(1) world_retry] _ assms(2)
  by (rule returns_bindR_post) (auto dest: upsert_kind)

text \<open>An upsert of the claim: it is created, or only its request is written, or nothing is.\<close>

lemma pvc_upsert_run:
  assumes key: "key_of (OPVC p) = (PVCKind, clNamespace (cluster s), n)"
    and run: "UpsertResource K (OPVC p) n (Some (pvcCustomizer K)) s = (r, s')"
  shows "\<exists>w. s' = s\<lparr>world := w\<rparr> \<and>
    ((\<exists>e. r = Err e) \<and> objs w = objs (world s) \<or>
     (\<exists>q. r = Ok (OPVC q) \<and> key_of (OPVC q) = key_of (OPVC p) \<and>
       ((\<exists>d x. objs (world s) (key_of (OPVC p)) = None \<and> set_controller_ref K (cluster s) (OPVC p) = Inr d \<and> like d x \<and>
           objs w = (objs (world s))(key_of (OPVC p) \<mapsto> x)) \<or>
        (\<exists>e. objs (world s) (key_of (OPVC p)) = Some (OPVC e) \<and>
           (if pvcRequests e = pvcRequests p then objs w = objs (world s)
            else (\<exists>x. like (OPVC (e\<lparr>pvcRequests := pvcRequests p\<rparr>)) x \<and>
               objs w = (objs (world s))(key_of (OPVC p) \<mapsto> x)))))))"
proof (cases "set_controller_ref K (cluster s) (OPVC p)")
  case (Inl e)
  with run show ?thesis by (auto simp: upsert_ref_fails intro!: exI [of _ "world s"])
next
  case d: (Inr d)
  from ref_meta [OF d] obtain f where f: "d = OPVC (p\<lparr>pvcMeta := f (pvcMeta p)\<rparr>)" by auto
  have kd: "key_of d = key_of (OPVC p)" using ref_key [OF d] .
  obtain got w1 where g: "k_get K (kind_of d) (clNamespace (cluster s)) n (world s) = (got, w1)" by (meson surj_pair)
  show ?thesis
  proof (cases got)
    case (Inl e)
    obtain y w2 where c: "k_create K d w1 = (y, w2)" by (meson surj_pair)
    note G = get_failed [OF g [unfolded Inl]]
    show ?thesis
    proof (cases y)
      case (Inl e1)
      with run upsert_absent [OF d g [unfolded \<open>got = Inl e\<close>]] c G create_failed [of d w1 e1 w2] show ?thesis
        by (auto split: if_splits)
    next
      case (Inr x)
      note C = create_ok [OF c [unfolded Inr]]
      from C kd key obtain q where q: "x = OPVC q" by (cases x) (auto simp: key_of_def)
      have g0: "IsNotFound e \<Longrightarrow> objs (world s) (key_of (OPVC p)) = None" using G key f by auto
      from run upsert_absent [OF d g [unfolded \<open>got = Inl e\<close>]] c Inr
      have "IsNotFound e \<and> r = Ok x \<and> s' = s\<lparr>world := w2\<rparr> \<or> (\<exists>e. r = Err e) \<and> s' = s\<lparr>world := w1\<rparr>"
        by (auto split: if_splits)
      then show ?thesis
      proof
        assume "IsNotFound e \<and> r = Ok x \<and> s' = s\<lparr>world := w2\<rparr>"
        with C q kd d G g0 show ?thesis by (intro exI [of _ w2]) (simp, blast)
      next
        assume "(\<exists>e. r = Err e) \<and> s' = s\<lparr>world := w1\<rparr>"
        with G show ?thesis by (intro exI [of _ w1]) simp
      qed
    qed
  next
    case (Inr ex)
    note G = get_found [OF g [unfolded Inr]]
    with key f have e0: "objs (world s) (key_of (OPVC p)) = Some ex" by simp
    from stored_key [OF this] obtain e where e: "ex = OPVC e" by (cases ex) (auto simp: key_of_def)
    have ke: "key_of (OPVC (e\<lparr>pvcRequests := pvcRequests p\<rparr>)) = key_of (OPVC p)"
      using stored_key [OF e0] e by (simp add: key_of_def)
    note U = upsert_present(1) [OF d g [unfolded Inr], of "pvcCustomizer K"]
    show ?thesis
    proof (cases "pvcRequests e = pvcRequests p")
      case True
      then have "r = Ok d" "s' = s\<lparr>world := w1\<rparr>"
        using run unfolding U by (simp_all add: pvcCustomizer_def e f asPVC_def bindR_def ret_def)
      with True G e0 e f kd show ?thesis by auto
    next
      case False
      obtain y w2 where c: "k_update K (OPVC (e\<lparr>pvcRequests := pvcRequests p\<rparr>)) w1 = (y, w2)" by (meson surj_pair)
      with False have eff: "(r, s') = (case y of Inl e \<Rightarrow> Err (Wrapf ''update pvc'' [] e) | Inr x \<Rightarrow> Ok x, s\<lparr>world := w2\<rparr>)"
        using run unfolding U
        by (auto simp: pvcCustomizer_def e f asPVC_def bindR_def ret_def ctxR_def callW_def callR_def split: sum.splits)
      show ?thesis
      proof (cases y)
        case (Inl e1)
        with eff c G update_failed show ?thesis by auto
      next
        case (Inr x)
        note C = update_ok [OF c [unfolded Inr]]
        from C ke obtain q where "x = OPVC q" by (cases x) (auto simp: key_of_def)
        with C ke eff Inr G e0 e False show ?thesis by auto
      qed
    qed
  qed
qed

text \<open>What \<open>ensurePiHolePVC\<close> made of the claim, from one state of the server to the next.\<close>

lemma ensurePiHolePVC_run:
  assumes q: "parse_quantity K (fst (pvc_params (cluster s))) = Some v"
    and run: "ensurePiHolePVC K s = (r, s')"
  shows "\<exists>w. s' = s\<lparr>world := w\<rparr> \<and>
    ((\<exists>e. r = Err e) \<and> objs w = objs (world s) \<or>
     (\<exists>q. r = Ok q \<and> key_of (OPVC q) = key_of (OPVC (desired_pvc (cluster s) v)) \<and>
       ((\<exists>d x. objs (world s) (key_of (OPVC (desired_pvc (cluster s) v))) = None \<and>
           set_controller_ref K (cluster s) (OPVC (desired_pvc (cluster s) v)) = Inr d \<and> like d x \<and>
           objs w = (objs (world s))(key_of (OPVC (desired_pvc (cluster s) v)) \<mapsto> x)) \<or>
        (\<exists>e. objs (world s) (key_of (OPVC (desired_pvc (cluster s) v))) = Some (OPVC e) \<and>
           (if pvcRequests e = [(''storage'', v)] then objs w = objs (world s)
            else (\<exists>x. like (OPVC (e\<lparr>pvcRequests := [(''storage'', v)]\<rparr>)) x \<and>
               objs w = (objs (world s))(key_of (OPVC (desired_pvc (cluster s) v)) \<mapsto> x)))))))"
proof -
  let ?p = "desired_pvc (cluster s) v"
  obtain r1 s1 where u: "UpsertResource K (OPVC ?p) (clName (cluster s) @ ''-data'') (Some (pvcCustomizer K)) s = (r1, s1)"
    by (meson surj_pair)
  have key: "key_of (OPVC ?p) = (PVCKind, clNamespace (cluster s), clName (cluster s) @ ''-data'')"
    by (simp add: key_of_def desired_pvc_def mk_meta_def)
  have req: "pvcRequests ?p = [(''storage'', v)]" by (simp add: desired_pvc_def)
  have eq: "ensurePiHolePVC K s = bindR (\<lambda>_. (r1, s1)) asPVC s"
    by (simp add: ensurePiHolePVC_def getCluster_def askR_def bindR_def mustParse_def q ret_def u)
  note P = pvc_upsert_run [OF key u, unfolded req]
  show ?thesis
  proof (cases "\<exists>e. r1 = Err e")
    case True
    with P eq run show ?thesis by (auto simp: bindR_def)
  next
    case False
    with P obtain q where q: "r1 = Ok (OPVC q)" by blast
    with eq run have "r = Ok q" "s' = s1" by (simp_all add: bindR_def asPVC_def ret_def)
    with P q show ?thesis by simp
  qed
qed

end

text \<open>The sizes the resource names can be parsed.\<close>

definition parsable :: "'w kube \<Rightarrow> PiHoleCluster \<Rightarrow> bool" where
  "parsable K cl \<longleftrightarrow> parse_quantity K (fst (pvc_params cl)) \<noteq> None \<and>
     (\<forall>v. ReadOnlyVolume (clSpec cl) = Some v \<longrightarrow> ReadOnlyVolumeType v = ''ephemeral'' \<longrightarrow>
       parse_quantity K (rovSize v) \<noteq> None)"

definition deployable :: "'w kube \<Rightarrow> PiHoleCluster \<Rightarrow> bool" where
  "deployable K cl \<longleftrightarrow> parsable K cl \<and> ReadOnlyVolume (clSpec cl) \<noteq> None"

lemma asCM_returns: "kind_of x = ConfigMapKind \<Longrightarrow> returns I (asConfigMap x)"
  by (cases x) (auto simp: asConfigMap_def intro: returns_intros)

lemma asSTS_returns: "kind_of x = StatefulSetKind \<Longrightarrow> returns I (asStatefulSet x)"
  by (cases x) (auto simp: asStatefulSet_def intro: returns_intros)

lemma desired_kinds [simp]:
  "kind_of (desired_secret cl cfg) = SecretKind" "kind_of (desired_env_cm cl cfg) = ConfigMapKind"
  "kind_of (desired_pod_monitor cl) = PodMonitorKind" "kind_of (desired_ingress cl ing) = IngressKind"
  by (simp_all add: desired_secret_def desired_env_cm_def desired_pod_monitor_def desired_ingress_def)

context api_server
begin

lemma ensurePiHolePVC_returns:
  assumes I: "worldless I" "\<And>s. I s \<Longrightarrow> parsable K (cluster s)"
  shows "returns I (ensurePiHolePVC K)"
proof -
  have "I s' \<and> settled r" if i: "I s" and run: "ensurePiHolePVC K s = (r, s')" for s r s'
  proof -
    from I(2) [OF i] obtain v where v: "parse_quantity K (fst (pvc_params (cluster s))) = Some v"
      by (auto simp: parsable_def)
    from ensurePiHolePVC_run [OF v run] have "\<exists>w. s' = s\<lparr>world := w\<rparr>" "settled r" by (blast, auto)
    with I(1) i show ?thesis by (auto simp: worldless_def)
  qed
  then show ?thesis by (intro returnsI keepsI) blast+
qed

lemma single_upserts_return:
  assumes "outer I"
  shows "returns I (ensureAPISecret K)" "returns I (ensurePiHoleEnvCM K)" "returns I (ensurePodMonitor K)"
    "returns I (ensureIngress K)" "returns I (ensureDNSService K)"
proof -
  note W = outer_worldless [OF assms]
  show "returns I (ensureAPISecret K)"
    unfolding ensureAPISecret_def
    by (rule returns_bindR [OF getCluster_returns])
       (auto intro!: typed_get_returns [OF typed W] upsert_then [OF assms] asSecret_returns returns_bindR returns_if
         returns_basic split: option.splits)
  show "returns I (ensurePiHoleEnvCM K)"
    unfolding ensurePiHoleEnvCM_def
    by (rule returns_bindR [OF getCluster_returns])
       (auto intro!: upsert_then [OF assms] asCM_returns returns_bindR returns_if returns_basic split: option.splits)
  show "returns I (ensurePodMonitor K)" "returns I (ensureIngress K)" "returns I (ensureDNSService K)"
    unfolding ensurePodMonitor_def ensureIngress_def ensureDNSService_def
    by (auto intro!: returns_bindR [OF getCluster_returns] upsert_then [OF assms] returns_if returns_basic
        split: option.splits)
qed

lemma ensureReadWriteSTS_returns:
  assumes I: "probe_closed I" "\<And>s. I s \<Longrightarrow> parsable K (cluster s)"
  shows "returns I (ensureReadWriteSTS K)"
  unfolding ensureReadWriteSTS_def Let_def
  by (intro returns_bindR getCluster_returns withPassword_returns [OF typed I(1)] upsert_then
      ensurePiHolePVC_returns single_upserts_return(2) probe_closedD [OF I(1)] returns_basic I(2))

lemma readOnlyVolume_returns:
  assumes "\<And>s. I s \<Longrightarrow> deployable K (cluster s)"
  shows "returns I (readOnlyVolume K)"
  unfolding readOnlyVolume_def
  by (rule returns_on_cluster [where P = "deployable K", OF assms])
     (auto simp: deployable_def parsable_def mustParse_def intro!: returns_bindR returns_if returns_basic
       split: option.splits)

lemma ensureReadOnlySTS_returns:
  assumes I: "probe_closed I" "\<And>s. I s \<Longrightarrow> deployable K (cluster s)"
  shows "returns I (ensureReadOnlySTS K)"
  unfolding ensureReadOnlySTS_def Let_def
  by (intro returns_bindR getCluster_returns withPassword_returns [OF typed I(1)] upsert_then returns_if
      readOnlyVolume_returns single_upserts_return(2) probe_closedD [OF I(1)] returns_basic I(2))

end

text \<open>The API server fills in \<open>spec.replicas\<close> of a stateful set.\<close>

definition sized_sets :: "'w kube \<Rightarrow> bool" where
  "sized_sets K \<longleftrightarrow> (\<forall>kd ns n w ss w'. k_get K kd ns n w = (Inr (OStatefulSet ss), w') \<longrightarrow> stsReplicas ss \<noteq> None)"

lemma readiness_returns:
  assumes W: "worldless I"
  shows "returns I (areRWPodsReady K)" "typed_get K \<Longrightarrow> sized_sets K \<Longrightarrow> returns I (areROPodsReady K)"
proof -
  show "returns I (areRWPodsReady K)"
    unfolding areRWPodsReady_def
    by (intro returns_bindR getCluster_returns returns_ctxR worldless_calls W returns_if returns_basic)
  assume K: "typed_get K" "sized_sets K"
  have step: "returns I (bindR (tryR (callW (k_get K StatefulSetKind ns n))) (\<lambda>got. case got of
       Inl err \<Rightarrow> if IsNotFound err then ret False else fail (f err)
     | Inr x \<Rightarrow> bindR (asStatefulSet x) (\<lambda>ss. if stsReadyReplicas ss = 0 then ret False
         else bindR (wrap g (callW (k_list_pods K ns ls))) (\<lambda>pods. if pods = [] then ret False
         else (case stsReplicas ss of None \<Rightarrow> panic m | Some k \<Rightarrow> ret (h pods k))))))" for ns n f g ls m h
  proof (rule returns_bindR_post [where P = "\<lambda>got. \<forall>x. got = Inr x \<longrightarrow> (\<exists>ss. x = OStatefulSet ss \<and> stsReplicas ss \<noteq> None)"])
    show "returns I (tryR (callW (k_get K StatefulSetKind ns n)))"
      by (intro returns_tryR worldless_calls W)
  next
    fix s got s'
    assume "tryR (callW (k_get K StatefulSetKind ns n)) s = (Ok got, s')"
    then have "\<exists>w. k_get K StatefulSetKind ns n (world s) = (got, w)"
      by (auto simp: tryR_def callW_def callR_def split: prod.splits sum.splits)
    then obtain w where w: "k_get K StatefulSetKind ns n (world s) = (got, w)" by blast
    show "\<forall>x. got = Inr x \<longrightarrow> (\<exists>ss. x = OStatefulSet ss \<and> stsReplicas ss \<noteq> None)"
    proof (intro allI impI)
      fix x
      assume "got = Inr x"
      with w K(1) have "kind_of x = StatefulSetKind" unfolding typed_get_def by (metis fst_conv)
      then obtain ss where "x = OStatefulSet ss" by (cases x) simp_all
      with w K(2) \<open>got = Inr x\<close> show "\<exists>ss. x = OStatefulSet ss \<and> stsReplicas ss \<noteq> None"
        unfolding sized_sets_def by blast
    qed
  next
    fix got :: "gerror + kobj"
    assume "\<forall>x. got = Inr x \<longrightarrow> (\<exists>ss. x = OStatefulSet ss \<and> stsReplicas ss \<noteq> None)"
    then show "returns I (case got of Inl err \<Rightarrow> if IsNotFound err then ret False else fail (f err)
     | Inr x \<Rightarrow> bindR (asStatefulSet x) (\<lambda>ss. if stsReadyReplicas ss = 0 then ret False
         else bindR (wrap g (callW (k_list_pods K ns ls))) (\<lambda>pods. if pods = [] then ret False
         else (case stsReplicas ss of None \<Rightarrow> panic m | Some k \<Rightarrow> ret (h pods k)))))"
    proof (cases got)
      case (Inr x)
      assume "\<forall>x. got = Inr x \<longrightarrow> (\<exists>ss. x = OStatefulSet ss \<and> stsReplicas ss \<noteq> None)"
      with Inr obtain ss k where "x = OStatefulSet ss" "stsReplicas ss = Some k" by auto
      moreover have "bindR (ret ss) k' = k' ss" for k' :: "StatefulSet \<Rightarrow> ('a rs, bool) prog"
        by (simp add: bindR_def ret_def fun_eq_iff)
      ultimately show ?thesis using Inr
        by (auto simp: asStatefulSet_def intro!: returns_if returns_basic returns_bindR returns_ctxR worldless_calls W)
    qed (auto intro: returns_if returns_basic)
  qed
  show "returns I (areROPodsReady K)"
    unfolding areROPodsReady_def Let_def by (rule returns_bindR [OF getCluster_returns step])
qed

section \<open>The shape of the stateful sets\<close>

abbreviation main_container :: "StatefulSet \<Rightarrow> Container" where
  "main_container s \<equiv> psContainers (stsPodSpec s) ! 0"

definition sts_head :: "StatefulSet \<Rightarrow> ObjMeta \<times> int32 option \<times> smap \<times> smap" where
  "sts_head s = (stsMeta s, stsReplicas s, stsSelector s, stsTemplateLabels s)"

lemma onPodSpec_simps [simp]:
  "sts_head (onPodSpec f s) = sts_head s" "stsPodSpec (onPodSpec f s) = f (stsPodSpec s)"
  by (simp_all add: onPodSpec_def sts_head_def)

lemma onMain_simps [simp]:
  "sts_head (onMain f s) = sts_head s"
  "psVolumes (stsPodSpec (onMain f s)) = psVolumes (stsPodSpec s)"
  "psContainers (stsPodSpec (onMain f s)) = (psContainers (stsPodSpec s))[0 := f (main_container s)]"
  by (simp_all add: onMain_def)

lemma with_heads [simp]:
  "sts_head (withProbes cl s) = sts_head s" "sts_head (withVolume v s) = sts_head s"
  "sts_head (withEnvCM cm s) = sts_head s" "sts_head (withLimits cl s) = sts_head s"
  by (simp_all add: withProbes_def withVolume_def withEnvCM_def withLimits_def Let_def split: option.splits)

text \<open>The later steps leave the environment, the probes and the number of containers.\<close>

definition main_core :: "StatefulSet \<Rightarrow> nat \<times> string \<times> EnvVar list \<times> Probe option \<times> Probe option" where
  "main_core s = (length (psContainers (stsPodSpec s)), ctName (main_container s), ctEnv (main_container s),
     ctLivenessProbe (main_container s), ctReadinessProbe (main_container s))"

lemma with_cores:
  assumes "psContainers (stsPodSpec s) \<noteq> []"
  shows "main_core (withVolume v s) = main_core s" "main_core (withEnvCM cm s) = main_core s"
    "main_core (withLimits cl s) = main_core s"
  using assms
  by (auto simp: main_core_def withVolume_def withEnvCM_def withLimits_def Let_def split: option.splits)

lemma with_containers:
  "(psContainers (stsPodSpec (withVolume v s)) = []) = (psContainers (stsPodSpec s) = [])"
  "(psContainers (stsPodSpec (withEnvCM cm s)) = []) = (psContainers (stsPodSpec s) = [])"
  "(psContainers (stsPodSpec (withLimits cl s)) = []) = (psContainers (stsPodSpec s) = [])"
  by (auto simp: withVolume_def withEnvCM_def withLimits_def Let_def split: option.splits)

lemma with_volumes:
  "psVolumes (stsPodSpec (withVolume v s)) = [\<lparr>volName = ''pihole-data'', volSource = v\<rparr>]"
  "psVolumes (stsPodSpec (withEnvCM cm s)) = psVolumes (stsPodSpec s)"
  "psVolumes (stsPodSpec (withLimits cl s)) = psVolumes (stsPodSpec s)"
  by (auto simp: withVolume_def withEnvCM_def withLimits_def Let_def split: option.splits)

lemma defaultProbes_probes:
  "LivenessProbe (clSpec (defaultProbes c)) \<noteq> None" "ReadinessProbe (clSpec (defaultProbes c)) \<noteq> None"
  "LivenessProbe (clSpec c) \<noteq> None \<Longrightarrow> LivenessProbe (clSpec (defaultProbes c)) = LivenessProbe (clSpec c)"
  "ReadinessProbe (clSpec c) \<noteq> None \<Longrightarrow> ReadinessProbe (clSpec (defaultProbes c)) = ReadinessProbe (clSpec c)"
  by (auto simp: defaultProbes_def Let_def)

lemma addExporter_containers:
  "\<exists>cs. psContainers (fst (addExporterIfEnabled cl ps src)) = psContainers ps @ cs \<and>
     length cs = (if exporterEnabled cl then 1 else 0)"
  "psVolumes (fst (addExporterIfEnabled cl ps src)) = psVolumes ps"
  by (auto simp: addExporterIfEnabled_def exporterEnabled_def Let_def split: option.splits)

text \<open>The name of the secret with the password.\<close>

definition password_secret :: "PiHoleCluster \<Rightarrow> string" where
  "password_secret cl = (case Config (clSpec cl) of
      Some cfg \<Rightarrow> (case apSecretRef (cfgAPIPassword cfg) of
          Some ref \<Rightarrow> sksName ref
        | None \<Rightarrow> clName cl @ ''-api-password'')
    | None \<Rightarrow> clName cl @ ''-api-password'')"

definition has_secret_ref :: "PiHoleCluster \<Rightarrow> bool" where
  "has_secret_ref cl = (case Config (clSpec cl) of
      Some cfg \<Rightarrow> apSecretRef (cfgAPIPassword cfg) \<noteq> None
    | None \<Rightarrow> False)"

text \<open>The server holds what it makes of \<open>d\<close> with the cluster as the owner.\<close>

definition established :: "'w kube \<Rightarrow> ('w \<Rightarrow> (okey \<rightharpoonup> kobj)) \<Rightarrow> (kobj \<Rightarrow> kobj \<Rightarrow> bool) \<Rightarrow> kobj \<Rightarrow> 'w rs \<Rightarrow> bool" where
  "established K objs like d s \<longleftrightarrow>
     (\<exists>d' x. set_controller_ref K (cluster s) d = Inr d' \<and> like d' x \<and> objs (world s) (key_of d) = Some x)"

text \<open>From \<open>s\<close> to \<open>t\<close> only the objects with a key in \<open>ks\<close> were written, and only probes changed.\<close>

definition writes_only :: "('w \<Rightarrow> (okey \<rightharpoonup> kobj)) \<Rightarrow> okey set \<Rightarrow> 'w rs \<Rightarrow> 'w rs \<Rightarrow> bool" where
  "writes_only objs ks s t \<longleftrightarrow> spec_kept (cluster s) (cluster t) \<and>
     (\<forall>k. k \<notin> ks \<longrightarrow> objs (world t) k = objs (world s) k)"

lemma writes_only_refl: "writes_only objs ks s s"
  by (simp add: writes_only_def spec_kept_refl)

lemma writes_only_trans:
  "writes_only objs ks s t \<Longrightarrow> writes_only objs ls t u \<Longrightarrow> ks \<subseteq> ms \<Longrightarrow> ls \<subseteq> ms \<Longrightarrow> writes_only objs ms s u"
  unfolding writes_only_def using spec_kept_trans by (metis subsetD)

definition secret_key :: "PiHoleCluster \<Rightarrow> okey" where
  "secret_key cl = (SecretKind, clNamespace cl, clName cl @ ''-api-password'')"

definition env_key :: "PiHoleCluster \<Rightarrow> okey" where
  "env_key cl = (ConfigMapKind, clNamespace cl, clName cl @ ''-env'')"

definition claim_key :: "PiHoleCluster \<Rightarrow> okey" where
  "claim_key cl = (PVCKind, clNamespace cl, clName cl @ ''-data'')"

definition sts_key :: "PiHoleCluster \<Rightarrow> string \<Rightarrow> okey" where
  "sts_key cl suffix = (StatefulSetKind, clNamespace cl, clName cl @ suffix)"

definition service_key :: "PiHoleCluster \<Rightarrow> okey" where
  "service_key cl = (ServiceKind, clNamespace cl, clName cl @ ''-dns'')"

definition ingress_key :: "PiHoleCluster \<Rightarrow> okey" where
  "ingress_key cl = (IngressKind, clNamespace cl, clName cl)"

definition monitor_key :: "PiHoleCluster \<Rightarrow> okey" where
  "monitor_key cl = (PodMonitorKind, clNamespace cl, clName cl)"

lemmas keys = secret_key_def env_key_def claim_key_def sts_key_def service_key_def ingress_key_def monitor_key_def

lemma keys_kept:
  assumes "spec_kept c d"
  shows "secret_key d = secret_key c" "env_key d = env_key c" "claim_key d = claim_key c" "sts_key d x = sts_key c x"
    "service_key d = service_key c" "ingress_key d = ingress_key c" "monitor_key d = monitor_key c"
  by (simp_all add: keys spec_keptD [OF assms])

lemma service_meta: "ksMeta (desired_service cl) = mk_meta (clName cl @ ''-dns'') (clNamespace cl) (instance_labels cl)
    \<lparr>omAnnotations := omAnnotations (ksMeta (desired_service cl)), omLabels := omLabels (ksMeta (desired_service cl))\<rparr>"
  by (auto simp: desired_service_def base_service_def mk_meta_def Let_def split: option.splits)

lemma service_name: "omName (ksMeta (desired_service cl)) = clName cl @ ''-dns''"
  "omNamespace (ksMeta (desired_service cl)) = clNamespace cl"
  by (subst service_meta, simp add: mk_meta_def)+

lemma desired_keys [simp]:
  "key_of (desired_secret cl cfg) = secret_key cl" "key_of (desired_env_cm cl cfg) = env_key cl"
  "key_of (OPVC (desired_pvc cl q)) = claim_key cl" "key_of (desired_pod_monitor cl) = monitor_key cl"
  "key_of (desired_ingress cl ing) = ingress_key cl" "key_of (OService (desired_service cl)) = service_key cl"
  by (simp_all add: key_of_def keys desired_secret_def desired_env_cm_def desired_pvc_def desired_pod_monitor_def
      desired_ingress_def service_name mk_meta_def)

text \<open>The secret is there, and a secret of the user's has the key.\<close>

definition password_ready :: "('w \<Rightarrow> (okey \<rightharpoonup> kobj)) \<Rightarrow> PiHoleCluster \<Rightarrow> 'w \<Rightarrow> bool" where
  "password_ready objs cl w \<longleftrightarrow>
     (\<exists>sec. objs w (SecretKind, clNamespace cl, password_secret cl) = Some (OSecret sec) \<and>
        (has_secret_ref cl \<longrightarrow> map_of (scData sec) (password_key cl) \<noteq> None))"

definition password_var :: "PiHoleCluster \<Rightarrow> EnvVar" where
  "password_var cl = secret_env ''FTLCONF_webserver_api_password''
     \<lparr>sksName = password_secret cl, sksKey = password_key cl\<rparr>"

text \<open>\<open>d\<close> is \<open>d0\<close> with the probes, the password in the environment of the first container, and the side
  car.\<close>

definition wired :: "PiHoleCluster \<Rightarrow> StatefulSet \<Rightarrow> StatefulSet \<Rightarrow> bool" where
  "wired cl d0 d \<longleftrightarrow> sts_head d = sts_head d0 \<and> psContainers (stsPodSpec d) \<noteq> [] \<and>
     main_core d = (if exporterEnabled cl then 2 else 1, ctName (main_container d0),
       ctEnv (main_container d0) @ [password_var cl],
       LivenessProbe (clSpec (defaultProbes cl)), ReadinessProbe (clSpec (defaultProbes cl)))"

section \<open>What is read and written\<close>

context api_server
begin

lemma bindR_value: "m s = x \<Longrightarrow> bindR m k s = bindR (\<lambda>_. x) k s"
  by (simp add: bindR_def)

lemma get_secret_run:
  assumes "bindR (ctxR f (callW (k_get K SecretKind ns n))) asSecret s = (r, s')"
  shows "\<exists>w. s' = s\<lparr>world := w\<rparr> \<and> objs w = objs (world s) \<and>
    ((\<exists>e. r = Err e) \<or> (\<exists>sec. r = Ok sec \<and> objs (world s) (SecretKind, ns, n) = Some (OSecret sec)))"
proof -
  obtain got w where g: "k_get K SecretKind ns n (world s) = (got, w)" by (meson surj_pair)
  show ?thesis
  proof (cases got)
    case (Inl e)
    with assms g get_failed [OF g [unfolded Inl]] show ?thesis
      by (auto simp: bindR_def ctxR_def callW_def callR_def)
  next
    case (Inr x)
    note G = get_found [OF g [unfolded Inr]]
    then have "kind_of x = SecretKind" using stored_key [of _ "(SecretKind, ns, n)" x] by (auto simp: key_of_def)
    then obtain sec where "x = OSecret sec" by (cases x) simp_all
    with assms g Inr G show ?thesis
      by (auto simp: bindR_def ctxR_def callW_def callR_def asSecret_def ret_def)
  qed
qed

lemma checked_secret_run:
  assumes "bindR (ctxR c (callW (k_get K SecretKind ns n))) (\<lambda>x. bindR (asSecret x) (\<lambda>sec.
      if map_of (scData sec) key = None then fail (f sec) else ret (g sec))) s = (r, s')"
  shows "\<exists>w. s' = s\<lparr>world := w\<rparr> \<and> objs w = objs (world s) \<and>
    ((\<exists>e. r = Err e) \<or> (\<exists>sec. r = Ok (g sec) \<and> objs (world s) (SecretKind, ns, n) = Some (OSecret sec) \<and>
       map_of (scData sec) key \<noteq> None))"
proof -
  have assoc: "bindR m (\<lambda>x. bindR (h x) k) t = bindR (bindR m h) k t" for m h k t
    by (simp add: bindR_def split: prod.splits res.splits)
  let ?A = "ctxR c (callW (k_get K SecretKind ns n))"
  let ?k = "\<lambda>sec. if map_of (scData sec) key = None then fail (f sec) else ret (g sec)"
  obtain r1 s1 where v: "bindR ?A asSecret s = (r1, s1)" by (meson surj_pair)
  from get_secret_run [OF v] obtain w where "s1 = s\<lparr>world := w\<rparr>" "objs w = objs (world s)"
    "(\<exists>e. r1 = Err e) \<or> (\<exists>sec. r1 = Ok sec \<and> objs (world s) (SecretKind, ns, n) = Some (OSecret sec))" by blast
  moreover have "bindR (\<lambda>_. (r1, s1)) ?k s = (r, s')"
  proof -
    have "bindR (\<lambda>_. (r1, s1)) ?k s = bindR (bindR ?A asSecret) ?k s"
      by (simp add: bindR_def [of _ ?k] v)
    also have "\<dots> = (r, s')" unfolding assoc [symmetric] by (rule assms)
    finally show ?thesis .
  qed
  ultimately show ?thesis
    by (intro exI [of _ w]) (auto simp: bindR_def ret_def fail_def split: if_splits)
qed

lemma getAPISecret_run:
  assumes run: "getAPISecret K s = (r, s')"
  shows "\<exists>w. s' = s\<lparr>world := w\<rparr> \<and> objs w = objs (world s) \<and>
    ((\<exists>e. r = Err e) \<or> (\<exists>sec. r = Ok sec \<and>
       objs (world s) (SecretKind, clNamespace (cluster s), password_secret (cluster s)) = Some (OSecret sec) \<and>
       (has_secret_ref (cluster s) \<longrightarrow> map_of (scData sec) (password_key (cluster s)) \<noteq> None)))"
proof (cases "has_secret_ref (cluster s)")
  case False
  have "getAPISecret K s = bindR (ctxR (Wrapf ''reading API secret %s/%s''
      [FS (clNamespace (cluster s)), FS (clName (cluster s) @ ''-api-password'')])
      (callW (k_get K SecretKind (clNamespace (cluster s)) (password_secret (cluster s))))) asSecret s"
    using False
    by (auto simp: getAPISecret_def getCluster_def askR_def password_secret_def has_secret_ref_def bindR_eq
        split: option.splits)
  from get_secret_run [OF run [unfolded this]] False show ?thesis by auto
next
  case True
  then obtain cfg ref where c: "Config (clSpec (cluster s)) = Some cfg" "apSecretRef (cfgAPIPassword cfg) = Some ref"
    by (auto simp: has_secret_ref_def split: option.splits)
  from run c have v: "bindR (wrap ''failed to read referenced secret''
     (callW (k_get K SecretKind (clNamespace (cluster s)) (sksName ref)))) (\<lambda>x. bindR (asSecret x) (\<lambda>sec.
       if map_of (scData sec) (sksKey ref) = None
       then fail (Errorf ''key %q not found in secret %s/%s''
                  [FS (sksKey ref), FS (omNamespace (scMeta sec)), FS (omName (scMeta sec))])
       else ret sec)) s = (r, s')" by (simp add: getAPISecret_def getCluster_def askR_def bindR_eq)
  from checked_secret_run [OF v] show ?thesis by (auto simp: password_secret_def password_key_def c)
qed

lemma defaultProbes_same:
  "Config (clSpec (defaultProbes c)) = Config (clSpec c)" "clName (defaultProbes c) = clName c"
  "clNamespace (defaultProbes c) = clNamespace c" "Monitoring (clSpec (defaultProbes c)) = Monitoring (clSpec c)"
  by (simp_all add: defaultProbes_def Let_def)

lemma password_env:
  "withPassword K d0 s =
     (let s1 = s\<lparr>cluster := defaultProbes (cluster s)\<rparr>; cl = cluster s1
      in case getAPISecret K s1 of
        (Ok sec, s2) \<Rightarrow>
          (let src = \<lparr>sksName = omName (scMeta sec), sksKey = password_key cl\<rparr>;
               d = onMain (\<lambda>c. c\<lparr>ctEnv := ctEnv c @ [secret_env ''FTLCONF_webserver_api_password'' src]\<rparr>) (withProbes cl d0);
               out = addExporterIfEnabled (cluster s2) (stsPodSpec d) src
           in (Ok (d\<lparr>stsPodSpec := fst out\<rparr>), s2\<lparr>cluster := snd out\<rparr>))
      | (Err e, s2) \<Rightarrow> (Err e, s2)
      | (Panic m, s2) \<Rightarrow> (Panic m, s2)
      | (Blocked, s2) \<Rightarrow> (Blocked, s2))"
  by (simp add: withPassword_def Let_def bindR_def modCluster_def modS_def getCluster_def askR_def ret_def
      split: prod.splits res.splits)

lemma withPassword_run:
  assumes one: "psContainers (stsPodSpec d0) = [c0]" and run: "withPassword K d0 s = (r, s')"
  shows "objs (world s') = objs (world s) \<and> spec_kept (cluster s) (cluster s') \<and>
    (\<forall>d. r = Ok d \<longrightarrow> password_ready objs (cluster s) (world s) \<and> wired (cluster s) d0 d)"
proof -
  let ?cl = "defaultProbes (cluster s)" and ?s1 = "s\<lparr>cluster := defaultProbes (cluster s)\<rparr>"
  note same = defaultProbes_same [of "cluster s"]
  have names: "password_secret ?cl = password_secret (cluster s)" "password_key ?cl = password_key (cluster s)"
    "has_secret_ref ?cl = has_secret_ref (cluster s)" "exporterEnabled ?cl = exporterEnabled (cluster s)"
    by (simp_all add: password_secret_def password_key_def has_secret_ref_def exporterEnabled_def same
        split: option.splits)
  obtain q s2 where g: "getAPISecret K ?s1 = (q, s2)" by (meson surj_pair)
  from getAPISecret_run [OF g] obtain w where w: "s2 = ?s1\<lparr>world := w\<rparr>" "objs w = objs (world s)"
    and q: "(\<exists>e. q = Err e) \<or> (\<exists>sec. q = Ok sec \<and>
       objs (world s) (SecretKind, clNamespace (cluster s), password_secret (cluster s)) = Some (OSecret sec) \<and>
       (has_secret_ref (cluster s) \<longrightarrow> map_of (scData sec) (password_key (cluster s)) \<noteq> None))"
    by (auto simp: names same)
  show ?thesis
  proof (cases "\<exists>e. q = Err e")
    case True
    with run g w show ?thesis by (auto simp: password_env Let_def defaultProbes_kept)
  next
    case False
    with q obtain sec where sec: "q = Ok sec"
       "objs (world s) (SecretKind, clNamespace (cluster s), password_secret (cluster s)) = Some (OSecret sec)"
       "has_secret_ref (cluster s) \<longrightarrow> map_of (scData sec) (password_key (cluster s)) \<noteq> None" by blast
    have nm: "omName (scMeta sec) = password_secret (cluster s)" using stored_key [OF sec(2)] by (simp add: key_of_def)
    let ?src = "\<lparr>sksName = password_secret (cluster s), sksKey = password_key (cluster s)\<rparr>"
    let ?d = "onMain (\<lambda>c. c\<lparr>ctEnv := ctEnv c @ [secret_env ''FTLCONF_webserver_api_password'' ?src]\<rparr>) (withProbes ?cl d0)"
    let ?out = "addExporterIfEnabled ?cl (stsPodSpec ?d) ?src"
    have r: "r = Ok (?d\<lparr>stsPodSpec := fst ?out\<rparr>)" "s' = s2\<lparr>cluster := snd ?out\<rparr>"
      using run g sec(1) w(1) by (simp_all add: password_env Let_def nm names)
    obtain cs where cs: "psContainers (fst ?out) = psContainers (stsPodSpec ?d) @ cs"
      "length cs = (if exporterEnabled ?cl then 1 else 0)" using addExporter_containers by blast
    have kept: "spec_kept (cluster s) (snd ?out)"
      by (rule spec_kept_trans [OF defaultProbes_kept addExporter_kept [OF prod.collapse [symmetric]]])
    have "main_core (?d\<lparr>stsPodSpec := fst ?out\<rparr>) = (if exporterEnabled (cluster s) then 2 else 1, ctName c0,
         ctEnv c0 @ [password_var (cluster s)], LivenessProbe (clSpec ?cl), ReadinessProbe (clSpec ?cl))"
      using cs one defaultProbes_probes [of "cluster s"]
      by (simp add: main_core_def withProbes_def Let_def names password_var_def)
    moreover have "sts_head (?d\<lparr>stsPodSpec := p\<rparr>) = sts_head ?d" for p by (simp add: sts_head_def)
    moreover have "psContainers (fst ?out) \<noteq> []" using cs one by (auto simp: withProbes_def Let_def)
    ultimately have "wired (cluster s) d0 (?d\<lparr>stsPodSpec := fst ?out\<rparr>)"
      by (simp add: wired_def one)
    with r w sec kept show ?thesis by (auto simp: password_ready_def)
  qed
qed

lemma upsert_run:
  assumes key: "key_of d = (kd, clNamespace (cluster s), n)" and run: "UpsertResource K d n None s = (r, s')"
  shows "writes_only objs {key_of d} s s' \<and> cluster s' = cluster s \<and>
    ((\<exists>e. r = Err e) \<and> objs (world s') = objs (world s) \<or>
     (\<exists>x. r = Ok x \<and> key_of x = key_of d \<and> established K objs like d s'))"
proof -
  have "returns (\<lambda>t. cluster t = cluster s) (UpsertResource K d n None)"
    by (rule UpsertResource_returns [OF _ world_retry]) (simp_all add: outer_def)
  from keepsD [OF returns_keeps [OF this] _ run] returnsD [OF this _ run]
  have c: "cluster s' = cluster s" and r: "settled r" by simp_all
  show ?thesis
  proof (cases "\<exists>e. r = Err e")
    case True
    with upsert_Err run c show ?thesis by (auto simp: writes_only_def spec_kept_refl)
  next
    case False
    with r obtain x where x: "r = Ok x" by (auto simp: settled_def)
    from upsert_Ok [OF key run [unfolded x]] c x show ?thesis
      by (auto simp: writes_only_def spec_kept_refl established_def)
  qed
qed

lemma upsert_then_run:
  assumes key: "key_of d = (kd, clNamespace (cluster s), n)"
    and k: "\<And>x. key_of x = key_of d \<Longrightarrow> \<exists>y. k x = ret y \<and> P y"
    and run: "bindR (UpsertResource K d n None) k s = (r, s')"
  shows "writes_only objs {key_of d} s s' \<and> cluster s' = cluster s \<and>
    ((\<exists>e. r = Err e) \<and> objs (world s') = objs (world s) \<or>
     (\<exists>y. r = Ok y \<and> P y \<and> established K objs like d s'))"
proof -
  obtain q s1 where u: "UpsertResource K d n None s = (q, s1)" by (meson surj_pair)
  note U = upsert_run [OF key u]
  show ?thesis
  proof (cases "\<exists>e. q = Err e")
    case True
    with U run u show ?thesis by (auto simp: bindR_def)
  next
    case False
    with U obtain x where x: "q = Ok x" "key_of x = key_of d" by auto
    from k [OF x(2)] obtain y where "k x = ret y" "P y" by blast
    with U run u x have "r = Ok y" "s' = s1" by (auto simp: bindR_def ret_def)
    with U x \<open>P y\<close> show ?thesis by auto
  qed
qed

lemma skip_run: "ret y s = (r, s') \<Longrightarrow> writes_only objs ks s s' \<and> cluster s' = cluster s \<and> r = Ok y \<and> s' = s"
  by (auto simp: ret_def writes_only_refl)

text \<open>The operations that write one object: when they apply, on error nothing was written, on success the
  object is there.\<close>

lemma ensureAPISecret_run:
  assumes run: "ensureAPISecret K s = (r, s')"
  shows "writes_only objs {secret_key (cluster s)} s s' \<and> cluster s' = cluster s \<and>
    ((\<exists>e. r = Err e) \<and> objs (world s') = objs (world s) \<or> r = Ok None \<or>
     (\<exists>sec. r = Ok (Some sec) \<and> omName (scMeta sec) = password_secret (cluster s) \<and>
       (\<forall>cfg. Config (clSpec (cluster s)) = Some cfg \<longrightarrow> apSecretRef (cfgAPIPassword cfg) = None \<longrightarrow>
          established K objs like (desired_secret (cluster s) cfg) s')))"
proof (cases "Config (clSpec (cluster s))")
  case None
  with run have "ret None s = (r, s')" by (simp add: ensureAPISecret_def getCluster_def askR_def bindR_def)
  from skip_run [OF this] show ?thesis by blast
next
  case (Some cfg)
  note go = ensureAPISecret_def getCluster_def askR_def
  show ?thesis
  proof (cases "apSecretRef (cfgAPIPassword cfg)")
    case ref: (Some ref)
    from run Some ref have v: "bindR (wrap ''failed to read referenced secret''
       (callW (k_get K SecretKind (clNamespace (cluster s)) (sksName ref)))) (\<lambda>x. bindR (asSecret x) (\<lambda>sec.
         if map_of (scData sec) (sksKey ref) = None
         then fail (Errorf ''key %q not found in secret %s/%s''
                    [FS (sksKey ref), FS (omNamespace (scMeta sec)), FS (omName (scMeta sec))])
         else ret (Some sec))) s = (r, s')" by (simp add: go bindR_eq)
    from checked_secret_run [OF v] obtain w where w: "s' = s\<lparr>world := w\<rparr>" "objs w = objs (world s)"
      "(\<exists>e. r = Err e) \<or> (\<exists>sec. r = Ok (Some sec) \<and>
         objs (world s) (SecretKind, clNamespace (cluster s), sksName ref) = Some (OSecret sec))" by blast
    then show ?thesis using Some ref
      by (auto simp: writes_only_def spec_kept_refl password_secret_def key_of_def dest!: stored_key)
  next
    case none: None
    show ?thesis
    proof (cases "apPassword (cfgAPIPassword cfg) = []")
      case True
      with run Some none have "ret None s = (r, s')" by (simp add: go bindR_def)
      from skip_run [OF this] show ?thesis by blast
    next
      case False
      with run Some none have u: "bindR (UpsertResource K (desired_secret (cluster s) cfg) (clName (cluster s) @ ''-api-password'') None)
         (\<lambda>x. bindR (asSecret x) (\<lambda>sec. ret (Some sec))) s = (r, s')" by (simp add: go bindR_eq)
      have "\<exists>y. bindR (asSecret x) (\<lambda>sec. ret (Some sec)) = ret y \<and>
          (\<exists>sec. y = Some sec \<and> omName (scMeta sec) = password_secret (cluster s))"
        if "key_of x = key_of (desired_secret (cluster s) cfg)" for x
        using that Some none unfolding desired_keys
        by (cases x) (auto simp: key_of_def keys asSecret_def bindR_def ret_def password_secret_def fun_eq_iff)
      from upsert_then_run [OF _ this u] Some show ?thesis by (auto simp: keys)
    qed
  qed
qed

lemma ensurePiHoleEnvCM_run:
  assumes run: "ensurePiHoleEnvCM K s = (r, s')"
  shows "writes_only objs {env_key (cluster s)} s s' \<and> cluster s' = cluster s \<and>
    ((\<exists>e. r = Err e) \<and> objs (world s') = objs (world s) \<or> r = Ok None \<or>
     (\<exists>cm cfg. r = Ok (Some cm) \<and> omName (cmMeta cm) = clName (cluster s) @ ''-env'' \<and>
       Config (clSpec (cluster s)) = Some cfg \<and> cfgEnvVars cfg \<noteq> [] \<and>
       established K objs like (desired_env_cm (cluster s) cfg) s'))"
proof -
  note go = ensurePiHoleEnvCM_def getCluster_def askR_def
  show ?thesis
  proof (cases "\<exists>cfg. Config (clSpec (cluster s)) = Some cfg \<and> cfgEnvVars cfg \<noteq> []")
    case False
    with run have "ret None s = (r, s')" by (auto simp: go bindR_def split: option.splits if_splits)
    from skip_run [OF this] show ?thesis by blast
  next
    case True
    then obtain cfg where c: "Config (clSpec (cluster s)) = Some cfg" "cfgEnvVars cfg \<noteq> []" by blast
    with run have u: "bindR (UpsertResource K (desired_env_cm (cluster s) cfg) (clName (cluster s) @ ''-env'') None)
         (\<lambda>x. bindR (asConfigMap x) (\<lambda>cm. ret (Some cm))) s = (r, s')" by (simp add: go bindR_eq)
    have "\<exists>y. bindR (asConfigMap x) (\<lambda>cm. ret (Some cm)) = ret y \<and>
        (\<exists>cm. y = Some cm \<and> omName (cmMeta cm) = clName (cluster s) @ ''-env'')"
      if "key_of x = key_of (desired_env_cm (cluster s) cfg)" for x
      using that unfolding desired_keys
      by (cases x) (auto simp: key_of_def keys asConfigMap_def bindR_def ret_def fun_eq_iff)
    from upsert_then_run [OF _ this u] c show ?thesis by (auto simp: keys)
  qed
qed

lemma ensurePodMonitor_run:
  assumes "ensurePodMonitor K s = (r, s')"
  shows "writes_only objs {monitor_key (cluster s)} s s' \<and> cluster s' = cluster s \<and>
    ((\<exists>e. r = Err e) \<and> objs (world s') = objs (world s) \<or>
     r = Ok () \<and> (podMonitorEnabled (cluster s) \<longrightarrow> established K objs like (desired_pod_monitor (cluster s)) s'))"
proof (cases "podMonitorEnabled (cluster s)")
  case False
  with assms have "ret () s = (r, s')" by (simp add: ensurePodMonitor_def getCluster_def askR_def bindR_def)
  from skip_run [OF this] False show ?thesis by blast
next
  case True
  with assms have "bindR (UpsertResource K (desired_pod_monitor (cluster s)) (clName (cluster s)) None) (\<lambda>_. ret ()) s = (r, s')"
    by (simp add: ensurePodMonitor_def getCluster_def askR_def bindR_def)
  from upsert_then_run [OF _ _ this, where P = "\<lambda>_. True"] show ?thesis by (auto simp: keys)
qed

lemma ensureIngress_run:
  assumes "ensureIngress K s = (r, s')"
  shows "writes_only objs {ingress_key (cluster s)} s s' \<and> cluster s' = cluster s \<and>
    ((\<exists>e. r = Err e) \<and> objs (world s') = objs (world s) \<or>
     r = Ok () \<and> (\<forall>ing. Ingress (clSpec (cluster s)) = Some ing \<longrightarrow> ingEnabled ing \<longrightarrow>
       established K objs like (desired_ingress (cluster s) ing) s'))"
proof (cases "\<exists>ing. Ingress (clSpec (cluster s)) = Some ing \<and> ingEnabled ing")
  case False
  with assms have "ret () s = (r, s')"
    by (auto simp: ensureIngress_def getCluster_def askR_def bindR_def split: option.splits if_splits)
  from skip_run [OF this] False show ?thesis by blast
next
  case True
  then obtain ing where i: "Ingress (clSpec (cluster s)) = Some ing" "ingEnabled ing" by blast
  with assms have "bindR (UpsertResource K (desired_ingress (cluster s) ing) (clName (cluster s)) None) (\<lambda>_. ret ()) s = (r, s')"
    by (simp add: ensureIngress_def getCluster_def askR_def bindR_def)
  from upsert_then_run [OF _ _ this, where P = "\<lambda>_. True"] i show ?thesis by (auto simp: keys)
qed

lemma ensureDNSService_run:
  assumes "ensureDNSService K s = (r, s')"
  shows "writes_only objs {service_key (cluster s)} s s' \<and> cluster s' = cluster s \<and>
    ((\<exists>e. r = Err e) \<and> objs (world s') = objs (world s) \<or>
     r = Ok () \<and> established K objs like (OService (desired_service (cluster s))) s')"
proof -
  from assms have "bindR (UpsertResource K (OService (desired_service (cluster s))) (clName (cluster s) @ ''-dns'') None)
      (\<lambda>_. ret ()) s = (r, s')"
    by (simp add: ensureDNSService_def getCluster_def askR_def bindR_def)
  from upsert_then_run [OF _ _ this, where P = "\<lambda>_. True"] show ?thesis by (auto simp: keys)
qed

text \<open>The claim: also when its size cannot be parsed and the code panics.\<close>

lemma ensurePiHolePVC_writes:
  assumes "ensurePiHolePVC K s = (r, s')"
  shows "writes_only objs {claim_key (cluster s)} s s' \<and> cluster s' = cluster s \<and>
    (\<forall>q. r = Ok q \<longrightarrow> omName (pvcMeta q) = clName (cluster s) @ ''-data'' \<and>
       objs (world s') (claim_key (cluster s)) \<noteq> None)"
proof (cases "parse_quantity K (fst (pvc_params (cluster s)))")
  case None
  with assms show ?thesis
    by (auto simp: ensurePiHolePVC_def getCluster_def askR_def bindR_def mustParse_def panic_def writes_only_refl)
next
  case (Some v)
  from ensurePiHolePVC_run [OF Some assms] obtain w where w: "s' = s\<lparr>world := w\<rparr>"
    and c: "(\<exists>e. r = Err e) \<and> objs w = objs (world s) \<or>
     (\<exists>q. r = Ok q \<and> key_of (OPVC q) = claim_key (cluster s) \<and>
       (\<forall>k. k \<noteq> claim_key (cluster s) \<longrightarrow> objs w k = objs (world s) k) \<and> objs w (claim_key (cluster s)) \<noteq> None)"
    unfolding desired_keys by (fastforce split: if_splits)
  then show ?thesis
    by (auto simp: writes_only_def spec_kept_refl keys key_of_def)
qed

end

text \<open>\<open>frame\<close>: outside \<open>F\<close> the objects are those of \<open>f\<close>, and only probes of \<open>c\<close> were changed.\<close>

definition frame :: "('w \<Rightarrow> (okey \<rightharpoonup> kobj)) \<Rightarrow> PiHoleCluster \<Rightarrow> okey set \<Rightarrow> (okey \<rightharpoonup> kobj) \<Rightarrow> 'w rs \<Rightarrow> bool" where
  "frame objs c F f s \<longleftrightarrow> spec_kept c (cluster s) \<and> (\<forall>k. k \<notin> F \<longrightarrow> objs (world s) k = f k)"

lemma frame_step: "frame objs c F f s \<Longrightarrow> writes_only objs G s t \<Longrightarrow> G \<subseteq> F \<Longrightarrow> frame objs c F f t"
  unfolding frame_def writes_only_def using spec_kept_trans by (metis subsetD)

lemma frame_keeps:
  assumes "\<And>s r s'. m s = (r, s') \<Longrightarrow> writes_only objs (g (cluster s)) s s'"
    and "\<And>d. spec_kept c d \<Longrightarrow> g d \<subseteq> F"
  shows "keeps (frame objs c F f) m"
proof (rule keepsI)
  fix s r s'
  assume i: "frame objs c F f s" and run: "m s = (r, s')"
  then have "g (cluster s) \<subseteq> F" by (intro assms(2)) (simp add: frame_def)
  from frame_step [OF i assms(1) [OF run] this] show "frame objs c F f s'" .
qed

lemma frame_writes:
  assumes "keeps (frame objs (cluster s) F (objs (world s))) m" "m s = (r, s')"
  shows "writes_only objs F s s'"
  using keepsD [OF assms(1) _ assms(2)] by (simp add: frame_def writes_only_def spec_kept_refl)

lemma keeps_on_cluster:
  assumes "\<And>d. spec_kept c d \<Longrightarrow> keeps (frame objs c F f) (k d)"
  shows "keeps (frame objs c F f) (bindR getCluster k)"
  by (rule keeps_bindR_post [OF returns_keeps [OF getCluster_returns] _ assms])
     (auto simp: frame_def getCluster_def askR_def)

text \<open>The volume the block \<open>readOnlyVolume\<close> asks for.\<close>

definition replica_volume :: "'w kube \<Rightarrow> ReadOnlyVolumeSpec \<Rightarrow> VolumeSource \<Rightarrow> bool" where
  "replica_volume K v src \<longleftrightarrow>
     (if ReadOnlyVolumeType v = ''ephemeral''
      then \<exists>q. parse_quantity K (rovSize v) = Some q \<and>
        src = VolEphemeral ''pihole-data'' (rovAccessModes v) (rovStorageClassName v) q
      else src = VolEmptyDir)"

lemma new_sts_head: "sts_head (new_sts cl n role k) = (mk_meta n (clNamespace cl) (sts_labels cl role), Some k,
    sts_labels cl role, sts_labels cl role)"
  "psContainers (stsPodSpec (new_sts cl n role k)) = [pihole_container]"
  by (simp_all add: new_sts_def sts_head_def Int32Ptr_def)

lemma key_of_sts: "key_of (OStatefulSet d) = (StatefulSetKind, omNamespace (fst (sts_head d)), omName (fst (sts_head d)))"
  by (simp add: key_of_def sts_head_def)

context api_server
begin

lemma withPassword_frame:
  "psContainers (stsPodSpec d0) = [c0] \<Longrightarrow> keeps (frame objs c F f) (withPassword K d0)"
  by (rule frame_keeps [where g = "\<lambda>_. {}"]) (auto simp: writes_only_def dest: withPassword_run)

lemma sts_upsert_key:
  assumes "spec_kept c0 c" "spec_kept c0 (cluster t)" "sts_head d = sts_head (new_sts c (clName c @ suf) role n)"
  shows "key_of (OStatefulSet d) = (StatefulSetKind, clNamespace (cluster t), clName c @ suf)"
    "key_of (OStatefulSet d) = sts_key c0 suf"
  using spec_keptD(1,2) [OF assms(1)] spec_keptD(1,2) [OF assms(2)]
  by (simp_all add: key_of_sts assms(3) new_sts_head mk_meta_def keys)

lemma sts_upsert_frame:
  assumes "spec_kept c0 c" "sts_head d = sts_head (new_sts c (clName c @ suf) role n)" "sts_key c0 suf \<in> F"
  shows "keeps (frame objs c0 F f) (UpsertResource K (OStatefulSet d) (clName c @ suf) None)"
proof (rule keepsI)
  fix t q t'
  assume t: "frame objs c0 F f t" and u: "UpsertResource K (OStatefulSet d) (clName c @ suf) None t = (q, t')"
  then have "spec_kept c0 (cluster t)" by (simp add: frame_def)
  note key = sts_upsert_key [OF assms(1) this assms(2)]
  show "frame objs c0 F f t'"
    using frame_step [OF t, of "{sts_key c0 suf}"] upsert_run [OF key(1) u] assms(3) by (simp add: key(2))
qed

lemma parts_frame:
  "claim_key c \<in> F \<Longrightarrow> keeps (frame objs c F f) (ensurePiHolePVC K)"
  "env_key c \<in> F \<Longrightarrow> keeps (frame objs c F f) (ensurePiHoleEnvCM K)"
proof -
  show "claim_key c \<in> F \<Longrightarrow> keeps (frame objs c F f) (ensurePiHolePVC K)"
    by (rule frame_keeps [where g = "\<lambda>c. {claim_key c}"]) (auto simp: keys_kept dest: ensurePiHolePVC_writes)
  show "env_key c \<in> F \<Longrightarrow> keeps (frame objs c F f) (ensurePiHoleEnvCM K)"
    by (rule frame_keeps [where g = "\<lambda>c. {env_key c}"]) (auto simp: keys_kept dest: ensurePiHoleEnvCM_run)
qed

lemma withPassword_head:
  assumes "withPassword K (new_sts c n role k) s = (Ok d, s')"
  shows "sts_head d = sts_head (new_sts c n role k)"
  using withPassword_run [OF new_sts_head(2) assms] by (auto simp: wired_def)

lemma ensureReadWriteSTS_writes:
  assumes run: "ensureReadWriteSTS K s = (r, s')"
  shows "writes_only objs {claim_key (cluster s), env_key (cluster s), sts_key (cluster s) ''-rw''} s s'"
proof -
  let ?F = "{claim_key (cluster s), env_key (cluster s), sts_key (cluster s) ''-rw''}"
  let ?I = "frame objs (cluster s) ?F (objs (world s))"
  have "keeps ?I (ensureReadWriteSTS K)"
    unfolding ensureReadWriteSTS_def Let_def
  proof (rule keeps_on_cluster)
    fix c
    assume c: "spec_kept (cluster s) c"
    let ?n = "clName c @ ''-rw''"
    show "keeps ?I (bindR (withPassword K (new_sts c ?n ''readwrite'' 1)) (\<lambda>desired.
       bindR (ensurePiHolePVC K) (\<lambda>pvc. bindR (ensurePiHoleEnvCM K) (\<lambda>envCM. bindR getCluster (\<lambda>cl.
       bindR (UpsertResource K (OStatefulSet (withLimits cl (withEnvCM envCM (withVolume (VolPVC (omName (pvcMeta pvc))) desired))))
         ?n None) (\<lambda>_. ret ()))))))"
      by (rule keeps_bindR_post [OF withPassword_frame [OF new_sts_head(2)] withPassword_head])
         (auto intro!: keeps_bindR parts_frame keeps_on_cluster keeps_basic sts_upsert_frame [OF c])
  qed
  from frame_writes [OF this run] show ?thesis .
qed

lemma readOnlyVolume_run: "readOnlyVolume K s = (r, s') \<Longrightarrow> s' = s"
  by (auto simp: readOnlyVolume_def getCluster_def askR_def bindR_def mustParse_def ret_def panic_def
      split: option.splits if_splits)

lemma ensureReadOnlySTS_writes:
  assumes run: "ensureReadOnlySTS K s = (r, s')"
  shows "writes_only objs {env_key (cluster s), sts_key (cluster s) ''-ro''} s s'"
proof -
  let ?F = "{env_key (cluster s), sts_key (cluster s) ''-ro''}"
  let ?I = "frame objs (cluster s) ?F (objs (world s))"
  have vol: "keeps ?I (readOnlyVolume K)" by (rule keepsI) (auto dest: readOnlyVolume_run)
  have "keeps ?I (ensureReadOnlySTS K)"
    unfolding ensureReadOnlySTS_def Let_def
  proof (intro keeps_on_cluster keeps_if keeps_basic)
    fix c
    assume c: "spec_kept (cluster s) c"
    let ?n = "clName c @ ''-ro''"
    show "keeps ?I (bindR (withPassword K (new_sts c ?n ''readonly'' (Replicas (clSpec c)))) (\<lambda>desired.
       bindR (ensurePiHoleEnvCM K) (\<lambda>envCM. bindR (readOnlyVolume K) (\<lambda>volume. bindR getCluster (\<lambda>cl.
       bindR (UpsertResource K (OStatefulSet (withLimits cl (withVolume volume (withEnvCM envCM desired)))) ?n None)
         (\<lambda>_. ret ()))))))"
      by (rule keeps_bindR_post [OF withPassword_frame [OF new_sts_head(2)] withPassword_head])
         (auto intro!: keeps_bindR parts_frame vol keeps_on_cluster keeps_basic sts_upsert_frame [OF c])
  qed
  from frame_writes [OF this run] show ?thesis .
qed

lemma wired_with:
  assumes "wired c d0 d"
  shows "wired c d0 (withVolume v d)" "wired c d0 (withEnvCM cm d)" "wired c d0 (withLimits cl d)"
  using assms by (simp_all add: wired_def with_cores with_containers)

lemma established_key:
  assumes "sts_head d = sts_head (new_sts c (clName c @ suf) role n)" "spec_kept c (cluster t)"
    and "UpsertResource K (OStatefulSet d) (clName c @ suf) None t = (Ok x, t')"
  shows "established K objs like (OStatefulSet d) t'"
  using upsert_run [OF sts_upsert_key(1) [OF spec_kept_refl assms(2,1)] assms(3)] by auto

lemma ensureReadWriteSTS_Ok:
  assumes run: "ensureReadWriteSTS K s = (Ok (), s')"
  shows "\<exists>d. established K objs like (OStatefulSet d) s' \<and>
    wired (cluster s) (new_sts (cluster s) (clName (cluster s) @ ''-rw'') ''readwrite'' 1) d \<and>
    psVolumes (stsPodSpec d) = [\<lparr>volName = ''pihole-data'', volSource = VolPVC (clName (cluster s) @ ''-data'')\<rparr>] \<and>
    password_ready objs (cluster s) (world s) \<and> objs (world s') (claim_key (cluster s)) \<noteq> None"
proof -
  let ?c = "cluster s" let ?n = "clName ?c @ ''-rw''"
  from run obtain d1 s1 pvc s2 cm s3 x where pw: "withPassword K (new_sts ?c ?n ''readwrite'' 1) s = (Ok d1, s1)"
    and pvc: "ensurePiHolePVC K s1 = (Ok pvc, s2)" and cm: "ensurePiHoleEnvCM K s2 = (Ok cm, s3)"
    and up: "UpsertResource K (OStatefulSet (withLimits (cluster s3)
       (withEnvCM cm (withVolume (VolPVC (omName (pvcMeta pvc))) d1)))) ?n None s3 = (Ok x, s')"
    unfolding ensureReadWriteSTS_def Let_def getCluster_def by (auto elim!: bindR_OkE askR_OkE)
  let ?d = "withLimits (cluster s3) (withEnvCM cm (withVolume (VolPVC (omName (pvcMeta pvc))) d1))"
  note P = withPassword_run [OF new_sts_head(2) pw]
  then have k1: "spec_kept ?c (cluster s1)" and w: "wired ?c (new_sts ?c ?n ''readwrite'' 1) d1" by auto
  have k2: "spec_kept ?c (cluster s3)" and c2: "cluster s2 = cluster s1"
    and nm: "omName (pvcMeta pvc) = clName ?c @ ''-data''" "objs (world s2) (claim_key ?c) \<noteq> None"
    using k1 ensurePiHolePVC_writes [OF pvc] ensurePiHoleEnvCM_run [OF cm] spec_keptD(1) [OF k1] keys_kept [OF k1]
    by auto
  have wd: "wired ?c (new_sts ?c ?n ''readwrite'' 1) ?d" using w by (intro wired_with)
  then have h: "sts_head ?d = sts_head (new_sts ?c ?n ''readwrite'' 1)" by (simp add: wired_def)
  have "objs (world s') (claim_key ?c) \<noteq> None"
  proof -
    from upsert_run [OF sts_upsert_key(1) [OF spec_kept_refl k2 h] up]
    have "objs (world s') (claim_key ?c) = objs (world s3) (claim_key ?c)"
      by (simp add: writes_only_def sts_upsert_key(2) [OF spec_kept_refl k2 h] keys)
    moreover have "objs (world s3) (claim_key ?c) = objs (world s2) (claim_key ?c)"
      using ensurePiHoleEnvCM_run [OF cm] by (simp add: writes_only_def keys)
    ultimately show ?thesis using nm by simp
  qed
  moreover have "established K objs like (OStatefulSet ?d) s'" by (rule established_key [OF h k2 up])
  moreover have "psVolumes (stsPodSpec ?d) = [\<lparr>volName = ''pihole-data'', volSource = VolPVC (clName ?c @ ''-data'')\<rparr>]"
    by (simp add: with_volumes nm)
  ultimately show ?thesis using wd P by blast
qed

lemma ensureReadOnlySTS_Ok:
  assumes run: "ensureReadOnlySTS K s = (Ok (), s')" and pos: "0 < sint (Replicas (clSpec (cluster s)))"
  shows "\<exists>d v src. established K objs like (OStatefulSet d) s' \<and>
    wired (cluster s) (new_sts (cluster s) (clName (cluster s) @ ''-ro'') ''readonly'' (Replicas (clSpec (cluster s)))) d \<and>
    ReadOnlyVolume (clSpec (cluster s)) = Some v \<and> replica_volume K v src \<and>
    psVolumes (stsPodSpec d) = [\<lparr>volName = ''pihole-data'', volSource = src\<rparr>] \<and>
    password_ready objs (cluster s) (world s)"
proof -
  let ?c = "cluster s" let ?n = "clName ?c @ ''-ro''" let ?k = "Replicas (clSpec ?c)"
  from run pos obtain d1 s1 cm s2 src s3 x where pw: "withPassword K (new_sts ?c ?n ''readonly'' ?k) s = (Ok d1, s1)"
    and cm: "ensurePiHoleEnvCM K s1 = (Ok cm, s2)" and vol: "readOnlyVolume K s2 = (Ok src, s3)"
    and up: "UpsertResource K (OStatefulSet (withLimits (cluster s3) (withVolume src (withEnvCM cm d1)))) ?n None s3 = (Ok x, s')"
    unfolding ensureReadOnlySTS_def Let_def getCluster_def by (auto elim!: bindR_OkE askR_OkE split: if_splits)
  let ?d = "withLimits (cluster s3) (withVolume src (withEnvCM cm d1))"
  note P = withPassword_run [OF new_sts_head(2) pw]
  then have k1: "spec_kept ?c (cluster s1)" and w: "wired ?c (new_sts ?c ?n ''readonly'' ?k) d1" by auto
  have s3: "s3 = s2" using readOnlyVolume_run [OF vol] .
  have c2: "cluster s2 = cluster s1" using ensurePiHoleEnvCM_run [OF cm] by blast
  have k3: "spec_kept ?c (cluster s3)" using k1 c2 s3 by simp
  from vol c2 spec_keptD(9) [OF k1] obtain v where "ReadOnlyVolume (clSpec ?c) = Some v" "replica_volume K v src"
    by (auto simp: readOnlyVolume_def getCluster_def askR_def bindR_def mustParse_def ret_def panic_def
        replica_volume_def split: option.splits if_splits)
  moreover have wd: "wired ?c (new_sts ?c ?n ''readonly'' ?k) ?d" using w by (intro wired_with)
  then have h: "sts_head ?d = sts_head (new_sts ?c ?n ''readonly'' ?k)" by (simp add: wired_def)
  have "established K objs like (OStatefulSet ?d) s'" by (rule established_key [OF h k3 up])
  moreover have "psVolumes (stsPodSpec ?d) = [\<lparr>volName = ''pihole-data'', volSource = src\<rparr>]"
    by (simp add: with_volumes)
  ultimately show ?thesis using wd P by blast
qed

end

end
