(* ===== verification/ApiLaws.thy ===== *)
theory ApiLaws
  imports ApiClient
begin

text \<open>
  What the operations of \<open>ApiClient\<close> guarantee against any server, clock and decoder: the mutex is
  free again after every operation and no operation blocks, a session changes only by a successful
  authentication, and exactly which requests are sent, with which session.
\<close>

section \<open>The mutex and the identity of a client\<close>

text \<open>The fields no operation writes.\<close>

definition identity :: "APIClient \<Rightarrow> string \<times> duration \<times> bool \<times> string" where
  "identity c = (BaseURL c, cltTimeout c, cltSkipTLS c, password c)"

definition cl_inv :: "string \<times> duration \<times> bool \<times> string \<Rightarrow> bool \<Rightarrow> 'w cst \<Rightarrow> bool" where
  "cl_inv k b s \<longleftrightarrow> identity (fst s) = k \<and> mu (fst s) = b"

abbreviation free :: "string \<times> duration \<times> bool \<times> string \<Rightarrow> 'w cst \<Rightarrow> bool" where
  "free k \<equiv> cl_inv k False"

lemma cl_inv_pair [simp]: "cl_inv k b (c, w) \<longleftrightarrow> identity c = k \<and> mu c = b"
  by (simp add: cl_inv_def)

lemma identity_upd [simp]:
  "identity (c\<lparr>sessionID := x\<rparr>) = identity c" "identity (c\<lparr>validity := v\<rparr>) = identity c"
  "identity (c\<lparr>mu := b\<rparr>) = identity c"
  by (simp_all add: identity_def)

lemma client_parts_returns [returns_intros]:
  "returns (\<lambda>s. P (fst s)) (newRequest N ctx meth url b)"
  "returns (\<lambda>s. P (fst s)) (Do N req)"
  "returns (\<lambda>s. P (fst s)) (now N)"
  "returns (\<lambda>s. P (fst s)) client"
  "returns (\<lambda>s. P (fst s)) (pureR x)"
  "returns (\<lambda>s. P (fst s)) (askR (\<lambda>(c, w). case boundary N w of (b, w') \<Rightarrow> (b, (c, w'))))"
  unfolding newRequest_def Do_def now_def client_def pureR_def
  by (cases x; auto intro!: returns_intros split: prod.splits option.splits)+

lemma cl_inv_fst: "cl_inv k b = (\<lambda>s. identity (fst s) = k \<and> mu (fst s) = b)"
  by (simp add: fun_eq_iff cl_inv_def)

lemmas cl_inv_parts [returns_intros] =
  client_parts_returns [where P = "\<lambda>c. identity c = k \<and> mu c = b" for k b, folded cl_inv_fst]

lemma modC_cl_inv [returns_intros]:
  "(\<And>c. identity c = k \<and> mu c = b \<Longrightarrow> identity (f c) = k \<and> mu (f c) = b) \<Longrightarrow> returns (cl_inv k b) (modC f)"
  unfolding modC_def by (auto intro!: returns_modS)

lemma doAuth_returns [returns_intros]: "returns (cl_inv k b) (doAuth N)"
  unfolding doAuth_def Let_def by (intro returns_intros) auto

lemma pause_sel: "kept_by (\<lambda>s. P (fst s)) (pause_of (sel N ctx))"
  by (auto simp: kept_by_def pause_of_def sel_def case_prod_beta)

lemma pause_cl_inv [intro]: "kept_by (cl_inv k b) (pause_of (sel N ctx))"
  using pause_sel [where P = "\<lambda>c. identity c = k \<and> mu c = b"] by (simp add: cl_inv_fst)

lemma retry_returns [returns_intros]:
  "returns (cl_inv k b) f \<Longrightarrow> returns (cl_inv k b) (retryWithBackoff (sel N ctx) pihole_backoff f)"
  by (rule backoff.run_settled) auto

lemma locked_returns [returns_intros]:
  assumes "returns (cl_inv k True) m"
  shows "returns (free k) (locked m)"
proof (rule returnsI)
  have out: "free k s' \<and> settled r" if "free k s" "locked m s = (r, s')" for s r s'
  proof -
    obtain c w where s: "s = (c, w)" by (cases s)
    obtain q t where m: "m (c\<lparr>mu := True\<rparr>, w) = (q, t)" by (cases "m (c\<lparr>mu := True\<rparr>, w)")
    have "cl_inv k True (c\<lparr>mu := True\<rparr>, w)" using that(1) s by simp
    from keepsD [OF returns_keeps [OF assms] this m] returnsD [OF assms this m]
    have "identity (fst t) = k" "settled q" by (auto simp: cl_inv_def)
    then show ?thesis
      using that s m by (cases t; cases q) (auto simp: locked_def bindR_def Lock_def)
  qed
  then show "keeps (free k) (locked m)" by (blast intro: keepsI)
  show "settled r" if "free k s" "locked m s = (r, s')" for s r s'
    using out [OF that] by blast
qed

lemma Authenticate_returns [returns_intros]: "returns (free k) (Authenticate N)"
  unfolding Authenticate_def by (intro returns_intros)

text \<open>\<open>ensureAuth\<close> as one step: read the clock, and authenticate if the session has run out.\<close>

lemma ensureAuth_run:
  assumes "\<not> mu c" "time_now N w = (t, w1)"
  shows "ensureAuth N (c, w) = (if validity c < t then Authenticate N (c, w1) else (Ok (), (c, w1)))"
  using assms
  by (cases c) (simp add: ensureAuth_def bindR_def Lock_def Unlock_def client_def now_def askR_def
        modC_def modS_def Let_def ret_def)

lemma ensureAuth_returns [returns_intros]: "returns (free k) (ensureAuth N)"
proof (rule returnsI)
  have out: "free k s' \<and> settled r" if "free k s" "ensureAuth N s = (r, s')" for s r s'
  proof -
    obtain c w where s: "s = (c, w)" by (cases s)
    obtain t w1 where t: "time_now N w = (t, w1)" by (cases "time_now N w")
    from that s have f: "free k (c, w1)" by simp
    have run: "(if validity c < t then Authenticate N (c, w1) else (Ok (), (c, w1))) = (r, s')"
      using that s ensureAuth_run [OF _ t, of c] by simp
    show ?thesis
    proof (cases "validity c < t")
      case True
      with run have "Authenticate N (c, w1) = (r, s')" by simp
      then show ?thesis
        using keepsD [OF returns_keeps [OF Authenticate_returns] f] returnsD [OF Authenticate_returns f]
        by blast
    next
      case False
      with run f show ?thesis by auto
    qed
  qed
  then show "keeps (free k) (ensureAuth N)" by (blast intro: keepsI)
  show "settled r" if "free k s" "ensureAuth N s = (r, s')" for s r s'
    using out [OF that] by blast
qed

lemma operations_return [returns_intros]:
  "returns (free k) (DownloadTeleporter N ctx)"
  "returns (free k) (UploadTeleporter N ctx d)"
  "returns (free k) (GetAdLists N ctx)"
  "returns (free k) (PostAdList N ctx addr)"
  "returns (free k) (DeleteAdList N ctx addr)"
  "returns (free k) (RunGravity N ctx)"
  unfolding DownloadTeleporter_def UploadTeleporter_def doUpload_def GetAdLists_def PostAdList_def
    DeleteAdList_def RunGravity_def Let_def
  by (intro returns_intros)+

section \<open>Sessions\<close>

lemma doAuth_Err_client: "doAuth N (c, w) = (Err e, (c', w')) \<Longrightarrow> c' = c"
  unfolding doAuth_def Let_def bindR_def client_def askR_def ctxR_def newRequest_def Do_def callR_def
    pureR_def fail_def ret_def modC_def modS_def now_def
  by (auto split: option.splits sum.splits if_splits prod.splits res.splits)

text \<open>\<open>granted N c c'\<close>: \<open>c'\<close> is \<open>c\<close> with the session of a valid answer of the server.\<close>

definition granted :: "'w net \<Rightarrow> APIClient \<Rightarrow> APIClient \<Rightarrow> bool" where
  "granted N c c' \<longleftrightarrow> (\<exists>(resp :: http_resp) a t. rspStatus resp = 200 \<and>
      dec_auth N (take MaxResponseSize (rspBody resp)) = Inr a \<and> auValid a \<and>
      c' = c\<lparr>sessionID := auSID a, validity := t + seconds (auValidity a)\<rparr>)"

lemma grantedI:
  fixes resp :: http_resp
  shows "rspStatus resp = 200 \<Longrightarrow> dec_auth N (take MaxResponseSize (rspBody resp)) = Inr a \<Longrightarrow> auValid a \<Longrightarrow>
   c' = c\<lparr>sessionID := auSID a, validity := t + seconds (auValidity a)\<rparr> \<Longrightarrow> granted N c c'"
  unfolding granted_def by blast

lemma granted_unlock:
  "granted N (c\<lparr>mu := True\<rparr>) c1 \<Longrightarrow> \<not> mu c \<Longrightarrow> granted N c (c1\<lparr>mu := False\<rparr>)"
  unfolding granted_def by (cases c) force

lemma ReadAllLimit_Inr: "ReadAllLimit n r = Inr b \<Longrightarrow> b = take n (rspBody r)"
  by (auto simp: ReadAllLimit_def ReadAll_def split: if_splits option.splits)

lemma doAuth_Ok_session:
  assumes "doAuth N (c, w) = (Ok (), (c', w'))"
  shows "granted N c c'"
proof -
  from assms obtain resp :: http_resp and b a t where st: "rspStatus resp = 200"
    and rd: "ReadAllLimit MaxResponseSize resp = Inr b" and dec: "dec_auth N b = Inr a" and v: "auValid a"
    and c': "c' = c\<lparr>sessionID := auSID a, validity := t + seconds (auValidity a)\<rparr>"
    unfolding doAuth_def Let_def bindR_def client_def askR_def ctxR_def newRequest_def Do_def callR_def
      pureR_def fail_def ret_def modC_def modS_def now_def
    by (auto split: option.splits sum.splits if_splits prod.splits res.splits)
  show ?thesis
    using st dec [unfolded ReadAllLimit_Inr [OF rd]] v c' by (rule grantedI)
qed

lemma Authenticate_run:
  assumes "\<not> mu c" "Authenticate N (c, w) = (r, (c', w'))"
  obtains c1 where "retryWithBackoff (sel N Background) pihole_backoff (doAuth N) (c\<lparr>mu := True\<rparr>, w) = (r, (c1, w'))"
    and "c' = c1\<lparr>mu := False\<rparr>"
proof -
  obtain q c1 w1 where run:
    "retryWithBackoff (sel N Background) pihole_backoff (doAuth N) (c\<lparr>mu := True\<rparr>, w) = (q, (c1, w1))"
    by (metis prod.collapse)
  have "cl_inv (identity c) True (c\<lparr>mu := True\<rparr>, w)" by simp
  from returnsD [OF retry_returns [OF doAuth_returns] this run] have "settled q" .
  then show ?thesis
    using that assms run by (cases q) (auto simp: Authenticate_def locked_def bindR_def Lock_def)
qed


text \<open>The witness: a server that grants the session \<open>s1\<close> for 300 seconds, at time 7.\<close>

definition granting_net :: "nat net" where
  "granting_net = \<lparr>http_do = (\<lambda>_ _ r w. (Inr \<lparr>rspStatus = 200, rspBody = ''ok'', rspReadErr = None\<rparr>, Suc w)),
     url_err = (\<lambda>_. None),
     dec_auth = (\<lambda>_. Inr \<lparr>auValid = True, auSID = ''s1'', auValidity = 300\<rparr>),
     dec_lists = (\<lambda>_ _. Inr []), time_now = (\<lambda>w. (7, w)), wait = (\<lambda>_ _ w. (None, w)),
     boundary = (\<lambda>w. (''b'', w))\<rparr>"

lemma granting_run:
  "Authenticate granting_net (NewAPIClient ''http://10.0.0.1'' ''pw'' 10 True, 0) =
     (Ok (), ((NewAPIClient ''http://10.0.0.1'' ''pw'' 10 True)\<lparr>sessionID := ''s1'', validity := 300000000007\<rparr>, 1))"
proof -
  have "doAuth granting_net ((NewAPIClient ''http://10.0.0.1'' ''pw'' 10 True)\<lparr>mu := True\<rparr>, 0) =
     (Ok (), ((NewAPIClient ''http://10.0.0.1'' ''pw'' 10 True)\<lparr>mu := True, sessionID := ''s1'', validity := 300000000007\<rparr>, 1))"
    by (simp add: doAuth_def Let_def bindR_def client_def askR_def ctxR_def
        newRequest_def Do_def callR_def pureR_def ret_def modC_def modS_def now_def
        NewAPIClient_def granting_net_def ReadAllLimit_def ReadAll_def MaxResponseSize_def
        seconds_def second_def)
  from pihole_backoff_first [where fn = "doAuth granting_net", OF this] show ?thesis
    by (simp add: Authenticate_def locked_def Lock_def bindR_def NewAPIClient_def)
qed


text \<open>C18: the freshness test takes the mutex, reads the clock and gives the mutex back before it
  authenticates: on a free client it always comes back with the mutex free; while the session runs it
  sends nothing and changes nothing; and were the mutex still held, as its comment warns, both the test
  and the authentication it leads to would block for ever.\<close>

theorem ensure_auth_never_deadlocks:
  assumes "\<not> mu c" "time_now N w = (t, w1)" "ensureAuth N (c, w) = (r, (c', w'))"
  shows "settled r \<and> \<not> mu c' \<and>
    (t \<le> validity c \<longrightarrow> r = Ok () \<and> c' = c \<and> w' = w1) \<and>
    (validity c < t \<longrightarrow> Authenticate N (c, w1) = (r, (c', w'))) \<and>
    ensureAuth N (c\<lparr>mu := True\<rparr>, w) = (Blocked, (c\<lparr>mu := True\<rparr>, w)) \<and>
    Authenticate N (c\<lparr>mu := True\<rparr>, w) = (Blocked, (c\<lparr>mu := True\<rparr>, w))"
proof -
  have f: "free (identity c) (c, w)" using assms(1) by simp
  have "settled r" "free (identity c) (c', w')"
    using returnsD [OF ensureAuth_returns f assms(3)]
      keepsD [OF returns_keeps [OF ensureAuth_returns] f assms(3)] by auto
  moreover have "ensureAuth N (c\<lparr>mu := True\<rparr>, w) = (Blocked, (c\<lparr>mu := True\<rparr>, w))"
    "Authenticate N (c\<lparr>mu := True\<rparr>, w) = (Blocked, (c\<lparr>mu := True\<rparr>, w))"
    by (simp_all add: ensureAuth_def Authenticate_def locked_def bindR_def Lock_def)
  ultimately show ?thesis
    using ensureAuth_run [OF assms(1,2)] assms(3) by (auto split: if_splits)
qed

theorem ensure_auth_never_deadlocks_witness:
  "ensureAuth granting_net ((NewAPIClient ''http://10.0.0.1'' ''pw'' 10 True)\<lparr>validity := 8, mu := True\<rparr>, 0) =
     (Blocked, ((NewAPIClient ''http://10.0.0.1'' ''pw'' 10 True)\<lparr>validity := 8, mu := True\<rparr>, 0))"
proof -
  let ?c = "(NewAPIClient ''http://10.0.0.1'' ''pw'' 10 True)\<lparr>validity := 8\<rparr>"
  have c: "\<not> mu ?c" and t: "time_now granting_net 0 = (7, 0)"
    by (simp_all add: NewAPIClient_def granting_net_def)
  have "ensureAuth granting_net (?c, 0) = (Ok (), (?c, 0))"
    using ensureAuth_run [OF c t] by (simp add: NewAPIClient_def)
  from ensure_auth_never_deadlocks [OF c t this] show ?thesis by simp
qed

section \<open>The requests that are sent\<close>

text \<open>The same server with a log of the requests put to it.\<close>

definition record_net :: "'w net \<Rightarrow> ('w \<times> http_req list) net" where
  "record_net N = \<lparr>
     http_do = (\<lambda>t k r (w, l). case http_do N t k r w of (x, w') \<Rightarrow> (x, (w', l @ [r]))),
     url_err = url_err N, dec_auth = dec_auth N, dec_lists = dec_lists N,
     time_now = (\<lambda>(w, l). case time_now N w of (t, w') \<Rightarrow> (t, (w', l))),
     wait = (\<lambda>x d (w, l). case wait N x d w of (r, w') \<Rightarrow> (r, (w', l))),
     boundary = (\<lambda>(w, l). case boundary N w of (b, w') \<Rightarrow> (b, (w', l)))\<rparr>"

definition log_of :: "'a res \<times> ('w \<times> http_req list) cst \<Rightarrow> http_req list" where
  "log_of out = snd (snd (snd out))"

lemma log_of_pair [simp]: "log_of (r, (c, (w, l))) = l"
  by (simp add: log_of_def)

definition request :: "string \<Rightarrow> string \<Rightarrow> (string \<times> string) list \<Rightarrow> body \<Rightarrow> ctx \<Rightarrow> http_req" where
  "request meth url hs b ctx =
     \<lparr>rqMethod = meth, rqURL = url, rqHeader = hs, rqBody = b, rqCtx = ctx\<rparr>"

lemmas op_defs = bindR_def client_def askR_def ctxR_def newRequest_def Do_def callR_def Let_def
  ret_def fail_def pureR_def setHeader_def

lemma record_net_sel [simp]:
  "url_err (record_net N) = url_err N" "dec_auth (record_net N) = dec_auth N"
  "dec_lists (record_net N) = dec_lists N"
  by (simp_all add: record_net_def)

lemma record_net_do:
  "http_do (record_net N) t k r (w, l) = (fst (http_do N t k r w), (snd (http_do N t k r w), l @ [r]))"
  by (simp add: record_net_def case_prod_beta)

text \<open>One request, whatever is made of the answer.\<close>

lemma log_Do:
  "log_of (bindR (ctxR f (Do (record_net N) r)) k (c, (w, l))) =
     (case fst (http_do N (cltTimeout c) (cltSkipTLS c) r w) of
        Inl e \<Rightarrow> l @ [r]
      | Inr resp \<Rightarrow> log_of (k resp (c, (snd (http_do N (cltTimeout c) (cltSkipTLS c) r w), l @ [r]))))"
  by (simp add: Do_def callR_def ctxR_def bindR_def record_net_do split: sum.splits)

lemma log_steps:
  "log_of (bindR client k s) = log_of (k (fst s) s)"
  "ensureAuth M s = (Ok (), s1) \<Longrightarrow> log_of (bindR (wrap g (ensureAuth M)) k' s) = log_of (k' () s1)"
  "url_err M u = None \<Longrightarrow> log_of (bindR (wrap g (newRequest M x meth u b)) k2 s) =
     log_of (k2 (request meth u [] b x) s)"
  by (auto simp: bindR_def client_def askR_def ctxR_def newRequest_def ret_def request_def split: prod.splits)

lemma log_ends:
  "log_of (fail e (c, (w, l))) = l" "log_of (ret x (c, (w, l))) = l"
  "log_of (ctxR f (pureR y) (c, (w, l))) = l"
  by (auto simp: fail_def ret_def pureR_def ctxR_def log_of_def split: sum.splits)

lemma setHeader_request [simp]: "setHeader k v (request meth u hs b x) = request meth u (mput k v hs) b x"
  by (simp add: setHeader_def request_def)


text \<open>Deleting an ad-list sends one request that carries no header at all: the session is not
  sent, whatever it is.\<close>

theorem delete_sends_no_session:
  assumes "ensureAuth (record_net N) (c, (w, l)) = (Ok (), (c1, (w1, l1)))"
    and "\<And>u. url_err N u = None"
  shows "log_of (DeleteAdList (record_net N) ctx addr (c, (w, l))) = l1 @
      [request ''DELETE'' (delete_url (BaseURL c) addr) [] NoBody ctx]"
  using assms
  by (simp add: DeleteAdList_def Let_def log_steps log_Do log_ends split: sum.splits)

text \<open>The witnesses: a client whose session \<open>s0\<close> still runs.\<close>

definition running_client :: APIClient where
  "running_client = (NewAPIClient ''http://10.0.0.1'' ''pw'' 10 True)\<lparr>sessionID := ''s0'', validity := 8\<rparr>"

lemma running_client [simp]:
  "\<not> mu running_client" "BaseURL running_client = ''http://10.0.0.1''" "sessionID running_client = ''s0''"
  "ensureAuth (record_net granting_net) (running_client, (0, [])) = (Ok (), (running_client, (0, [])))"
  "url_err granting_net u = None"
  using ensureAuth_run [of running_client "record_net granting_net" "(0, [])" 7 "(0, [])"]
  by (simp_all add: running_client_def NewAPIClient_def record_net_def granting_net_def)


theorem delete_sends_no_session_witness:
  "log_of (DeleteAdList (record_net granting_net) Background ''http://a/b'' (running_client, (0, []))) =
     [request ''DELETE'' (delete_url ''http://10.0.0.1'' ''http://a/b'') [] NoBody Background]"
  using delete_sends_no_session
      [of granting_net running_client 0 "[]" running_client 0 "[]" Background "''http://a/b''"]
  by simp

lemma DeleteAdList_unsent_session:
  assumes "\<And>t k r w. map_of (rqHeader r) ''X-FTL-SID'' = None \<Longrightarrow> rqMethod r = ''DELETE'' \<Longrightarrow>
      \<exists>resp w'. http_do N t k r w = (Inr resp, w') \<and> rspStatus resp = 401"
  shows "DeleteAdList N ctx addr s \<noteq> (Ok x, s')"
proof
  assume "DeleteAdList N ctx addr s = (Ok x, s')"
  then obtain url s1 resp s2 where
    "Do N \<lparr>rqMethod = ''DELETE'', rqURL = url, rqHeader = [], rqBody = NoBody, rqCtx = ctx\<rparr> s1 = (Ok resp, s2)"
    and st: "rspStatus resp = 200 \<or> rspStatus resp = 204"
    unfolding DeleteAdList_def Let_def newRequest_def
    by (auto elim!: prog_elims split: if_splits option.splits)
  then obtain c1 :: APIClient and w1 w2 where "http_do N (cltTimeout c1) (cltSkipTLS c1)
      \<lparr>rqMethod = ''DELETE'', rqURL = url, rqHeader = [], rqBody = NoBody, rqCtx = ctx\<rparr> w1 = (Inr resp, w2)"
    by (cases s1) (auto simp: Do_def elim!: callR_OkE split: prod.splits)
  moreover have "\<exists>resp' w'. http_do N (cltTimeout c1) (cltSkipTLS c1)
      \<lparr>rqMethod = ''DELETE'', rqURL = url, rqHeader = [], rqBody = NoBody, rqCtx = ctx\<rparr> w1 = (Inr resp', w') \<and>
      rspStatus resp' = 401"
    by (rule assms) simp_all
  ultimately show False using st by auto
qed

text \<open>Against a server that answers a request without a session with a client error, as the
  Pi-hole API documents, no call of \<open>DeleteAdList\<close> ever succeeds: the operator cannot delete an
  ad-list from a protected Pi-hole.\<close>

theorem delete_never_succeeds_when_sessions_are_required:
  assumes "\<And>t k r w. map_of (rqHeader r) ''X-FTL-SID'' = None \<Longrightarrow> rqMethod r = ''DELETE'' \<Longrightarrow>
      \<exists>resp w'. http_do N t k r w = (Inr resp, w') \<and> rspStatus resp = 401"
  shows "DeleteAdList N ctx addr s \<noteq> (Ok x, s')"
  by (rule DeleteAdList_unsent_session) (rule assms)

definition guarded_net :: "nat net" where
  "guarded_net = granting_net\<lparr>http_do := (\<lambda>_ _ r w.
     (Inr \<lparr>rspStatus = (if map_of (rqHeader r) ''X-FTL-SID'' = None then 401 else 200),
           rspBody = [], rspReadErr = None\<rparr>, Suc w))\<rparr>"

theorem delete_never_succeeds_when_sessions_are_required_witness:
  "DeleteAdList guarded_net Background ''http://a/b'' (running_client, 0) \<noteq> (Ok (), (running_client, 1))"
  by (rule delete_never_succeeds_when_sessions_are_required) (simp add: guarded_net_def)

section \<open>Uploads\<close>

definition upload_request :: "APIClient \<Rightarrow> string \<Rightarrow> string \<Rightarrow> ctx \<Rightarrow> http_req" where
  "upload_request c b d ctx = request ''POST'' (BaseURL c @ ''/api/teleporter'')
     [(''X-FTL-SID'', sessionID c), (''Content-Type'', ''multipart/form-data; boundary='' @ b)]
     (FormFile b ''file'' ''teleporter.zip'' d) ctx"

lemma doUpload_log:
  assumes run: "doUpload (record_net N) ctx u ct pl (c, (w, l)) = (r, (c', (w', l')))"
    and url: "url_err N u = None"
    and q: "q = request ''POST'' u [(''X-FTL-SID'', sessionID c), (''Content-Type'', ct)] pl ctx"
  shows "c' = c \<and> l' = l @ [q] \<and>
    (r = Ok () \<longrightarrow> (\<exists>resp. http_do N (cltTimeout c) (cltSkipTLS c) q w = (Inr resp, w') \<and>
       (rspStatus resp = 200 \<or> rspStatus resp = 201)))"
proof -
  have nr: "newRequest (record_net N) ctx ''POST'' u pl s = (Ok (request ''POST'' u [] pl ctx), s)" for s
    by (simp add: newRequest_def url ret_def request_def)
  obtain x w1 where h: "http_do N (cltTimeout c) (cltSkipTLS c) q w = (x, w1)"
    by (cases "http_do N (cltTimeout c) (cltSkipTLS c) q w")
  show ?thesis
    using run h [unfolded q]
    by (cases x) (auto simp: doUpload_def bindR_def client_def askR_def ctxR_def nr Do_def callR_def
        record_net_do h [unfolded q] q ret_def fail_def split: if_splits)
qed

lemma attempts_log:
  assumes step: "\<And>w l r c' w' l'. fn (c, (w, l)) = (r, (c', (w', l'))) \<Longrightarrow> c' = c \<and> l' = l @ [q]"
  shows "attempts (sel (record_net N) ctx) fn fin ds (c, (w, l)) = (r, (c', (w', l'))) \<Longrightarrow>
    \<exists>k. k \<le> length ds \<and> c' = c \<and> l' = l @ replicate (Suc k) q \<and>
      (r = Ok () \<longrightarrow> (\<exists>w0 l0. fn (c, (w0, l0)) = (Ok (), (c, (w', l')))))"
proof (induction ds arbitrary: w l)
  case Nil
  then have "\<exists>r'. fn (c, (w, l)) = (r', (c', (w', l'))) \<and> (r = Ok () \<longrightarrow> r' = Ok ())"
    by (auto simp: ctxR_def split: prod.splits res.splits)
  then show ?case using step by fastforce
next
  case (Cons d ds)
  obtain r1 c1 w1 l1 where fn: "fn (c, (w, l)) = (r1, (c1, (w1, l1)))" by (metis prod.collapse)
  with step have c1: "c1 = c" "l1 = l @ [q]" by blast+
  obtain z w2 where sel: "sel (record_net N) ctx d (c, (w1, l1)) = (z, (c, (w2, l1)))"
    by (auto simp: sel_def record_net_def case_prod_beta)
  show ?case
  proof (cases "(\<exists>e. r1 = Err e) \<and> z = None")
    case True
    with Cons.prems fn c1 sel
    have "attempts (sel (record_net N) ctx) fn fin ds (c, (w2, l1)) = (r, (c', (w', l')))" by auto
    from Cons.IH [OF this] obtain k where "k \<le> length ds" "c' = c" "l' = l1 @ replicate (Suc k) q"
      "r = Ok () \<longrightarrow> (\<exists>w0 l0. fn (c, (w0, l0)) = (Ok (), (c, (w', l'))))" by blast
    with c1 show ?thesis by (intro exI [of _ "Suc k"]) auto
  next
    case False
    with Cons.prems fn c1 sel show ?thesis
      by (intro exI [of _ 0]) (cases r1; cases z; auto)
  qed
qed



text \<open>C29: the URL of a deletion holds the address as one segment of the path, two addresses never share a URL,
  and decoding the segment gives the address back exactly when it has no space: a space comes back as a
  plus sign, so the request names another list.\<close>

theorem delete_url_names_the_address:
  "(\<exists>seg. delete_url base addr = base @ ''/api/lists/'' @ seg @ ''?type=block'' \<and>
     set seg \<inter> {CHR ''/'', CHR ''?'', CHR ''#'', CHR '' '', CHR ''&''} = {} \<and>
     PathUnescape seg = Some (map (\<lambda>c. if c = CHR '' '' then CHR ''+'' else c) addr) \<and>
     (PathUnescape seg = Some addr \<longleftrightarrow> CHR '' '' \<notin> set addr)) \<and>
   (delete_url base addr = delete_url base other \<longleftrightarrow> addr = other)"
  using query_escape_in_path [of addr] query_escape_is_one_segment [of addr other]
  by (auto simp: delete_url_def)

end
