(* ===== verification/Registry.thy ===== *)
theory Registry
  imports Kube ApiLaws
begin

text \<open>
  \<open>internal/controller/piholecluster/sync.go\<close>, lines 248 to 350: the map of API clients, one per
  ready pod. \<open>syncAPIClients\<close> refreshes it from the pods of the namespace, \<open>ReadWriteAPIClient\<close> and
  \<open>ReadOnlyAPIClients\<close> look clients up by the pod-name scheme of the stateful sets.
\<close>

section \<open>The operations\<close>

definition base_url :: "string \<Rightarrow> string" where
  "base_url ip = ''http://'' @ ip"

text \<open>\<open>client.Close()\<close>: closes the idle connections of the transport; on nil it dereferences nil.\<close>

definition closeClient :: "nat option \<Rightarrow> ('w rs, unit) prog" where
  "closeClient p = (case p of
      None \<Rightarrow> panic ''nil pointer dereference''
    | Some a \<Rightarrow> modS (\<lambda>s. s\<lparr>idleClosed := idleClosed s @ [a]\<rparr>))"

text \<open>A new client is allocated and stored under the pod's name; a missing key of \<open>secret.Data\<close> reads
  as the empty password.\<close>

definition createClient :: "'w kube \<Rightarrow> Pod \<Rightarrow> ('w rs, unit) prog" where
  "createClient K p =
     bindR (wrap ''reading API secret'' (getAPISecret K)) (\<lambda>secret.
     let pw = (case map_of (scData secret) ''password'' of None \<Rightarrow> [] | Some v \<Rightarrow> v);
         apiClient = NewAPIClient (base_url (podIP p)) pw (10 * second) True
     in modS (\<lambda>s. s\<lparr>heap := (heap s)(nextAddr s := apiClient), nextAddr := Suc (nextAddr s),
          ApiClients := mput (podName p) \<lparr>enClient = Some (nextAddr s), enIP = podIP p\<rparr> (ApiClients s)\<rparr>))"

definition refreshClient :: "'w kube \<Rightarrow> Pod \<Rightarrow> ('w rs, unit) prog" where
  "refreshClient K p =
     (if \<not> IsPodReady p then ret ()
      else if podIP p = [] then ret ()
      else bindR getS (\<lambda>s.
        case map_of (ApiClients s) (podName p) of
          Some entry \<Rightarrow>
            if enIP entry = podIP p then ret ()
            else bindR (closeClient (enClient entry)) (\<lambda>_. createClient K p)
        | None \<Rightarrow> createClient K p))"

definition dropStale :: "Pod list \<Rightarrow> string \<Rightarrow> ('w rs, unit) prog" where
  "dropStale pods name =
     (if list_ex (\<lambda>p. podName p = name) pods then ret ()
      else bindR getS (\<lambda>s.
        case map_of (ApiClients s) name of
          None \<Rightarrow> panic ''nil pointer dereference''
        | Some entry \<Rightarrow>
            bindR (modS (\<lambda>s. s\<lparr>ApiClients := mdel name (ApiClients s)\<rparr>)) (\<lambda>_.
            whenR (enClient entry \<noteq> None) (closeClient (enClient entry)))))"

definition rangeClients :: "'w kube \<Rightarrow> ('w rs, string list) prog" where
  "rangeClients K = bindR getS (\<lambda>s. askW (map_order K (mkeys (ApiClients s))))"

definition syncAPIClients :: "'w kube \<Rightarrow> ('w rs, unit) prog" where
  "syncAPIClients K =
     bindR getCluster (\<lambda>cl.
     bindR (wrap ''listing pihole pods''
        (callW (k_list_pods K (clNamespace cl) [(''app.kubernetes.io/name'', ''pihole'')]))) (\<lambda>pods.
     bindR (forR pods (refreshClient K)) (\<lambda>_.
     bindR (rangeClients K) (\<lambda>names.
     forR names (dropStale pods)))))"

definition ReadWriteAPIClient :: "('w rs, nat option) prog" where
  "ReadWriteAPIClient = bindR getS (\<lambda>s.
     let rwPod = currentClusterName s @ ''-rw-0'' in
     case map_of (ApiClients s) rwPod of
       None \<Rightarrow> fail (Errorf ''read-write API client %s not found'' [FS rwPod])
     | Some pod \<Rightarrow> ret (enClient pod))"

definition HasPrefix :: "string \<Rightarrow> string \<Rightarrow> bool" where
  "HasPrefix s p = (take (length p) s = p)"

definition ReadOnlyAPIClients :: "'w kube \<Rightarrow> ('w rs, nat option list) prog" where
  "ReadOnlyAPIClients K =
     bindR (rangeClients K) (\<lambda>names.
     bindR getS (\<lambda>s.
     let pre = currentClusterName s @ ''-ro-'';
         ro = map (\<lambda>n. enClient (the (map_of (ApiClients s) n))) (filter (\<lambda>n. HasPrefix n pre) names)
     in if ro = [] then fail (Errorf ''no read-only API clients found'' []) else ret ro))"

section \<open>The invariant of the client map\<close>

text \<open>
  \<open>reg_ok\<close>: names are distinct; every entry points to an allocated client of its own, made for the
  entry's address and with a free mutex; and every client ever allocated is in the map or was closed.
\<close>

definition entry_ok :: "(nat \<Rightarrow> APIClient) \<Rightarrow> nat \<Rightarrow> ApiClientEntry \<Rightarrow> bool" where
  "entry_ok h nx e \<longleftrightarrow> (\<exists>a. enClient e = Some a \<and> a < nx \<and>
     BaseURL (h a) = base_url (enIP e) \<and> \<not> mu (h a))"

definition reg_inv ::
  "(string \<rightharpoonup> ApiClientEntry) \<Rightarrow> (nat \<Rightarrow> APIClient) \<Rightarrow> nat \<Rightarrow> nat set \<Rightarrow> bool" where
  "reg_inv m h nx closed \<longleftrightarrow>
     (\<forall>n e. m n = Some e \<longrightarrow> entry_ok h nx e) \<and>
     (\<forall>n n' e e'. m n = Some e \<longrightarrow> m n' = Some e' \<longrightarrow> enClient e = enClient e' \<longrightarrow> n = n') \<and>
     (\<forall>a < nx. a \<in> closed \<or> (\<exists>n e. m n = Some e \<and> enClient e = Some a))"

definition reg_ok :: "'w rs \<Rightarrow> bool" where
  "reg_ok s \<longleftrightarrow> distinct (mkeys (ApiClients s)) \<and>
     reg_inv (map_of (ApiClients s)) (heap s) (nextAddr s) (set (idleClosed s))"

lemma reg_invD:
  assumes "reg_inv m h nx closed"
  shows "m n = Some e \<Longrightarrow> entry_ok h nx e"
    and "m n = Some e \<Longrightarrow> m n' = Some e' \<Longrightarrow> enClient e = enClient e' \<Longrightarrow> n = n'"
    and "a < nx \<Longrightarrow> a \<notin> closed \<Longrightarrow> \<exists>n e. m n = Some e \<and> enClient e = Some a"
  using assms unfolding reg_inv_def by blast+

lemma reg_invI:
  assumes "\<And>n e. m n = Some e \<Longrightarrow> entry_ok h nx e"
    and "\<And>n n' e e'. m n = Some e \<Longrightarrow> m n' = Some e' \<Longrightarrow> enClient e = enClient e' \<Longrightarrow> n = n'"
    and "\<And>a. a < nx \<Longrightarrow> a \<notin> closed \<Longrightarrow> \<exists>n e. m n = Some e \<and> enClient e = Some a"
  shows "reg_inv m h nx closed"
  using assms unfolding reg_inv_def by blast

lemma reg_ok_worldless [simp]: "worldless reg_ok"
  by (simp add: worldless_def reg_ok_def)

lemma reg_inv_mono: "reg_inv m h nx closed \<Longrightarrow> closed \<subseteq> closed' \<Longrightarrow> reg_inv m h nx closed'"
  unfolding reg_inv_def by blast

lemma entry_ok_alloc: "entry_ok h nx e \<Longrightarrow> entry_ok (h(nx := c)) (Suc nx) e"
  unfolding entry_ok_def by fastforce

text \<open>Storing a new client keeps the invariant if a client it replaces was closed.\<close>

lemma reg_inv_create:
  assumes ok: "reg_inv m h nx closed" and c: "BaseURL c = base_url ip" "\<not> mu c"
    and closed: "\<And>e a. m n = Some e \<Longrightarrow> enClient e = Some a \<Longrightarrow> a \<in> closed"
  shows "reg_inv (m(n \<mapsto> \<lparr>enClient = Some nx, enIP = ip\<rparr>)) (h(nx := c)) (Suc nx) closed"
    (is "reg_inv ?m ?h _ _")
proof (rule reg_invI)
  have fresh: "enClient e \<noteq> Some nx" if "m k = Some e" for k e
    using reg_invD(1) [OF ok that] by (auto simp: entry_ok_def)
  show "entry_ok ?h (Suc nx) e" if "?m k = Some e" for k e
  proof (cases "k = n")
    case True
    with that c show ?thesis by (auto simp: entry_ok_def)
  next
    case False
    with that reg_invD(1) [OF ok] show ?thesis by (auto intro: entry_ok_alloc)
  qed
  show "k = k'" if "?m k = Some e" "?m k' = Some e'" "enClient e = enClient e'" for k k' e e'
    using that fresh [of k e] fresh [of k' e'] reg_invD(2) [OF ok, of k e k' e']
    by (auto split: if_splits)
  show "\<exists>k e. ?m k = Some e \<and> enClient e = Some a" if "a < Suc nx" "a \<notin> closed" for a
  proof (cases "a = nx")
    case True
    then show ?thesis by (intro exI [of _ n]) simp
  next
    case False
    with that obtain k e where "m k = Some e" "enClient e = Some a"
      using reg_invD(3) [OF ok, of a] by auto
    moreover with closed that have "k \<noteq> n" by auto
    ultimately show ?thesis by (intro exI [of _ k] exI [of _ e]) simp
  qed
qed

lemma reg_inv_drop:
  assumes ok: "reg_inv m h nx closed" and e: "m n = Some e" and a: "enClient e = Some a"
  shows "reg_inv (m(n := None)) h nx (insert a closed)" (is "reg_inv ?m _ _ _")
proof (rule reg_invI)
  show "entry_ok h nx e'" if "?m k = Some e'" for k e'
    using that reg_invD(1) [OF ok, of k e'] by (simp split: if_splits)
  show "k = k'" if "?m k = Some e1" "?m k' = Some e2" "enClient e1 = enClient e2" for k k' e1 e2
    using that reg_invD(2) [OF ok, of k e1 k' e2] by (simp split: if_splits)
  show "\<exists>k e. ?m k = Some e \<and> enClient e = Some b" if "b < nx" "b \<notin> insert a closed" for b
  proof -
    from that obtain k e' where "m k = Some e'" "enClient e' = Some b"
      using reg_invD(3) [OF ok, of b] by auto
    moreover with e a that have "k \<noteq> n" by auto
    ultimately show ?thesis by (intro exI [of _ k] exI [of _ e']) simp
  qed
qed

section \<open>One pod, one stale name\<close>

lemma getAPISecret_world:
  "getAPISecret K s = (r, s') \<Longrightarrow> \<exists>w. s' = s\<lparr>world := w\<rparr>"
proof -
  have "worldless (\<lambda>t. \<exists>w. t = s\<lparr>world := w\<rparr>)" by (auto simp: worldless_def)
  from keepsD [OF getAPISecret_keeps [OF this]] show "getAPISecret K s = (r, s') \<Longrightarrow> ?thesis"
    by (metis rs.surjective rs.update_convs(8))
qed

definition alloc :: "string \<Rightarrow> string \<Rightarrow> string \<Rightarrow> 'w rs \<Rightarrow> 'w rs" where
  "alloc n ip pw s = s\<lparr>heap := (heap s)(nextAddr s := NewAPIClient (base_url ip) pw (10 * second) True),
     nextAddr := Suc (nextAddr s),
     ApiClients := mput n \<lparr>enClient = Some (nextAddr s), enIP = ip\<rparr> (ApiClients s)\<rparr>"

lemma createClient_cases:
  assumes "createClient K p s = (r, s')"
  obtains w where "r \<noteq> Ok ()" "s' = s\<lparr>world := w\<rparr>"
  | w pw where "r = Ok ()" "s' = alloc (podName p) (podIP p) pw (s\<lparr>world := w\<rparr>)"
proof -
  obtain q s1 where g: "getAPISecret K s = (q, s1)" by (cases "getAPISecret K s")
  then obtain w where "s1 = s\<lparr>world := w\<rparr>" using getAPISecret_world by blast
  with g assms that show ?thesis
    by (cases q) (auto simp: createClient_def ctxR_def bindR_def modS_def alloc_def Let_def)
qed

lemma alloc_reg_ok:
  assumes "reg_ok s"
    and "\<And>e a. map_of (ApiClients s) n = Some e \<Longrightarrow> enClient e = Some a \<Longrightarrow> a \<in> set (idleClosed s)"
  shows "reg_ok (alloc n ip pw (s\<lparr>world := w\<rparr>))"
  using assms reg_inv_create [of "map_of (ApiClients s)" "heap s" "nextAddr s" "set (idleClosed s)"
      "NewAPIClient (base_url ip) pw (10 * second) True" ip n]
  by (auto simp: reg_ok_def alloc_def NewAPIClient_def)

lemma reg_ok_world: "reg_ok s \<Longrightarrow> reg_ok (s\<lparr>world := w\<rparr>)"
  by (simp add: reg_ok_def)

lemma reg_ok_close: "reg_ok s \<Longrightarrow> reg_ok (s\<lparr>idleClosed := idleClosed s @ [a]\<rparr>)"
  unfolding reg_ok_def by (auto elim: reg_inv_mono)

text \<open>What refreshing one pod does to a state in the invariant: nothing, or a failed call of the API
  server, or a new client under the pod's name, the one it replaces being closed before.\<close>

definition refreshed :: "Pod \<Rightarrow> 'w rs \<Rightarrow> 'w rs \<Rightarrow> bool" where
  "refreshed p s s' \<longleftrightarrow> (\<exists>cl w pw. s' = alloc (podName p) (podIP p) pw (s\<lparr>idleClosed := cl, world := w\<rparr>))"

lemma refreshClient_cases:
  assumes ok: "reg_ok s" and run: "refreshClient K p s = (r, s')"
  shows "reg_ok s' \<and>
    (let wanted = IsPodReady p \<and> podIP p \<noteq> [];
         current = (\<exists>e. map_of (ApiClients s) (podName p) = Some e \<and> enIP e = podIP p)
     in if wanted \<and> \<not> current
        then (if r = Ok () then refreshed p s s' else ApiClients s' = ApiClients s)
        else r = Ok () \<and> s' = s)"
proof (cases "IsPodReady p \<and> podIP p \<noteq> []")
  case False
  then have "refreshClient K p = ret ()" by (auto simp: refreshClient_def)
  with False ok run show ?thesis by (auto simp: ret_def)
next
  case wanted: True
  have create: "reg_ok s' \<and> (if r = Ok () then refreshed p s s' else ApiClients s' = ApiClients s)"
    if t: "t = s\<lparr>idleClosed := cl\<rparr>" and okt: "reg_ok t" and r: "createClient K p t = (r, s')"
      and cl: "\<And>e a. map_of (ApiClients s) (podName p) = Some e \<Longrightarrow> enClient e = Some a \<Longrightarrow> a \<in> set cl"
    for t cl
    using r
  proof (cases rule: createClient_cases)
    case (1 w)
    then show ?thesis using okt t by (simp add: reg_ok_world)
  next
    case (2 w pw)
    have "reg_ok (alloc (podName p) (podIP p) pw (t\<lparr>world := w\<rparr>))"
      using okt cl t by (intro alloc_reg_ok) auto
    with 2 t show ?thesis by (auto simp: refreshed_def)
  qed
  show ?thesis
  proof (cases "map_of (ApiClients s) (podName p)")
    case None
    with run wanted have "createClient K p s = (r, s')"
      by (simp add: refreshClient_def bindR_def getS_def)
    from create [OF _ ok this, of "idleClosed s"] None wanted show ?thesis by simp
  next
    case (Some e)
    then obtain a where a: "enClient e = Some a"
      using ok reg_invD(1) unfolding reg_ok_def entry_ok_def by metis
    show ?thesis
    proof (cases "enIP e = podIP p")
      case True
      with Some run wanted ok show ?thesis by (auto simp: refreshClient_def bindR_def getS_def ret_def)
    next
      case False
      with Some a run wanted have "createClient K p (s\<lparr>idleClosed := idleClosed s @ [a]\<rparr>) = (r, s')"
        by (simp add: refreshClient_def bindR_def getS_def closeClient_def modS_def)
      moreover have "b \<in> set (idleClosed s @ [a])"
        if "map_of (ApiClients s) (podName p) = Some e'" "enClient e' = Some b" for e' b
        using that Some a by auto
      ultimately have "reg_ok s' \<and> (if r = Ok () then refreshed p s s' else ApiClients s' = ApiClients s)"
        using create [OF refl reg_ok_close [OF ok]] by blast
      with Some False wanted show ?thesis by (simp add: Let_def)
    qed
  qed
qed

lemma dropStale_run:
  assumes ok: "reg_ok s" and n: "map_of (ApiClients s) n = Some e"
  obtains s' where "dropStale pods n s = (Ok (), s')" "reg_ok s'" "heap s' = heap s"
    and "map_of (ApiClients s') = (if list_ex (\<lambda>p. podName p = n) pods then map_of (ApiClients s)
           else (map_of (ApiClients s))(n := None))"
proof (cases "list_ex (\<lambda>p. podName p = n) pods")
  case True
  with ok that show ?thesis by (simp add: dropStale_def ret_def)
next
  case False
  obtain a where a: "enClient e = Some a"
    using ok n reg_invD(1) unfolding reg_ok_def entry_ok_def by metis
  let ?s = "s\<lparr>ApiClients := mdel n (ApiClients s), idleClosed := idleClosed s @ [a]\<rparr>"
  have "reg_ok ?s"
    using ok reg_inv_drop [where m = "map_of (ApiClients s)", OF _ n a]
    by (simp add: reg_ok_def distinct_mdel)
  moreover have "dropStale pods n s = (Ok (), ?s)"
    using False n a by (simp add: dropStale_def bindR_def getS_def modS_def whenR_def closeClient_def)
  ultimately show ?thesis using that False by simp
qed

section \<open>The two loops\<close>

lemma refresh_loop_keeps: "reg_ok s \<Longrightarrow> forR pods (refreshClient K) s = (r, s') \<Longrightarrow> reg_ok s'"
  by (rule keepsD [where I = reg_ok, OF keeps_forR]) (auto intro: keepsI dest: refreshClient_cases)

text \<open>An entry that fits its pod is not touched, and a wanted pod gets a fitting entry.\<close>

definition fits :: "'w rs \<Rightarrow> Pod \<Rightarrow> bool" where
  "fits s p \<longleftrightarrow> (\<exists>e. map_of (ApiClients s) (podName p) = Some e \<and> enIP e = podIP p)"

lemma refreshed_facts:
  assumes "reg_ok s" "refreshed p s s'"
  shows "fits s' p"
    and "n \<noteq> podName p \<Longrightarrow> map_of (ApiClients s') n = map_of (ApiClients s) n"
    and "map_of (ApiClients s) n = Some e \<Longrightarrow> enClient e = Some a \<Longrightarrow> heap s' a = heap s a"
proof -
  show "fits s' p" "n \<noteq> podName p \<Longrightarrow> map_of (ApiClients s') n = map_of (ApiClients s) n"
    using assms(2) by (auto simp: refreshed_def alloc_def fits_def)
  assume e: "map_of (ApiClients s) n = Some e" "enClient e = Some a"
  have "entry_ok (heap s) (nextAddr s) e"
    using assms(1) e(1) reg_invD(1) unfolding reg_ok_def by metis
  with e(2) have "a < nextAddr s" by (simp add: entry_ok_def)
  with assms(2) show "heap s' a = heap s a" by (auto simp: refreshed_def alloc_def)
qed

lemma refresh_loop_Ok:
  assumes "reg_ok s" "distinct (map podName pods)" "forR pods (refreshClient K) s = (Ok (), s')"
  shows "(\<forall>p \<in> set pods. IsPodReady p \<and> podIP p \<noteq> [] \<longrightarrow> fits s' p) \<and>
    (\<forall>n. n \<notin> podName ` set pods \<longrightarrow> map_of (ApiClients s') n = map_of (ApiClients s) n) \<and>
    (\<forall>p \<in> set pods. fits s p \<longrightarrow> map_of (ApiClients s') (podName p) = map_of (ApiClients s) (podName p)) \<and>
    (\<forall>n e a. map_of (ApiClients s) n = Some e \<longrightarrow> map_of (ApiClients s') n = Some e \<longrightarrow>
       enClient e = Some a \<longrightarrow> heap s' a = heap s a)"
  using assms
proof (induction pods arbitrary: s)
  case Nil
  then show ?case by (auto simp: ret_def)
next
  case (Cons p ps)
  then obtain s1 where r1: "refreshClient K p s = (Ok (), s1)" and r2: "forR ps (refreshClient K) s1 = (Ok (), s')"
    by (auto elim!: bindR_OkE)
  have ok1: "reg_ok s1" and step: "s1 = s \<or> refreshed p s s1"
    and wanted: "IsPodReady p \<and> podIP p \<noteq> [] \<longrightarrow> fits s1 p" and same: "fits s p \<longrightarrow> s1 = s"
    using refreshClient_cases [OF Cons.prems(1) r1] refreshed_facts(1) [OF Cons.prems(1)]
    by (auto simp: Let_def fits_def split: if_splits)
  have other: "map_of (ApiClients s1) n = map_of (ApiClients s) n" if "n \<noteq> podName p" for n
    using step refreshed_facts(2) [OF Cons.prems(1)] that by auto
  have hp: "heap s1 a = heap s a" if "map_of (ApiClients s) n = Some e" "enClient e = Some a" for n e a
    using step refreshed_facts(3) [OF Cons.prems(1)] that by auto
  from Cons.prems(2) have d: "distinct (map podName ps)" "podName p \<notin> podName ` set ps" by auto
  note IH = Cons.IH [OF ok1 d(1) r2]
  have p: "map_of (ApiClients s') (podName p) = map_of (ApiClients s1) (podName p)"
    using IH d(2) by blast
  have pod_other: "map_of (ApiClients s1) (podName q) = map_of (ApiClients s) (podName q)"
    if "q \<in> set ps" for q
    by (rule other) (use d(2) that in \<open>metis imageI\<close>)
  have fits_other: "fits s1 q = fits s q" if "q \<in> set ps" for q
    using pod_other [OF that] by (simp add: fits_def)
  show ?case
  proof (intro conjI ballI allI impI)
    fix q assume q: "q \<in> set (p # ps)"
    show "fits s' q" if "IsPodReady q \<and> podIP q \<noteq> []"
      using q that IH wanted p by (auto simp: fits_def)
    show "map_of (ApiClients s') (podName q) = map_of (ApiClients s) (podName q)" if "fits s q"
      using q that IH p same fits_other pod_other by (cases "q = p") auto
  next
    fix n assume "n \<notin> podName ` set (p # ps)"
    then show "map_of (ApiClients s') n = map_of (ApiClients s) n" using IH other by simp
  next
    fix n e a
    assume a: "map_of (ApiClients s) n = Some e" "map_of (ApiClients s') n = Some e" "enClient e = Some a"
    show "heap s' a = heap s a"
    proof (cases "map_of (ApiClients s1) n = Some e")
      case True
      with a IH hp show ?thesis by metis
    next
      case False
      then have n: "n = podName p" using a(1) other by metis
      with p a(2) False show ?thesis by simp
    qed
  qed
qed

lemma drop_loop_Ok:
  assumes "reg_ok s" "distinct names" "set names \<subseteq> dom (map_of (ApiClients s))"
  shows "\<exists>s'. forR names (dropStale pods) s = (Ok (), s') \<and> reg_ok s' \<and> heap s' = heap s \<and>
    map_of (ApiClients s') = (\<lambda>n. if n \<in> set names \<and> \<not> list_ex (\<lambda>p. podName p = n) pods then None
       else map_of (ApiClients s) n)"
  using assms
proof (induction names arbitrary: s)
  case Nil
  then show ?case by (simp add: ret_def)
next
  case (Cons n ns)
  then obtain e where "map_of (ApiClients s) n = Some e" by auto
  then obtain s1 where r: "dropStale pods n s = (Ok (), s1)" "reg_ok s1" "heap s1 = heap s"
    and m: "map_of (ApiClients s1) = (if list_ex (\<lambda>p. podName p = n) pods then map_of (ApiClients s)
           else (map_of (ApiClients s))(n := None))"
    using dropStale_run [OF Cons.prems(1)] by metis
  have "set ns \<subseteq> dom (map_of (ApiClients s1))"
    using Cons.prems(2,3) m by (auto split: if_splits)
  from Cons.IH [OF r(2) _ this] Cons.prems(2) r m show ?case
    by (auto simp: bindR_def fun_eq_iff)
qed

section \<open>The whole refresh\<close>

lemma refreshClient_settled:
  assumes "typed_get K" "reg_ok s" "refreshClient K p s = (r, s')"
  shows "settled r"
proof -
  have create: "settled (fst (createClient K p t))" for t
    using returnsD [OF getAPISecret_returns [OF assms(1), of "\<lambda>_. True"]]
    by (cases "getAPISecret K t")
       (fastforce simp: createClient_def bindR_def ctxR_def Let_def modS_def worldless_def split: res.splits)
  have "enClient e \<noteq> None" if "map_of (ApiClients s) (podName p) = Some e" for e
    using assms(2) that reg_invD(1) unfolding reg_ok_def entry_ok_def by (metis option.distinct(1))
  then have "settled (fst (refreshClient K p s))"
    using create by (auto simp: refreshClient_def bindR_def getS_def ret_def closeClient_def modS_def
        split: option.splits)
  with assms(3) show ?thesis by simp
qed

lemma refresh_loop_returns: "typed_get K \<Longrightarrow> returns reg_ok (forR pods (refreshClient K))"
  by (rule returns_forR, rule returnsI)
     (auto intro: keepsI refreshClient_settled dest: refreshClient_cases)

lemma rangeClients_run:
  assumes "ranges_all K"
  obtains names w where "rangeClients K s = (Ok names, s\<lparr>world := w\<rparr>)"
    and "mset names = mset (mkeys (ApiClients s))"
proof -
  obtain names w where m: "map_order K (mkeys (ApiClients s)) (world s) = (names, w)" by (meson surj_pair)
  then have "rangeClients K s = (Ok names, s\<lparr>world := w\<rparr>)"
    by (simp add: rangeClients_def bindR_def getS_def askW_def askR_def)
  with m assms that show ?thesis unfolding ranges_all_def by (metis fst_conv)
qed

lemma drop_all:
  assumes "ranges_all K" "reg_ok s"
  shows "\<exists>s'. bindR (rangeClients K) (\<lambda>names. forR names (dropStale pods)) s = (Ok (), s') \<and>
    reg_ok s' \<and> heap s' = heap s \<and>
    map_of (ApiClients s') = (\<lambda>n. if list_ex (\<lambda>p. podName p = n) pods then map_of (ApiClients s) n else None)"
proof -
  obtain names w where r: "rangeClients K s = (Ok names, s\<lparr>world := w\<rparr>)"
    and m: "mset names = mset (mkeys (ApiClients s))"
    using rangeClients_run [OF assms(1)] by metis
  have d: "distinct names" "set names = dom (map_of (ApiClients s))"
    using assms(2) mset_eq_imp_distinct_iff [OF m] mset_eq_setD [OF m]
    by (auto simp: reg_ok_def dom_map_of_conv_image_fst)
  let ?t = "s\<lparr>world := w\<rparr>"
  have "reg_ok ?t" "set names \<subseteq> dom (map_of (ApiClients ?t))"
    using assms(2) d(2) by (simp_all add: reg_ok_world)
  from drop_loop_Ok [OF this(1) d(1) this(2), of pods] obtain s'
    where l: "forR names (dropStale pods) ?t = (Ok (), s')" "reg_ok s'" "heap s' = heap ?t"
    and m': "map_of (ApiClients s') = (\<lambda>n. if n \<in> set names \<and> \<not> list_ex (\<lambda>p. podName p = n) pods then None
       else map_of (ApiClients ?t) n)"
    by blast
  have "map_of (ApiClients s') = (\<lambda>n. if list_ex (\<lambda>p. podName p = n) pods then map_of (ApiClients s) n else None)"
    unfolding m' d(2) by (auto simp: fun_eq_iff)
  with r l show ?thesis by (simp add: bindR_def)
qed

section \<open>Properties\<close>

text \<open>The pods the operator asks for: all Pi-hole pods of the namespace of the cluster.\<close>

definition list_pods :: "'w kube \<Rightarrow> 'w rs \<Rightarrow> (gerror + Pod list) \<times> 'w" where
  "list_pods K s = k_list_pods K (clNamespace (cluster s)) [(''app.kubernetes.io/name'', ''pihole'')] (world s)"

lemma syncAPIClients_run:
  "list_pods K s = (Inl e, w) \<Longrightarrow> syncAPIClients K s = (Err (Wrapf ''listing pihole pods'' [] e), s\<lparr>world := w\<rparr>)"
  "list_pods K s = (Inr pods, w) \<Longrightarrow> syncAPIClients K s =
     bindR (forR pods (refreshClient K)) (\<lambda>_. bindR (rangeClients K) (\<lambda>names. forR names (dropStale pods)))
       (s\<lparr>world := w\<rparr>)"
  by (simp_all add: syncAPIClients_def list_pods_def getCluster_def askR_def bindR_def ctxR_def callW_def callR_def)

lemma syncAPIClients_registry:
  assumes "typed_get K" "ranges_all K" "reg_ok s" "syncAPIClients K s = (r, s')"
  shows "settled r \<and> reg_ok s'"
proof (cases "list_pods K s")
  case (Pair x w)
  show ?thesis
  proof (cases x)
    case (Inl e)
    from assms(3,4) show ?thesis by (auto simp: reg_ok_world syncAPIClients_run(1) [OF Pair [unfolded Inl]])
  next
    case (Inr pods)
    have ok: "reg_ok (s\<lparr>world := w\<rparr>)" using assms(3) by (rule reg_ok_world)
    obtain q s1 where q: "forR pods (refreshClient K) (s\<lparr>world := w\<rparr>) = (q, s1)" by (meson surj_pair)
    have "reg_ok s1" "settled q"
      using refresh_loop_keeps [OF ok q] returnsD [OF refresh_loop_returns [OF assms(1)] ok q] by auto
    then show ?thesis
      using drop_all [OF assms(2), of s1 pods] q Inr Pair assms(4) syncAPIClients_run(2) [of K s pods w]
      by (cases q) (auto simp: bindR_eq)
  qed
qed

text \<open>C24: refreshing the API clients always comes back with success or an error and keeps the registry
  well formed, on every path, whatever the API server answers: pod names are distinct keys, each entry
  points to an allocated client of its own whose base URL is the entry's address and whose mutex is
  free, and every client ever made is either still in the registry or had its connections closed.\<close>

theorem sync_clients_keeps_registry:
  assumes "typed_get K" "ranges_all K" "reg_ok s" "syncAPIClients K s = (r, s')"
  shows "settled r \<and> reg_ok s'"
  by (rule syncAPIClients_registry [OF assms])

definition ready_condition :: PodCondition where
  "ready_condition = \<lparr>pcType = ''Ready'', pcStatus = ''True''\<rparr>"

definition pod_at :: "string \<Rightarrow> string \<Rightarrow> Pod" where
  "pod_at n ip = \<lparr>podName = n, podUID = ''uid-'' @ n, podIP = ip, podConditions = [ready_condition]\<rparr>"

definition sample_cluster :: PiHoleCluster where
  "sample_cluster = zero_cluster\<lparr>clName := ''pi'', clNamespace := ''dns''\<rparr>"

definition sample_secret :: "string \<Rightarrow> string \<Rightarrow> string \<Rightarrow> kobj" where
  "sample_secret n k v = OSecret \<lparr>scMeta = mk_meta n ''dns'' [], scData = [(k, v)]\<rparr>"

lemma reg_ok_new [simp]: "reg_ok (new_rs cl w)"
  by (simp add: new_rs_def reg_ok_def reg_inv_def)

theorem sync_clients_keeps_registry_witness:
  "reg_ok (snd (syncAPIClients (static_kube [pod_at ''pi-rw-0'' ''10.0.0.1'']
      [sample_secret ''pi-api-password'' ''password'' ''pw''] sample_cluster) (new_rs sample_cluster ())))"
  using sync_clients_keeps_registry [OF static_kube_laws reg_ok_new]
  by (metis prod.collapse)

text \<open>C13: when refreshing the API clients succeeds, the registry follows the pods that were listed:
  every pod that is ready and has an address has a client made for \<open>http://\<close> and its address; no
  client is left for a name that was not listed; and a pod whose address did not change keeps its
  client, with its session.\<close>

theorem sync_clients_follow_the_pods:
  assumes "ranges_all K" and ok: "reg_ok s" and pods: "list_pods K s = (Inr pods, w)"
    and d: "distinct (map podName pods)" and run: "syncAPIClients K s = (Ok (), s')"
  shows "(\<forall>p \<in> set pods. IsPodReady p \<and> podIP p \<noteq> [] \<longrightarrow>
      (\<exists>e a. map_of (ApiClients s') (podName p) = Some e \<and> enClient e = Some a \<and>
         BaseURL (heap s' a) = ''http://'' @ podIP p)) \<and>
    fst ` set (ApiClients s') \<subseteq> podName ` set pods \<and>
    (\<forall>p \<in> set pods. \<forall>e a. map_of (ApiClients s) (podName p) = Some e \<and> enIP e = podIP p \<and> enClient e = Some a \<longrightarrow>
      map_of (ApiClients s') (podName p) = Some e \<and> heap s' a = heap s a)"
proof -
  let ?s = "s\<lparr>world := w\<rparr>"
  have ok0: "reg_ok ?s" using ok by (rule reg_ok_world)
  from run obtain s1 where r1: "forR pods (refreshClient K) ?s = (Ok (), s1)"
    and r2: "bindR (rangeClients K) (\<lambda>names. forR names (dropStale pods)) s1 = (Ok (), s')"
    unfolding syncAPIClients_run(2) [OF pods] by (rule bindR_OkE) simp
  have ok1: "reg_ok s1" by (rule refresh_loop_keeps [OF ok0 r1])
  from drop_all [OF assms(1) ok1, of pods] r2 have ok2: "reg_ok s'" and h: "heap s' = heap s1"
    and m: "map_of (ApiClients s') = (\<lambda>n. if list_ex (\<lambda>p. podName p = n) pods then map_of (ApiClients s1) n else None)"
    by auto
  have at: "map_of (ApiClients s') (podName p) = map_of (ApiClients s1) (podName p)" if "p \<in> set pods" for p
    using that m by (auto simp: list_ex_iff)
  note loop = refresh_loop_Ok [OF ok0 d r1]
  show ?thesis
  proof (intro conjI ballI allI impI)
    fix p assume "p \<in> set pods" "IsPodReady p \<and> podIP p \<noteq> []"
    with loop at obtain e where e: "map_of (ApiClients s') (podName p) = Some e" "enIP e = podIP p"
      by (auto simp: fits_def)
    then have "entry_ok (heap s') (nextAddr s') e"
      using ok2 reg_invD(1) unfolding reg_ok_def by metis
    with e show "\<exists>e a. map_of (ApiClients s') (podName p) = Some e \<and> enClient e = Some a \<and>
         BaseURL (heap s' a) = ''http://'' @ podIP p"
      by (auto simp: entry_ok_def base_url_def)
  next
    have "n \<in> podName ` set pods" if "map_of (ApiClients s') n \<noteq> None" for n
      using that m by (auto simp: list_ex_iff split: if_splits)
    then show "fst ` set (ApiClients s') \<subseteq> podName ` set pods"
      by (auto simp: map_of_eq_None_iff)
  next
    fix p e a
    assume p: "p \<in> set pods" "map_of (ApiClients s) (podName p) = Some e \<and> enIP e = podIP p \<and> enClient e = Some a"
    then have "fits ?s p" by (simp add: fits_def)
    with loop p have "map_of (ApiClients s1) (podName p) = Some e" by auto
    with loop p at h show "map_of (ApiClients s') (podName p) = Some e" "heap s' a = heap s a" by auto
  qed
qed

lemma static_kube_sel [simp]:
  "k_get (static_kube pods objs cl) kd ns n w = (case filter (\<lambda>x. kind_of x = kd \<and> omNamespace (meta_of x) = ns
        \<and> omName (meta_of x) = n) objs of [] \<Rightarrow> Inl (ApiStatus NotFound n) | x # _ \<Rightarrow> Inr x, w)"
  "k_list_pods (static_kube pods objs cl) ns ls w = (Inr pods, w)"
  "map_order (static_kube pods objs cl) ks w = (ks, w)"
  by (simp_all add: static_kube_def)

text \<open>One run on one ready pod.\<close>

lemma sample_refresh:
  "syncAPIClients (static_kube [pod_at ''pi-rw-0'' ip] [sample_secret ''pi-api-password'' ''password'' ''pw''] sample_cluster)
     (new_rs sample_cluster w) = (Ok (), alloc ''pi-rw-0'' ip ''pw'' (new_rs sample_cluster w))" if "ip \<noteq> []"
  using that
  by (simp add: syncAPIClients_def getCluster_def askR_def bindR_def ctxR_def callW_def callR_def askW_def
      pod_at_def sample_secret_def refreshClient_def createClient_def getS_def modS_def ret_def
      rangeClients_def dropStale_def IsPodReady_def ready_condition_def getAPISecret_def asSecret_def
      alloc_def Let_def new_rs_def sample_cluster_def zero_cluster_def zero_spec_def mk_meta_def)

theorem sync_clients_follow_the_pods_witness:
  "\<exists>e a. map_of (ApiClients (alloc ''pi-rw-0'' ''10.0.0.1'' ''pw'' (new_rs sample_cluster ()))) ''pi-rw-0'' = Some e \<and>
     enClient e = Some a \<and>
     BaseURL (heap (alloc ''pi-rw-0'' ''10.0.0.1'' ''pw'' (new_rs sample_cluster ())) a) = ''http://10.0.0.1''"
  using sync_clients_follow_the_pods [OF static_kube_laws(2) reg_ok_new _ _ sample_refresh]
  by (fastforce simp: list_pods_def pod_at_def IsPodReady_def ready_condition_def)

lemma ReadOnlyAPIClients_run:
  assumes "ranges_all K" "ReadOnlyAPIClients K s = (r, s')"
  obtains names w where "mset names = mset (mkeys (ApiClients s))" "s' = s\<lparr>world := w\<rparr>"
    and "r = (if filter (\<lambda>n. HasPrefix n (currentClusterName s @ ''-ro-'')) names = []
       then Err (Errorf ''no read-only API clients found'' [])
       else Ok (map (\<lambda>n. enClient (the (map_of (ApiClients s) n)))
              (filter (\<lambda>n. HasPrefix n (currentClusterName s @ ''-ro-'')) names)))"
proof -
  obtain names w where r: "rangeClients K s = (Ok names, s\<lparr>world := w\<rparr>)"
    and m: "mset names = mset (mkeys (ApiClients s))"
    by (rule rangeClients_run [OF assms(1)])
  show ?thesis
    by (rule that [OF m, of w])
       (use assms(2) r in \<open>simp_all add: ReadOnlyAPIClients_def bindR_def getS_def Let_def ret_def fail_def
          split: if_splits\<close>)
qed

text \<open>The read-only clients of a well-formed registry are exactly the clients of the pods whose
  name starts with the cluster name and \<open>-ro-\<close>, each of them once and none of them nil; the
  lookup fails exactly when there is no such pod, and changes nothing but the world the map iteration
  reads.\<close>

theorem read_only_clients_by_prefix:
  assumes "ranges_all K" "reg_ok s" "ReadOnlyAPIClients K s = (r, s')"
  shows "ApiClients s' = ApiClients s \<and> heap s' = heap s \<and>
    (case r of
       Ok cs \<Rightarrow> distinct cs \<and> cs \<noteq> [] \<and> None \<notin> set cs \<and>
         set cs = {enClient e | n e. map_of (ApiClients s) n = Some e \<and> HasPrefix n (currentClusterName s @ ''-ro-'')}
     | Err e \<Rightarrow> (\<forall>n. HasPrefix n (currentClusterName s @ ''-ro-'') \<longrightarrow> map_of (ApiClients s) n = None)
     | _ \<Rightarrow> False)"
proof -
  let ?P = "\<lambda>n. HasPrefix n (currentClusterName s @ ''-ro-'')" and ?m = "map_of (ApiClients s)"
  obtain names w where m: "mset names = mset (mkeys (ApiClients s))" and s': "s' = s\<lparr>world := w\<rparr>"
    and r: "r = (if filter ?P names = [] then Err (Errorf ''no read-only API clients found'' [])
       else Ok (map (\<lambda>n. enClient (the (?m n))) (filter ?P names)))"
    by (rule ReadOnlyAPIClients_run [OF assms(1,3)])
  have dist: "distinct names" and names: "set names = dom ?m"
    using assms(2) mset_eq_imp_distinct_iff [OF m] mset_eq_setD [OF m]
    by (auto simp: reg_ok_def dom_map_of_conv_image_fst)
  have inv: "reg_inv ?m (heap s) (nextAddr s) (set (idleClosed s))"
    using assms(2) by (simp add: reg_ok_def)
  have "inj_on (\<lambda>n. enClient (the (?m n))) (dom ?m)"
    using reg_invD(2) [OF inv] by (auto intro!: inj_onI)
  then have "inj_on (\<lambda>n. enClient (the (?m n))) (set (filter ?P names))"
    by (rule inj_on_subset) (auto simp: names)
  then have "distinct (map (\<lambda>n. enClient (the (?m n))) (filter ?P names))"
    using dist by (simp add: distinct_map)
  moreover have "None \<notin> set (map (\<lambda>n. enClient (the (?m n))) (filter ?P names))"
    using reg_invD(1) [OF inv] names by (fastforce simp: entry_ok_def)
  moreover have "set (map (\<lambda>n. enClient (the (?m n))) (filter ?P names)) =
      {enClient e | n e. ?m n = Some e \<and> ?P n}"
    using names by force
  moreover have "\<forall>n. ?P n \<longrightarrow> ?m n = None" if "filter ?P names = []"
    using that names by (auto simp: filter_empty_conv)
  ultimately have c: "case r of Ok cs \<Rightarrow> distinct cs \<and> cs \<noteq> [] \<and> None \<notin> set cs \<and>
      set cs = {enClient e | n e. ?m n = Some e \<and> ?P n}
    | Err e \<Rightarrow> \<forall>n. ?P n \<longrightarrow> ?m n = None | _ \<Rightarrow> False"
    unfolding r by (cases "filter ?P names = []") (simp_all only: if_True if_False res.case map_is_Nil_conv simp_thms True_implies_equals)
  have "ApiClients s' = ApiClients s" "heap s' = heap s" by (simp_all add: s')
  with c show ?thesis by blast
qed

lemma sample_ro:
  "ReadOnlyAPIClients (static_kube [] [] sample_cluster)
     (alloc ''pi-ro-0'' ''10.0.0.2'' ''pw'' (new_rs sample_cluster ())) =
   (Ok [Some 0], alloc ''pi-ro-0'' ''10.0.0.2'' ''pw'' (new_rs sample_cluster ()))"
  by (simp add: ReadOnlyAPIClients_def rangeClients_def bindR_def getS_def Let_def ret_def askW_def askR_def
      HasPrefix_def alloc_def new_rs_def sample_cluster_def zero_cluster_def)

lemma sample_ro_ok: "reg_ok (alloc n ip pw (new_rs cl w))"
  using alloc_reg_ok [OF reg_ok_new, of cl w n ip pw w] by (simp add: new_rs_def)

theorem read_only_clients_by_prefix_witness:
  "{Some (0 :: nat)} = {enClient e | n e.
      map_of (ApiClients (alloc ''pi-ro-0'' ''10.0.0.2'' ''pw'' (new_rs sample_cluster ()))) n = Some e \<and>
      HasPrefix n ''pi-ro-''}"
  using read_only_clients_by_prefix [OF static_kube_laws(2) sample_ro_ok sample_ro]
  by (simp add: alloc_def new_rs_def sample_cluster_def)

text \<open>C33: the name test is not specific to the cluster. If the namespace also holds a cluster whose
  name is this cluster's name, \<open>-ro-\<close> and anything more, then the read-write pod of that other
  cluster counts as a read-only replica of this one, and its client is handed out by the lookup.\<close>

theorem foreign_read_write_pod_is_taken_as_replica:
  assumes "ranges_all K" "reg_ok s" "ReadOnlyAPIClients K s = (Ok cs, s')"
    and "map_of (ApiClients s) ((currentClusterName s @ ''-ro-'' @ x) @ ''-rw-0'') = Some e"
  shows "enClient e \<in> set cs \<and> enClient e \<noteq> None"
proof -
  obtain names w where m: "mset names = mset (mkeys (ApiClients s))"
    and cs: "cs = map (\<lambda>n. enClient (the (map_of (ApiClients s) n)))
              (filter (\<lambda>n. HasPrefix n (currentClusterName s @ ''-ro-'')) names)"
    by (rule ReadOnlyAPIClients_run [OF assms(1,3)]) (auto split: if_splits)
  let ?n = "(currentClusterName s @ ''-ro-'' @ x) @ ''-rw-0''"
  have "?n \<in> set names"
    using map_of_Some_key [OF assms(4)] mset_eq_setD [OF m] by simp
  moreover have "HasPrefix ?n (currentClusterName s @ ''-ro-'')" by (simp add: HasPrefix_def)
  ultimately have "enClient (the (map_of (ApiClients s) ?n)) \<in> set cs"
    unfolding cs by (auto intro!: imageI)
  moreover have "enClient e \<noteq> None"
    using assms(2,4) reg_invD(1) unfolding reg_ok_def entry_ok_def by (metis option.distinct(1))
  ultimately show ?thesis using assms(4) by simp
qed

lemma sample_foreign:
  "ReadOnlyAPIClients (static_kube [] [] sample_cluster)
     (alloc ''pi-ro-lab-rw-0'' ''10.0.0.9'' ''pw'' (new_rs sample_cluster ())) =
   (Ok [Some 0], alloc ''pi-ro-lab-rw-0'' ''10.0.0.9'' ''pw'' (new_rs sample_cluster ()))"
  by (simp add: ReadOnlyAPIClients_def rangeClients_def bindR_def getS_def Let_def ret_def askW_def askR_def
      HasPrefix_def alloc_def new_rs_def sample_cluster_def zero_cluster_def)

theorem foreign_read_write_pod_is_taken_as_replica_witness:
  "\<exists>e. map_of (ApiClients (alloc ''pi-ro-lab-rw-0'' ''10.0.0.9'' ''pw'' (new_rs sample_cluster ()))) ''pi-ro-lab-rw-0''
     = Some e \<and> enClient e \<in> set [Some (0 :: nat)]"
  using foreign_read_write_pod_is_taken_as_replica
    [OF static_kube_laws(2) sample_ro_ok sample_foreign, where x = "''lab''"]
  by (simp add: alloc_def new_rs_def sample_cluster_def)

text \<open>C34: a cluster may name its own secret and the key that holds the password. The stateful sets
  hand that key to the pods, but the API client is made from the entry \<open>password\<close> whatever the
  cluster says: with the password under any other key, the new client is stored with the empty
  password, and no error is reported.\<close>

theorem custom_secret_key_gives_empty_password:
  assumes "Config (clSpec (cluster s)) = Some cfg" "apSecretRef (cfgAPIPassword cfg) = Some ref"
    and "k_get K SecretKind (clNamespace (cluster s)) (sksName ref) (world s) = (Inr (OSecret sec), w)"
    and "map_of (scData sec) (sksKey ref) = Some pw" "map_of (scData sec) ''password'' = None"
  shows "createClient K p s = (Ok (), alloc (podName p) (podIP p) [] (s\<lparr>world := w\<rparr>))"
  using assms
  by (simp add: createClient_def getAPISecret_def getCluster_def askR_def bindR_def ctxR_def callW_def
      callR_def asSecret_def ret_def modS_def alloc_def Let_def)

definition own_secret_cluster :: PiHoleCluster where
  "own_secret_cluster = sample_cluster\<lparr>clSpec := zero_spec\<lparr>Config := Some
     \<lparr>cfgAPIPassword = \<lparr>apPassword = [], apSecretRef = Some \<lparr>sksName = ''vault'', sksKey = ''pw''\<rparr>\<rparr>,
      cfgEnvVars = [], cfgAdLists = []\<rparr>\<rparr>\<rparr>"

theorem custom_secret_key_gives_empty_password_witness:
  "createClient (static_kube [] [sample_secret ''vault'' ''pw'' ''s3cret''] own_secret_cluster)
     (pod_at ''pi-rw-0'' ''10.0.0.1'') (new_rs own_secret_cluster ()) =
   (Ok (), alloc ''pi-rw-0'' ''10.0.0.1'' [] (new_rs own_secret_cluster ()))"
  using custom_secret_key_gives_empty_password [of "new_rs own_secret_cluster ()" _ _
      "static_kube [] [sample_secret ''vault'' ''pw'' ''s3cret''] own_secret_cluster" _ "()" "''s3cret''"
      "pod_at ''pi-rw-0'' ''10.0.0.1''"]
  by (simp add: new_rs_def own_secret_cluster_def sample_cluster_def zero_cluster_def zero_spec_def
      sample_secret_def mk_meta_def pod_at_def)

end
