(* ===== verification/AdListStore.thy ===== *)
theory AdListStore
  imports ApiClient "HOL-Library.Multiset"
begin

text \<open>
  The two halves of the ad-list synchronisation (\<open>internal/controller/piholecluster/sync.go\<close>,
  lines 129 to 246) over the four calls they make: bring the read-write instance to what the resource
  asks for, and bring one read-only instance to what the read-write instance has. The interface
  \<open>adlist_store\<close> states what the calls do to the lists of an instance; the lemmas of the two halves are
  proved once from it.
\<close>

definition operator_comment :: string where
  "operator_comment = ''Created by PiHole operator''"

section \<open>The code\<close>

text \<open>A Go set of strings: a map with the elements as keys.\<close>

definition to_set :: "string list \<Rightarrow> (string \<times> unit) list" where
  "to_set xs = fold (\<lambda>a m. mput a () m) xs []"

definition has_key :: "(string \<times> unit) list \<Rightarrow> string \<Rightarrow> bool" where
  "has_key m a \<longleftrightarrow> map_of m a \<noteq> None"

definition post_missing :: "string \<Rightarrow> (string \<Rightarrow> ('s, unit) prog) \<Rightarrow> (string \<times> unit) list \<Rightarrow> string list \<Rightarrow>
    ('s, unit) prog" where
  "post_missing msg post existing addrs =
     forR addrs (\<lambda>addr. if has_key existing addr then ret () else ctxR (Wrapf msg [FS addr]) (post addr))"

definition delete_lists :: "string \<Rightarrow> (string \<Rightarrow> ('s, unit) prog) \<Rightarrow> (AdList \<Rightarrow> bool) \<Rightarrow> AdList list \<Rightarrow>
    ('s, unit) prog" where
  "delete_lists msg del victim ls =
     forR ls (\<lambda>l. if victim l then ctxR (Wrapf msg [FS (adAddress l)]) (del (adAddress l)) else ret ())"

definition sync_rw ::
  "('s, AdList list) prog \<Rightarrow> (string \<Rightarrow> ('s, unit) prog) \<Rightarrow> (string \<Rightarrow> ('s, unit) prog) \<Rightarrow> ('s, unit) prog \<Rightarrow>
   (string list \<Rightarrow> ('s, string list) prog) \<Rightarrow> string list \<Rightarrow> ('s, (string \<times> unit) list) prog" where
  "sync_rw get post del gravity rng adLists =
     (let crdAddrs = to_set adLists in
      bindR (wrap ''fetching ad-lists from RW'' get) (\<lambda>rwLists.
      bindR (rng (mkeys crdAddrs)) (\<lambda>addrs.
      bindR (post_missing ''posting ad-list %s to RW'' post (to_set (map adAddress rwLists)) addrs) (\<lambda>_.
      bindR (wrap ''refetching ad-lists from RW'' get) (\<lambda>updatedRW.
      bindR (delete_lists ''deleting ad-list %s from RW'' del
         (\<lambda>l. adComment l = Some operator_comment \<and> \<not> has_key crdAddrs (adAddress l)) updatedRW) (\<lambda>_.
      bindR (wrap ''updating gravity on RW'' gravity) (\<lambda>_.
      bindR (wrap ''fetching ad-lists from RW'' get) (\<lambda>rwList.
      ret (to_set (map adAddress rwList))))))))))"

definition sync_ro ::
  "('s, AdList list) prog \<Rightarrow> (string \<Rightarrow> ('s, unit) prog) \<Rightarrow> (string \<Rightarrow> ('s, unit) prog) \<Rightarrow> ('s, unit) prog \<Rightarrow>
   (string list \<Rightarrow> ('s, string list) prog) \<Rightarrow> string \<Rightarrow> (string \<times> unit) list \<Rightarrow> ('s, unit) prog" where
  "sync_ro get post del gravity rng base finalRW =
     bindR (wrap ''fetching ad-lists from RO'' get) (\<lambda>roLists.
     bindR (rng (mkeys finalRW)) (\<lambda>addrs.
     bindR (post_missing ''posting ad-list %s to RO'' post (to_set (map adAddress roLists)) addrs) (\<lambda>_.
     bindR (wrap ''refetching ad-lists from RO'' get) (\<lambda>roLists.
     bindR (delete_lists ''deleting ad-list %s from RO'' del (\<lambda>l. \<not> has_key finalRW (adAddress l)) roLists) (\<lambda>_.
     ctxR (Wrapf ''updating gravity on ro(%s)'' [FS base]) gravity)))))"

lemma map_of_to_set: "map_of (fold (\<lambda>a m. mput a () m) xs m) = (\<lambda>a. if a \<in> set xs then Some () else map_of m a)"
  by (induction xs arbitrary: m) (auto simp: fun_eq_iff)

lemma has_key_to_set [simp]: "has_key (to_set xs) a \<longleftrightarrow> a \<in> set xs"
  by (simp add: has_key_def to_set_def map_of_to_set)

lemma set_to_set [simp]: "set (mkeys (to_set xs)) = set xs"
  by (metis (no_types, lifting) has_key_def has_key_to_set map_of_eq_None_iff set_map subsetI subset_antisym)

lemma distinct_to_set [simp]: "distinct (mkeys (to_set xs))"
proof -
  have "distinct (mkeys (fold (\<lambda>a m. mput a () m) xs m)) = distinct (mkeys m)" for m :: "(string \<times> unit) list"
    by (induction xs arbitrary: m) simp_all
  then show ?thesis by (simp add: to_set_def)
qed

section \<open>The interface\<close>

text \<open>
  \<open>h\<close>-values are handles of instances (\<open>host\<close> names the instance, \<open>usable\<close> says that its calls may be
  made); \<open>lists s u\<close> is what instance \<open>u\<close> holds, a comment for each address. A step is \<open>stable\<close> when
  handles keep their instance and stay usable.
\<close>

definition stable :: "('h \<Rightarrow> 's \<Rightarrow> bool) \<Rightarrow> ('h \<Rightarrow> 's \<Rightarrow> string) \<Rightarrow> 's \<Rightarrow> 's \<Rightarrow> bool" where
  "stable usable host s s' \<longleftrightarrow> (\<forall>p. host p s' = host p s \<and> (usable p s \<longrightarrow> usable p s'))"

lemma stable_refl [simp]: "stable usable host s s"
  by (simp add: stable_def)

lemma stable_trans: "stable usable host s s1 \<Longrightarrow> stable usable host s1 s2 \<Longrightarrow> stable usable host s s2"
  by (simp add: stable_def)

lemma stableD: "stable usable host s s' \<Longrightarrow> host p s' = host p s"
  "stable usable host s s' \<Longrightarrow> usable p s \<Longrightarrow> usable p s'"
  by (simp_all add: stable_def)

text \<open>
  What the two halves make of the lists \<open>m\<close> of an instance: the read-write instance keeps every list
  with another comment, loses the operator's lists that are not wanted and gains the missing ones; a
  read-only instance has exactly the addresses of the read-write one.
\<close>

definition add_lists :: "string set \<Rightarrow> (string \<rightharpoonup> string option) \<Rightarrow> (string \<rightharpoonup> string option)" where
  "add_lists A m = (\<lambda>a. if a \<in> A \<and> m a = None then Some (Some operator_comment) else m a)"

definition rw_target :: "string list \<Rightarrow> (string \<rightharpoonup> string option) \<Rightarrow> (string \<rightharpoonup> string option)" where
  "rw_target want m = (\<lambda>a. if a \<notin> set want \<and> m a = Some (Some operator_comment) then None
     else add_lists (set want) m a)"

definition ro_target :: "string set \<Rightarrow> (string \<rightharpoonup> string option) \<Rightarrow> (string \<rightharpoonup> string option)" where
  "ro_target A m = add_lists A m |` A"

locale adlist_store =
  fixes usable :: "'h \<Rightarrow> 's \<Rightarrow> bool" and host :: "'h \<Rightarrow> 's \<Rightarrow> string"
    and lists :: "'s \<Rightarrow> string \<Rightarrow> (string \<rightharpoonup> string option)" and clean :: "string \<Rightarrow> bool"
    and get :: "'h \<Rightarrow> ('s, AdList list) prog" and post :: "'h \<Rightarrow> string \<Rightarrow> ('s, unit) prog"
    and del :: "'h \<Rightarrow> string \<Rightarrow> ('s, unit) prog" and gravity :: "'h \<Rightarrow> ('s, unit) prog"
    and rng :: "string list \<Rightarrow> ('s, string list) prog"
  assumes get_Ok: "usable p s \<Longrightarrow> get p s = (Ok ls, s') \<Longrightarrow>
      stable usable host s s' \<and> lists s' = lists s \<and>
      (\<lambda>l. (adAddress l, adComment l)) ` set ls = Map.graph (lists s (host p s))"
    and post_Ok: "usable p s \<Longrightarrow> lists s (host p s) a = None \<Longrightarrow> post p a s = (Ok (), s') \<Longrightarrow>
      stable usable host s s' \<and>
      lists s' = (lists s)(host p s := (lists s (host p s))(a \<mapsto> Some operator_comment))"
    and del_Ok: "usable p s \<Longrightarrow> clean a \<Longrightarrow> del p a s = (Ok (), s') \<Longrightarrow>
      stable usable host s s' \<and> lists s' = (lists s)(host p s := (lists s (host p s))(a := None))"
    and gravity_Ok: "usable p s \<Longrightarrow> gravity p s = (Ok (), s') \<Longrightarrow> stable usable host s s' \<and> lists s' = lists s"
    and rng_Ok: "rng ks s = (Ok xs, s') \<Longrightarrow> stable usable host s s' \<and> lists s' = lists s \<and> mset xs = mset ks"
begin

text \<open>Posting the addresses of \<open>xs\<close> that are not in \<open>ex\<close>.\<close>

lemma post_missing_Ok:
  assumes "usable p s" "\<And>a. has_key ex a \<longleftrightarrow> a \<in> E"
    and "\<And>a. a \<in> set xs \<Longrightarrow> a \<notin> E \<Longrightarrow> lists s (host p s) a = None" "distinct xs"
    and "post_missing msg (post p) ex xs s = (Ok (), s')"
  shows "stable usable host s s' \<and> lists s' = (lists s)(host p s :=
     (\<lambda>a. if a \<in> set xs \<and> a \<notin> E then Some (Some operator_comment) else lists s (host p s) a))"
  using assms
proof (induction xs arbitrary: s)
  case Nil
  then show ?case by (auto simp: post_missing_def)
next
  case (Cons x xs)
  then obtain s1 where r1: "(if has_key ex x then ret () else ctxR (Wrapf msg [FS x]) (post p x)) s = (Ok (), s1)"
    and r2: "post_missing msg (post p) ex xs s1 = (Ok (), s')"
    by (auto simp: post_missing_def elim!: bindR_OkE)
  have st: "stable usable host s s1"
    and l: "lists s1 = (if x \<in> E then lists s else (lists s)(host p s := (lists s (host p s))(x \<mapsto> Some operator_comment)))"
    using r1 Cons.prems(1-3) post_Ok [OF Cons.prems(1), of x s1] by (auto split: if_splits elim!: ctxR_OkE)
  note h = stableD(1) [OF st, of p] and u = stableD(2) [OF st Cons.prems(1)]
  have "lists s1 (host p s1) a = None" if "a \<in> set xs" "a \<notin> E" for a
    using that Cons.prems(3) [of a] Cons.prems(4) h l by auto
  from Cons.IH [OF u Cons.prems(2) this _ r2] Cons.prems(4)
  have "stable usable host s1 s'" "lists s' = (lists s1)(host p s1 :=
     (\<lambda>a. if a \<in> set xs \<and> a \<notin> E then Some (Some operator_comment) else lists s1 (host p s1) a))" by auto
  with st l h show ?case by (auto simp: fun_eq_iff intro: stable_trans)
qed

lemma delete_lists_Ok:
  assumes "usable p s" "\<And>l. l \<in> set ls \<Longrightarrow> victim l \<Longrightarrow> clean (adAddress l)"
    and "delete_lists msg (del p) victim ls s = (Ok (), s')"
  shows "stable usable host s s' \<and> lists s' = (lists s)(host p s :=
     (\<lambda>a. if \<exists>l \<in> set ls. victim l \<and> adAddress l = a then None else lists s (host p s) a))"
  using assms
proof (induction ls arbitrary: s)
  case Nil
  then show ?case by (auto simp: delete_lists_def)
next
  case (Cons x ls)
  then obtain s1 where
    r1: "(if victim x then ctxR (Wrapf msg [FS (adAddress x)]) (del p (adAddress x)) else ret ()) s = (Ok (), s1)"
    and r2: "delete_lists msg (del p) victim ls s1 = (Ok (), s')"
    by (auto simp: delete_lists_def elim!: bindR_OkE)
  have st: "stable usable host s s1"
    and l: "lists s1 = (if victim x then (lists s)(host p s := (lists s (host p s))(adAddress x := None)) else lists s)"
    using r1 Cons.prems(1,2) del_Ok [OF Cons.prems(1), of "adAddress x" s1]
    by (auto split: if_splits elim!: ctxR_OkE)
  note h = stableD(1) [OF st, of p] and u = stableD(2) [OF st Cons.prems(1)]
  from Cons.IH [OF u _ r2] Cons.prems(2)
  have "stable usable host s1 s'" "lists s' = (lists s1)(host p s1 :=
     (\<lambda>a. if \<exists>l \<in> set ls. victim l \<and> adAddress l = a then None else lists s1 (host p s1) a))" by auto
  with st l h show ?case by (auto simp: fun_eq_iff intro: stable_trans)
qed

text \<open>What the two halves make of the lists \<open>m\<close> of an instance.\<close>

lemma get_member:
  assumes "usable p s" "get p s = (Ok ls, s')"
  shows "(a, c) \<in> (\<lambda>l. (adAddress l, adComment l)) ` set ls \<longleftrightarrow> lists s (host p s) a = Some c"
    and "a \<in> set (map adAddress ls) \<longleftrightarrow> lists s (host p s) a \<noteq> None"
proof -
  have g: "(\<lambda>l. (adAddress l, adComment l)) ` set ls = Map.graph (lists s (host p s))"
    using get_Ok [OF assms] by simp
  then show "(a, c) \<in> (\<lambda>l. (adAddress l, adComment l)) ` set ls \<longleftrightarrow> lists s (host p s) a = Some c"
    by (auto simp: Map.graph_def)
  have "set (map adAddress ls) = fst ` ((\<lambda>l. (adAddress l, adComment l)) ` set ls)"
    by (simp add: image_image)
  then show "a \<in> set (map adAddress ls) \<longleftrightarrow> lists s (host p s) a \<noteq> None"
    unfolding g by (force simp: Map.graph_def)
qed

lemma rng_set:
  assumes "rng (mkeys (to_set ks)) s = (Ok xs, s')"
  shows "set xs = set ks" "distinct xs"
proof -
  have m: "mset xs = mset (mkeys (to_set ks))" using rng_Ok [OF assms] by blast
  from mset_eq_setD [OF m] show "set xs = set ks" by (simp only: set_to_set)
  from mset_eq_imp_distinct_iff [OF m] show "distinct xs" by simp
qed

text \<open>The first half of \<open>sync_rw\<close>: what is there when the deletions start, and what will be deleted.\<close>

lemma sync_rw_mid:
  assumes u: "usable p s"
    and run: "sync_rw (get p) (post p) (del p) (gravity p) rng want s = (Ok final, s')"
  obtains l2 s4 s5 s6 l3 V where "stable usable host s s4"
    and "lists s4 = (lists s)(host p s := add_lists (set want) (lists s (host p s)))"
    and "delete_lists ''deleting ad-list %s from RW'' (del p) V l2 s4 = (Ok (), s5)"
    and "gravity p s5 = (Ok (), s6)" and "get p s6 = (Ok l3, s')" and "final = to_set (map adAddress l3)"
    and "\<And>a. (\<exists>l \<in> set l2. V l \<and> adAddress l = a) \<longleftrightarrow>
       a \<notin> set want \<and> lists s (host p s) a = Some (Some operator_comment)"
proof -
  from run obtain l1 s1 order s2 s3 l2 s4 s5 s6 l3 where
    g1: "get p s = (Ok l1, s1)" and o: "rng (mkeys (to_set want)) s1 = (Ok order, s2)"
    and pm: "post_missing ''posting ad-list %s to RW'' (post p) (to_set (map adAddress l1)) order s2 = (Ok (), s3)"
    and g2: "get p s3 = (Ok l2, s4)"
    and dl: "delete_lists ''deleting ad-list %s from RW'' (del p)
       (\<lambda>l. adComment l = Some operator_comment \<and> \<not> has_key (to_set want) (adAddress l)) l2 s4 = (Ok (), s5)"
    and gr: "gravity p s5 = (Ok (), s6)" and g3: "get p s6 = (Ok l3, s')"
    and final: "final = to_set (map adAddress l3)"
    unfolding sync_rw_def Let_def by (auto elim!: bindR_OkE ctxR_OkE)
  let ?h = "host p s" and ?m = "lists s (host p s)"
  note g1' = get_Ok [OF u g1]
  note u1 = stableD(2) [OF conjunct1 [OF g1'] u]
  have st2: "stable usable host s s2" and l2: "lists s2 = lists s"
    using g1' rng_Ok [OF o] by (auto intro: stable_trans)
  note order = rng_set [OF o]
  note u2 = stableD(2) [OF st2 u] and h2 = stableD(1) [OF st2, of p]
  have ex: "has_key (to_set (map adAddress l1)) a \<longleftrightarrow> a \<in> dom ?m" for a
    using get_member(2) [OF u g1, of a] by auto
  have "stable usable host s2 s3"
    and l3: "lists s3 = (lists s)(?h := add_lists (set want) ?m)"
    using post_missing_Ok [OF u2 ex _ order(2) pm] l2 h2
    by (auto simp: order add_lists_def fun_eq_iff domIff)
  with st2 have st3: "stable usable host s s3" by (blast intro: stable_trans)
  note u3 = stableD(2) [OF st3 u] and h3 = stableD(1) [OF st3, of p]
  note g2' = get_Ok [OF u3 g2]
  have st4: "stable usable host s s4" and l4: "lists s4 = (lists s)(?h := add_lists (set want) ?m)"
    using g2' st3 l3 by (auto intro: stable_trans)
  let ?V = "\<lambda>l. adComment l = Some operator_comment \<and> \<not> has_key (to_set want) (adAddress l)"
  have mem: "(\<exists>l \<in> set l2. ?V l \<and> adAddress l = a) \<longleftrightarrow> a \<notin> set want \<and> ?m a = Some (Some operator_comment)" for a
    using get_member(1) [OF u3 g2, of a "Some operator_comment"]
    by (auto simp: h3 l3 add_lists_def image_iff split: if_splits)
  show ?thesis by (rule that [OF st4 l4 dl gr g3 final mem])
qed

lemma sync_rw_Ok:
  assumes u: "usable p s" and clean: "\<And>a. lists s (host p s) a = Some (Some operator_comment) \<Longrightarrow> clean a"
    and run: "sync_rw (get p) (post p) (del p) (gravity p) rng want s = (Ok final, s')"
  shows "stable usable host s s' \<and> lists s' = (lists s)(host p s := rw_target want (lists s (host p s))) \<and>
    (\<exists>ks. final = to_set ks \<and> set ks = dom (rw_target want (lists s (host p s))))"
  using u run
proof (rule sync_rw_mid)
  let ?h = "host p s" and ?m = "lists s (host p s)"
  fix l2 s4 s5 s6 l3 V
  assume st4: "stable usable host s s4" and l4: "lists s4 = (lists s)(?h := add_lists (set want) ?m)"
    and dl: "delete_lists ''deleting ad-list %s from RW'' (del p) V l2 s4 = (Ok (), s5)"
    and gr: "gravity p s5 = (Ok (), s6)" and g3: "get p s6 = (Ok l3, s')" and final: "final = to_set (map adAddress l3)"
    and mem: "\<And>a. (\<exists>l \<in> set l2. V l \<and> adAddress l = a) \<longleftrightarrow> a \<notin> set want \<and> ?m a = Some (Some operator_comment)"
  note u4 = stableD(2) [OF st4 u] and h4 = stableD(1) [OF st4, of p]
  have cl: "clean (adAddress l)" if "l \<in> set l2" "V l" for l
    using mem [of "adAddress l"] that clean by blast
  have "stable usable host s4 s5" and l5: "lists s5 = (lists s)(?h := rw_target want ?m)"
    using delete_lists_Ok [OF u4 cl dl, unfolded mem] l4 h4
    by (auto simp: rw_target_def fun_eq_iff)
  with st4 have st5: "stable usable host s s5" by (blast intro: stable_trans)
  note g = gravity_Ok [OF stableD(2) [OF st5 u] gr]
  then have st6: "stable usable host s s6" using st5 by (blast intro: stable_trans)
  note g3' = get_Ok [OF stableD(2) [OF st6 u] g3]
  have "stable usable host s s'" using g3' st6 by (blast intro: stable_trans)
  moreover have "lists s' = (lists s)(?h := rw_target want ?m)" using g3' g l5 by simp
  moreover have "set (map adAddress l3) = dom (rw_target want ?m)"
    using get_member(2) [OF stableD(2) [OF st6 u] g3] g l5 stableD(1) [OF st6, of p]
    by (simp add: set_eq_iff domIff)
  ultimately show ?thesis using final by blast
qed

lemma delete_lists_calls:
  "delete_lists msg d V ls s = (Ok (), s') \<Longrightarrow> l \<in> set ls \<Longrightarrow> V l \<Longrightarrow> \<exists>t t'. d (adAddress l) t = (Ok (), t')"
proof (induction ls arbitrary: s)
  case (Cons x ls)
  then obtain s1 where
    "(if V x then ctxR (Wrapf msg [FS (adAddress x)]) (d (adAddress x)) else ret ()) s = (Ok (), s1)"
    "delete_lists msg d V ls s1 = (Ok (), s')"
    by (auto simp: delete_lists_def elim!: bindR_OkE)
  with Cons show ?case by (cases "l = x") (auto elim!: ctxR_OkE)
qed simp

text \<open>A list of the operator's that is not wanted is deleted, or the synchronisation fails.\<close>

lemma sync_rw_deletes:
  assumes "usable p s" "sync_rw (get p) (post p) (del p) (gravity p) rng want s = (Ok final, s')"
    and "lists s (host p s) a = Some (Some operator_comment)" "a \<notin> set want"
  shows "\<exists>t t'. del p a t = (Ok (), t')"
  using assms(1,2)
proof (rule sync_rw_mid)
  fix l2 s4 s5 V
  assume "delete_lists ''deleting ad-list %s from RW'' (del p) V l2 s4 = (Ok (), s5)"
    and "\<And>a. (\<exists>l \<in> set l2. V l \<and> adAddress l = a) \<longleftrightarrow>
       a \<notin> set want \<and> lists s (host p s) a = Some (Some operator_comment)"
  with assms(3,4) show ?thesis by (metis delete_lists_calls)
qed

lemma sync_ro_Ok:
  assumes u: "usable p s" and A: "finalRW = to_set ks"
    and clean: "\<And>a. lists s (host p s) a \<noteq> None \<Longrightarrow> a \<notin> set ks \<Longrightarrow> clean a"
    and run: "sync_ro (get p) (post p) (del p) (gravity p) rng base finalRW s = (Ok (), s')"
  shows "stable usable host s s' \<and> lists s' = (lists s)(host p s := ro_target (set ks) (lists s (host p s)))"
proof -
  from run obtain l1 s1 order s2 s3 l2 s4 s5 where
    g1: "get p s = (Ok l1, s1)" and o: "rng (mkeys (to_set ks)) s1 = (Ok order, s2)"
    and pm: "post_missing ''posting ad-list %s to RO'' (post p) (to_set (map adAddress l1)) order s2 = (Ok (), s3)"
    and g2: "get p s3 = (Ok l2, s4)"
    and dl: "delete_lists ''deleting ad-list %s from RO'' (del p) (\<lambda>l. \<not> has_key (to_set ks) (adAddress l)) l2 s4
       = (Ok (), s5)"
    and gr: "gravity p s5 = (Ok (), s')"
    unfolding sync_ro_def A by (auto elim!: bindR_OkE ctxR_OkE)
  let ?h = "host p s" and ?m = "lists s (host p s)"
  note g1' = get_Ok [OF u g1]
  have st2: "stable usable host s s2" and l2: "lists s2 = lists s"
    using g1' rng_Ok [OF o] by (auto intro: stable_trans)
  note order = rng_set [OF o]
  note u2 = stableD(2) [OF st2 u] and h2 = stableD(1) [OF st2, of p]
  have ex: "has_key (to_set (map adAddress l1)) a \<longleftrightarrow> a \<in> dom ?m" for a
    using get_member(2) [OF u g1, of a] by auto
  have "stable usable host s2 s3"
    and l3: "lists s3 = (lists s)(?h := add_lists (set ks) ?m)"
    using post_missing_Ok [OF u2 ex _ order(2) pm] l2 h2
    by (auto simp: order add_lists_def fun_eq_iff domIff)
  with st2 have st3: "stable usable host s s3" by (blast intro: stable_trans)
  note u3 = stableD(2) [OF st3 u] and h3 = stableD(1) [OF st3, of p]
  note g2' = get_Ok [OF u3 g2]
  have st4: "stable usable host s s4" and l4: "lists s4 = lists s3"
    using g2' st3 by (blast intro: stable_trans)+
  note u4 = stableD(2) [OF st4 u] and h4 = stableD(1) [OF st4, of p]
  let ?V = "\<lambda>l. \<not> has_key (to_set ks) (adAddress l)"
  have mem: "(\<exists>l \<in> set l2. ?V l \<and> adAddress l = a) \<longleftrightarrow> a \<notin> set ks \<and> ?m a \<noteq> None" for a
    using get_member(2) [OF u3 g2, of a]
    by (auto simp: h3 l3 add_lists_def image_iff)
  have cl: "clean (adAddress l)" if "l \<in> set l2" "?V l" for l
    using mem [of "adAddress l"] that clean by blast
  have "stable usable host s4 s5" and l5: "lists s5 = (lists s)(?h := ro_target (set ks) ?m)"
    using delete_lists_Ok [OF u4 cl dl, unfolded mem] l4 l3 h4
    by (auto simp: ro_target_def add_lists_def restrict_map_def fun_eq_iff)
  with st4 have st5: "stable usable host s s5" by (blast intro: stable_trans)
  note g = gravity_Ok [OF stableD(2) [OF st5 u] gr]
  from st5 g have "stable usable host s s'" by (blast intro: stable_trans)
  with g l5 show ?thesis by simp
qed

text \<open>All read-only instances one after the other; two handles may name the same instance.\<close>

lemma sync_ros_Ok:
  assumes "\<And>p. p \<in> set ps \<Longrightarrow> usable p s" "finalRW = to_set ks"
    and "\<And>p a. p \<in> set ps \<Longrightarrow> lists s (host p s) a \<noteq> None \<Longrightarrow> a \<notin> set ks \<Longrightarrow> clean a"
    and "\<And>p t t'. body p t = (Ok (), t') \<Longrightarrow>
       \<exists>base. sync_ro (get p) (post p) (del p) (gravity p) rng base finalRW t = (Ok (), t')"
    and "forR ps body s = (Ok (), s')"
  shows "stable usable host s s' \<and>
    (\<forall>p \<in> set ps. lists s' (host p s) = ro_target (set ks) (lists s (host p s))) \<and>
    (\<forall>u. u \<notin> (\<lambda>p. host p s) ` set ps \<longrightarrow> lists s' u = lists s u)"
  using assms
proof (induction ps arbitrary: s)
  case Nil
  then show ?case by auto
next
  case (Cons p ps)
  from Cons.prems(5) obtain s1 where r1: "body p s = (Ok (), s1)" and r2: "forR ps body s1 = (Ok (), s')"
    unfolding forR.simps by (rule bindR_OkE) simp
  from Cons.prems(4) [OF r1] obtain base where
    "sync_ro (get p) (post p) (del p) (gravity p) rng base finalRW s = (Ok (), s1)" by blast
  from sync_ro_Ok [OF _ Cons.prems(2) _ this] Cons.prems(1,3)
  have st: "stable usable host s s1"
    and l: "lists s1 = (lists s)(host p s := ro_target (set ks) (lists s (host p s)))" by auto
  note h = stableD(1) [OF st]
  have idem: "ro_target A (ro_target A m) = ro_target A m" for A m
    by (auto simp: ro_target_def add_lists_def restrict_map_def fun_eq_iff)
  have "lists s1 (host q s1) a \<noteq> None \<Longrightarrow> a \<notin> set ks \<Longrightarrow> clean a" if "q \<in> set ps" for q a
    using that Cons.prems(3) [of q a] h l by (auto simp: ro_target_def restrict_map_def split: if_splits)
  moreover have "usable q s1" if "q \<in> set ps" for q
    using that Cons.prems(1) stableD(2) [OF st] by auto
  ultimately have IH: "stable usable host s1 s' \<and>
    (\<forall>q \<in> set ps. lists s' (host q s1) = ro_target (set ks) (lists s1 (host q s1))) \<and>
    (\<forall>u. u \<notin> (\<lambda>q. host q s1) ` set ps \<longrightarrow> lists s' u = lists s1 u)"
    using Cons.IH [OF _ Cons.prems(2) _ Cons.prems(4) r2] by blast
  have "lists s' (host p s) = ro_target (set ks) (lists s (host p s))"
    using IH l idem h by (cases "host p s \<in> (\<lambda>q. host q s) ` set ps") auto
  with IH st l h idem show ?case by (auto intro: stable_trans)
qed

end

end
