(* ===== verification/PiholeServer.thy ===== *)
theory PiholeServer
  imports Registry AdListStore
begin

text \<open>
  The Pi-hole servers the ad-list synchronisation talks to: the documented effect of the five requests
  it makes (\<open>internal/pihole_api/api_client.go\<close>) on the lists of a server as the interface
  \<open>pihole_server\<close>, and the proof that the API client, called through the registry of the reconciler,
  then meets the interface \<open>adlist_store\<close>.
\<close>

section \<open>The interface of the servers\<close>

text \<open>
  \<open>db w u\<close>: the lists of the server at base URL \<open>u\<close>, a comment for each address. The laws say what a
  successful request does, that nobody else changes lists meanwhile, and that a delete removes the
  address its path segment decodes to.
\<close>

locale pihole_server =
  fixes N :: "'w net" and db :: "'w \<Rightarrow> string \<Rightarrow> (string \<rightharpoonup> string option)"
  assumes time_db: "time_now N w = (tm, w') \<Longrightarrow> db w' = db w"
    and wait_db: "wait N x d w = (o1, w') \<Longrightarrow> db w' = db w"
    and auth_db: "rqMethod r = ''POST'' \<Longrightarrow> rqURL r = b @ ''/api/auth'' \<Longrightarrow>
      http_do N t k r w = (y, w') \<Longrightarrow> db w' = db w"
    and lists_db: "rqMethod r = ''GET'' \<Longrightarrow> rqURL r = b @ ''/api/lists'' \<Longrightarrow>
      http_do N t k r w = (Inr resp, w') \<Longrightarrow> rspStatus resp = 200 \<Longrightarrow>
      dec_lists N (rspBody resp) (rspReadErr resp) = Inr ls \<Longrightarrow>
      db w' = db w \<and> (\<lambda>l. (adAddress l, adComment l)) ` set ls = Map.graph (db w b)"
    and create_db: "rqMethod r = ''POST'' \<Longrightarrow> rqURL r = b @ ''/api/lists'' \<Longrightarrow>
      rqBody r = JsonBody (adlist_payload a) \<Longrightarrow> db w b a = None \<Longrightarrow>
      http_do N t k r w = (Inr resp, w') \<Longrightarrow> rspStatus resp = 200 \<or> rspStatus resp = 201 \<Longrightarrow>
      db w' = (db w)(b := (db w b)(a \<mapsto> Some operator_comment))"
    and delete_db: "rqMethod r = ''DELETE'' \<Longrightarrow> rqURL r = b @ ''/api/lists/'' @ seg @ ''?type=block'' \<Longrightarrow>
      CHR ''/'' \<notin> set seg \<Longrightarrow> PathUnescape seg = Some a \<Longrightarrow>
      http_do N t k r w = (Inr resp, w') \<Longrightarrow> rspStatus resp = 200 \<or> rspStatus resp = 204 \<Longrightarrow>
      db w' = (db w)(b := (db w b)(a := None))"
    and gravity_db: "rqMethod r = ''POST'' \<Longrightarrow> rqURL r = b @ ''/api/action/gravity'' \<Longrightarrow>
      http_do N t k r w = (y, w') \<Longrightarrow> db w' = db w"
begin

lemma doAuth_db: "doAuth N (c, w) = (r, (c', w')) \<Longrightarrow> db w' = db w"
  unfolding doAuth_def Let_def bindR_def client_def askR_def ctxR_def newRequest_def Do_def callR_def
    pureR_def fail_def ret_def modC_def modS_def now_def setHeader_def
  by (auto split: option.splits sum.splits if_splits prod.splits res.splits
      dest!: time_db auth_db [rotated 2])

lemma ensureAuth_db:
  assumes f: "\<not> mu c" and run: "ensureAuth N (c, w) = (r, (c', w'))"
  shows "db w' = db w \<and> identity c' = identity c \<and> \<not> mu c'"
proof -
  obtain t w1 where t: "time_now N w = (t, w1)" by (cases "time_now N w")
  let ?I = "\<lambda>s. db (snd s) = db w"
  have k: "keeps ?I (doAuth N)" by (auto simp: keeps_def dest: doAuth_db)
      (metis doAuth_db prod.collapse)
  have p: "kept_by ?I (pause_of (sel N Background))"
    by (auto simp: kept_by_def pause_of_def sel_def case_prod_beta) (metis prod.collapse wait_db)
  have "db w' = db w"
  proof (cases "validity c < t")
    case True
    with run ensureAuth_run [OF f t] have "Authenticate N (c, w1) = (r, (c', w'))" by simp
    from Authenticate_run [OF f this] obtain c1 where
      "retryWithBackoff (sel N Background) pihole_backoff (doAuth N) (c\<lparr>mu := True\<rparr>, w1) = (r, (c1, w'))" by blast
    from keepsD [OF backoff.run_keeps [OF k p] _ this] show ?thesis using time_db [OF t] by simp
  next
    case False
    with run ensureAuth_run [OF f t] time_db [OF t] show ?thesis by simp
  qed
  moreover have "free (identity c) (c', w')"
    by (rule keepsD [OF returns_keeps [OF ensureAuth_returns] _ run]) (simp add: f)
  ultimately show ?thesis by simp
qed

text \<open>What a run that succeeds did: authenticate, then one request.\<close>

lemma GetAdLists_db:
  assumes f: "\<not> mu c" and run: "GetAdLists N x (c, w) = (Ok ls, (c', w'))"
  shows "identity c' = identity c \<and> \<not> mu c' \<and> db w' = db w \<and>
    (\<lambda>l. (adAddress l, adComment l)) ` set ls = Map.graph (db w (BaseURL c))"
proof -
  from run obtain w1 and resp :: http_resp where a: "ensureAuth N (c, w) = (Ok (), (c', w1))"
    and d: "http_do N (cltTimeout c') (cltSkipTLS c') (setHeader ''X-FTL-SID'' (sessionID c')
       (request ''GET'' (BaseURL c @ ''/api/lists'') [] NoBody x)) w1 = (Inr resp, w')"
    and st: "rspStatus resp = 200" and l: "dec_lists N (rspBody resp) (rspReadErr resp) = Inr ls"
    unfolding GetAdLists_def Let_def client_def newRequest_def Do_def pureR_def request_def
    by (auto elim!: prog_elims split: if_splits option.splits prod.splits sum.splits)
  show ?thesis
    using ensureAuth_db [OF f a] lists_db [OF _ _ d st l] by (simp add: request_def setHeader_def)
qed

lemma PostAdList_db:
  assumes f: "\<not> mu c" and new: "db w (BaseURL c) addr = None" and run: "PostAdList N x addr (c, w) = (Ok (), (c', w'))"
  shows "identity c' = identity c \<and> \<not> mu c' \<and>
    db w' = (db w)(BaseURL c := (db w (BaseURL c))(addr \<mapsto> Some operator_comment))"
proof -
  from run obtain w1 and resp :: http_resp where a: "ensureAuth N (c, w) = (Ok (), (c', w1))"
    and d: "http_do N (cltTimeout c') (cltSkipTLS c') (setHeader ''Content-Type'' ''application/json''
       (setHeader ''X-FTL-SID'' (sessionID c')
       (request ''POST'' (BaseURL c @ ''/api/lists'') [] (JsonBody (adlist_payload addr)) x))) w1 = (Inr resp, w')"
    and st: "rspStatus resp = 200 \<or> rspStatus resp = 201"
    unfolding PostAdList_def Let_def client_def newRequest_def Do_def request_def
    by (auto elim!: prog_elims split: if_splits option.splits prod.splits sum.splits)
  show ?thesis
    using ensureAuth_db [OF f a] new create_db [where b = "BaseURL c" and a = addr, OF _ _ _ _ d st]
    by (simp add: request_def setHeader_def)
qed

lemma DeleteAdList_db:
  assumes f: "\<not> mu c" and clean: "CHR '' '' \<notin> set addr" and run: "DeleteAdList N x addr (c, w) = (Ok (), (c', w'))"
  shows "identity c' = identity c \<and> \<not> mu c' \<and>
    db w' = (db w)(BaseURL c := (db w (BaseURL c))(addr := None))"
proof -
  from run obtain w1 and resp :: http_resp where a: "ensureAuth N (c, w) = (Ok (), (c', w1))"
    and d: "http_do N (cltTimeout c') (cltSkipTLS c')
       (request ''DELETE'' (delete_url (BaseURL c) addr) [] NoBody x) w1 = (Inr resp, w')"
    and st: "rspStatus resp = 200 \<or> rspStatus resp = 204"
    unfolding DeleteAdList_def Let_def client_def newRequest_def Do_def request_def
    by (auto elim!: prog_elims split: if_splits option.splits prod.splits sum.splits)
  have "PathUnescape (QueryEscape addr) = Some addr"
    using clean by (auto simp: PathUnescape_def unescape_QueryEscape intro: map_idI)
  moreover have "CHR ''/'' \<notin> set (QueryEscape addr)"
    using escape_chars [of "CHR ''/''" addr] by (auto simp: unreserved_def)
  ultimately show ?thesis
    using ensureAuth_db [OF f a] delete_db [where b = "BaseURL c" and seg = "QueryEscape addr", OF _ _ _ _ d st]
    by (simp add: request_def delete_url_def)
qed

lemma RunGravity_db:
  assumes f: "\<not> mu c" and run: "RunGravity N x (c, w) = (Ok (), (c', w'))"
  shows "identity c' = identity c \<and> \<not> mu c' \<and> db w' = db w"
proof -
  from run obtain w1 and resp :: http_resp where a: "ensureAuth N (c, w) = (Ok (), (c', w1))"
    and d: "http_do N (cltTimeout c') (cltSkipTLS c') (setHeader ''X-FTL-SID'' (sessionID c')
       (request ''POST'' (BaseURL c @ ''/api/action/gravity'') [] NoBody x)) w1 = (Inr resp, w')"
    unfolding RunGravity_def Let_def client_def newRequest_def Do_def request_def
    by (auto elim!: prog_elims split: if_splits option.splits prod.splits sum.splits)
  show ?thesis
    using ensureAuth_db [OF f a] gravity_db [where b = "BaseURL c", OF _ _ d]
    by (simp add: request_def setHeader_def)
qed

end

section \<open>The store behind the registry\<close>

definition client_usable :: "nat option \<Rightarrow> 'w rs \<Rightarrow> bool" where
  "client_usable p s \<longleftrightarrow> (\<exists>a. p = Some a \<and> \<not> mu (heap s a))"

definition client_host :: "nat option \<Rightarrow> 'w rs \<Rightarrow> string" where
  "client_host p s = BaseURL (heap s (the p))"

lemma on_client_Ok:
  assumes "client_usable p s" "on_client p m s = (Ok y, s')"
  obtains a c' w' where "p = Some a" "\<not> mu (heap s a)" "m (heap s a, world s) = (Ok y, (c', w'))"
    and "s' = s\<lparr>heap := (heap s)(a := c'), world := w'\<rparr>"
  using assms by (auto simp: client_usable_def on_client_def split: prod.splits)

lemma identity_stable:
  assumes "identity c' = identity (heap s a)" "\<not> mu c'"
  shows "stable client_usable client_host s (s\<lparr>heap := (heap s)(a := c'), world := w'\<rparr>)"
  using assms by (auto simp: stable_def client_usable_def client_host_def identity_def)

text \<open>The servers together with the order in which Go ranges over a map.\<close>

locale pihole_env = pihole_server N db
  for N :: "'w net" and db :: "'w \<Rightarrow> string \<Rightarrow> (string \<rightharpoonup> string option)" +
  fixes K :: "'w kube"
  assumes all_keys: "ranges_all K"
    and order_db: "map_order K ks w = (xs, w') \<Longrightarrow> db w' = db w"

sublocale pihole_env \<subseteq> store: adlist_store client_usable client_host "\<lambda>s. db (world s)" "\<lambda>a. CHR '' '' \<notin> set a"
  "\<lambda>p. on_client p (GetAdLists N x)" "\<lambda>p a. on_client p (PostAdList N x a)"
  "\<lambda>p a. on_client p (DeleteAdList N x a)" "\<lambda>p. on_client p (RunGravity N x)" "\<lambda>ks. askW (map_order K ks)"
  for x
proof
  fix p :: "nat option" and s s' :: "'w rs" and ls
  assume u: "client_usable p s" and run: "on_client p (GetAdLists N x) s = (Ok ls, s')"
  show "stable client_usable client_host s s' \<and> db (world s') = db (world s) \<and>
      (\<lambda>l. (adAddress l, adComment l)) ` set ls = Map.graph (db (world s) (client_host p s))"
    using u run by (rule on_client_Ok)
      (auto dest!: GetAdLists_db [rotated] intro!: identity_stable simp: client_host_def)
next
  fix p :: "nat option" and s s' :: "'w rs" and a
  assume u: "client_usable p s" and new: "db (world s) (client_host p s) a = None"
    and run: "on_client p (PostAdList N x a) s = (Ok (), s')"
  show "stable client_usable client_host s s' \<and>
      db (world s') = (db (world s))(client_host p s := (db (world s) (client_host p s))(a \<mapsto> Some operator_comment))"
    using u run
  proof (rule on_client_Ok)
    fix b c' w'
    assume b: "p = Some b" "\<not> mu (heap s b)" "PostAdList N x a (heap s b, world s) = (Ok (), (c', w'))"
      and s': "s' = s\<lparr>heap := (heap s)(b := c'), world := w'\<rparr>"
    from PostAdList_db [OF b(2) _ b(3)] new b(1) s' show ?thesis
      by (auto intro: identity_stable simp: client_host_def)
  qed
next
  fix p :: "nat option" and s s' :: "'w rs" and a :: string
  assume u: "client_usable p s" and clean: "CHR '' '' \<notin> set a"
    and run: "on_client p (DeleteAdList N x a) s = (Ok (), s')"
  show "stable client_usable client_host s s' \<and>
      db (world s') = (db (world s))(client_host p s := (db (world s) (client_host p s))(a := None))"
    using u run
  proof (rule on_client_Ok)
    fix b c' w'
    assume b: "p = Some b" "\<not> mu (heap s b)" "DeleteAdList N x a (heap s b, world s) = (Ok (), (c', w'))"
      and s': "s' = s\<lparr>heap := (heap s)(b := c'), world := w'\<rparr>"
    from DeleteAdList_db [OF b(2) clean b(3)] b(1) s' show ?thesis
      by (auto intro: identity_stable simp: client_host_def)
  qed
next
  fix p :: "nat option" and s s' :: "'w rs"
  assume u: "client_usable p s" and run: "on_client p (RunGravity N x) s = (Ok (), s')"
  show "stable client_usable client_host s s' \<and> db (world s') = db (world s)"
    using u run by (rule on_client_Ok)
      (auto dest!: RunGravity_db [rotated] intro!: identity_stable simp: client_host_def)
next
  fix ks xs and s s' :: "'w rs"
  assume run: "askW (map_order K ks) s = (Ok xs, s')"
  then obtain w' where o: "map_order K ks (world s) = (xs, w')" "s' = s\<lparr>world := w'\<rparr>"
    by (auto simp: askW_def askR_def split: prod.splits)
  have "mset xs = mset ks" using all_keys o(1) unfolding ranges_all_def by (metis fst_conv)
  moreover have "stable client_usable client_host s s'"
    using o(2) by (simp add: stable_def client_usable_def client_host_def)
  ultimately show "stable client_usable client_host s s' \<and> db (world s') = db (world s) \<and> mset xs = mset ks"
    using o order_db [OF o(1)] by simp
qed

end
