(* ===== verification/RefServer.thy ===== *)
theory RefServer
  imports PiholeServer
begin

text \<open>
  A concrete Pi-hole farm, to show that the interface \<open>pihole_server\<close> can be met and to run the
  synchronisation on: the world maps a base URL to its lists, requests are told apart by method and the
  end of the URL, and a list is sent as text with lengths in unary. It asks for no session.
\<close>

type_synonym farm = "(string \<times> (string \<times> string option) list) list"

definition farm_lists :: "farm \<Rightarrow> string \<Rightarrow> (string \<times> string option) list" where
  "farm_lists w u = (case map_of w u of None \<Rightarrow> [] | Some l \<Rightarrow> l)"

definition farm_db :: "farm \<Rightarrow> string \<Rightarrow> (string \<rightharpoonup> string option)" where
  "farm_db w u = map_of (farm_lists w u)"

section \<open>The text of a list\<close>

definition enc_str :: "string \<Rightarrow> string" where
  "enc_str s = replicate (length s) (CHR ''1'') @ CHR ''0'' # s"

definition enc_lists :: "(string \<times> string option) list \<Rightarrow> string" where
  "enc_lists ls = concat (map (\<lambda>(a, c). CHR ''L'' # enc_str a @ (case c of None \<Rightarrow> ''N'' | Some x \<Rightarrow> CHR ''S'' # enc_str x)) ls)"

fun dec_str :: "nat \<Rightarrow> string \<Rightarrow> (string \<times> string) option" where
  "dec_str n (c # t) = (if c = CHR ''1'' then dec_str (Suc n) t
     else if length t < n then None else Some (take n t, List.drop n t))"
| "dec_str n [] = None"

fun dec_entries :: "nat \<Rightarrow> string \<Rightarrow> AdList list option" where
  "dec_entries k [] = Some []"
| "dec_entries 0 (c # t) = None"
| "dec_entries (Suc k) (c # t) =
     (case dec_str 0 t of
        Some (a, d # t') \<Rightarrow>
          (if d = CHR ''N'' then map_option ((#) \<lparr>adAddress = a, adID = 0, adComment = None\<rparr>) (dec_entries k t')
           else (case dec_str 0 t' of
               Some (x, t'') \<Rightarrow> map_option ((#) \<lparr>adAddress = a, adID = 0, adComment = Some x\<rparr>) (dec_entries k t'')
             | None \<Rightarrow> None))
      | _ \<Rightarrow> None)"

lemma dec_enc_str [simp]: "dec_str n (replicate k (CHR ''1'') @ CHR ''0'' # s @ t) =
   (if length (s @ t) < n + k then None else Some (take (n + k) (s @ t), List.drop (n + k) (s @ t)))"
  by (induction k arbitrary: n) simp_all

lemma dec_enc [simp]: "dec_str 0 (enc_str s @ t) = Some (s, t)"
  by (simp add: enc_str_def)

lemma dec_enc_lists: "length ls \<le> k \<Longrightarrow>
   dec_entries k (enc_lists ls) = Some (map (\<lambda>(a, c). \<lparr>adAddress = a, adID = 0, adComment = c\<rparr>) ls)"
proof (induction ls arbitrary: k)
  case Nil
  then show ?case by (cases k) (simp_all add: enc_lists_def)
next
  case (Cons l ls)
  obtain a c where l: "l = (a, c)" by (cases l)
  from Cons.prems obtain k' where k: "k = Suc k'" "length ls \<le> k'" by (cases k) auto
  with Cons.IH [OF k(2)] l show ?case
    by (cases c) (simp_all add: enc_lists_def)
qed

section \<open>The server\<close>

definition ends :: "string \<Rightarrow> string \<Rightarrow> bool" where
  "ends url suf = HasPrefix (rev url) (rev suf)"

definition stem :: "string \<Rightarrow> string \<Rightarrow> string" where
  "stem url suf = rev (List.drop (length suf) (rev url))"

definition segment :: "string \<Rightarrow> string" where
  "segment url = rev (takeWhile (\<lambda>c. c \<noteq> CHR ''/'') (rev url))"

definition answer :: "int \<Rightarrow> string \<Rightarrow> http_resp" where
  "answer st b = \<lparr>rspStatus = st, rspBody = b, rspReadErr = None\<rparr>"

definition farm_do :: "http_req \<Rightarrow> farm \<Rightarrow> http_resp \<times> farm" where
  "farm_do r w =
     (let u = rqURL r in
      if rqMethod r = ''POST'' then
        (if ends u ''/api/lists'' then
           (case rqBody r of
              JsonBody (JObj ((k, JStr a) # _)) \<Rightarrow>
                if CHR '' '' \<in> set a then (answer 400 [], w)
                else (answer 201 [], mput (stem u ''/api/lists'')
                   (mput a (Some operator_comment) (farm_lists w (stem u ''/api/lists''))) w)
            | _ \<Rightarrow> (answer 400 [], w))
         else (answer 200 [], w))
      else if rqMethod r = ''GET'' then
        (if ends u ''/api/lists'' then
           (let ls = farm_lists w (stem u ''/api/lists'') in
            (answer 200 (enc_lists (map (\<lambda>a. (a, the (map_of ls a))) (remdups (mkeys ls)))), w))
         else (answer 200 ''archive'', w))
      else if rqMethod r = ''DELETE'' \<and> ends u ''?type=block'' then
        (let v = stem u ''?type=block''; seg = segment v; x = stem v (''/'' @ seg) in
         (case PathUnescape seg of
            None \<Rightarrow> (answer 400 [], w)
          | Some a \<Rightarrow>
             if ends x ''/api/lists'' then
               (answer 204 [], mput (stem x ''/api/lists'') (mdel a (farm_lists w (stem x ''/api/lists''))) w)
             else (answer 404 [], w)))
      else (answer 405 [], w))"

definition farm_net :: "farm net" where
  "farm_net = \<lparr>http_do = (\<lambda>_ _ r w. case farm_do r w of (resp, w') \<Rightarrow> (Inr resp, w')),
     url_err = (\<lambda>_. None),
     dec_auth = (\<lambda>_. Inr \<lparr>auValid = True, auSID = ''sid'', auValidity = 300\<rparr>),
     dec_lists = (\<lambda>b e. case dec_entries (length b) b of None \<Rightarrow> Inl (External ''json'') | Some ls \<Rightarrow> Inr ls),
     time_now = (\<lambda>w. (0, w)), wait = (\<lambda>_ _ w. (None, w)), boundary = (\<lambda>w. (''b'', w))\<rparr>"

lemma ends_simps [simp]: "ends (b @ suf) suf" "stem (b @ suf) suf = b"
  by (simp_all add: ends_def HasPrefix_def stem_def)

lemma ends_other [simp]: "\<not> ends (b @ ''/api/auth'') ''/api/lists''"
  "\<not> ends (b @ ''/api/action/gravity'') ''/api/lists''"
  by (simp_all add: ends_def HasPrefix_def)

lemma segment_last [simp]: "CHR ''/'' \<notin> set seg \<Longrightarrow> segment (b @ CHR ''/'' # seg) = seg"
  by (simp add: segment_def takeWhile_append takeWhile_eq_all_conv [THEN iffD2])

lemma farm_lists_mput [simp]: "farm_lists (mput b l w) u = (if u = b then l else farm_lists w u)"
  by (simp add: farm_lists_def)

lemma enc_lists_length: "length ls \<le> length (enc_lists ls)"
  by (induction ls) (auto simp: enc_lists_def split: option.splits)

lemma remdups_graph:
  "(\<lambda>l. (adAddress l, adComment l)) ` set (map (\<lambda>(a, c). \<lparr>adAddress = a, adID = 0, adComment = c\<rparr>)
     (map (\<lambda>a. (a, the (map_of ls a))) (remdups (mkeys ls)))) = Map.graph (map_of ls)" (is "?L = _")
proof -
  have "?L = (\<lambda>a. (a, the (map_of ls a))) ` dom (map_of ls)"
    by (simp add: image_image dom_map_of_conv_image_fst)
  then show ?thesis by (force simp: Map.graph_def)
qed

lemma farm_delete:
  assumes "rqMethod r = ''DELETE''" "rqURL r = b @ ''/api/lists/'' @ seg @ ''?type=block''"
    and "CHR ''/'' \<notin> set seg" "PathUnescape seg = Some a"
  shows "farm_do r w = (answer 204 [], mput b (mdel a (farm_lists w b)) w)"
proof -
  obtain v where "v = b @ ''/api/lists'' @ CHR ''/'' # seg" by blast
  then have v: "rqURL r = v @ ''?type=block''" "segment v = seg" "stem v (''/'' @ seg) = b @ ''/api/lists''"
    using assms(2) segment_last [OF assms(3), of "b @ ''/api/lists''"]
      ends_simps(2) [of "b @ ''/api/lists''" "CHR ''/'' # seg"] by simp_all
  show ?thesis by (simp only: farm_do_def Let_def assms(1) v ends_simps assms(4)) simp
qed

interpretation farm: pihole_env farm_net farm_db "static_kube pods objs cl" for pods objs cl
proof
  show "ranges_all (static_kube pods objs cl)" by (rule static_kube_laws)
  fix r b a seg and w w' :: farm and resp ls t k y and tm :: int and x :: ctx and d :: duration and e ks xs
  show "time_now farm_net w = (tm, w') \<Longrightarrow> farm_db w' = farm_db w"
    "wait farm_net x d w = (e, w') \<Longrightarrow> farm_db w' = farm_db w"
    "map_order (static_kube pods objs cl) ks w = (xs, w') \<Longrightarrow> farm_db w' = farm_db w"
    by (simp_all add: farm_net_def)
  show "farm_db w' = farm_db w"
    if "rqMethod r = ''POST''" "rqURL r = b @ ''/api/auth''" "http_do farm_net t k r w = (y, w')"
    using that by (simp add: farm_net_def farm_do_def Let_def)
  show "farm_db w' = farm_db w"
    if "rqMethod r = ''POST''" "rqURL r = b @ ''/api/action/gravity''" "http_do farm_net t k r w = (y, w')"
    using that by (simp add: farm_net_def farm_do_def Let_def)
  show "farm_db w' = farm_db w \<and> (\<lambda>l. (adAddress l, adComment l)) ` set ls = Map.graph (farm_db w b)"
    if "rqMethod r = ''GET''" "rqURL r = b @ ''/api/lists''" "http_do farm_net t k r w = (Inr resp, w')"
      "dec_lists farm_net (rspBody resp) (rspReadErr resp) = Inr ls"
  proof -
    have "w' = w" "ls = map (\<lambda>(a, c). \<lparr>adAddress = a, adID = 0, adComment = c\<rparr>)
        (map (\<lambda>a. (a, the (map_of (farm_lists w b) a))) (remdups (mkeys (farm_lists w b))))"
      using that by (auto simp: farm_net_def farm_do_def Let_def answer_def dec_enc_lists [OF enc_lists_length])
    then show ?thesis by (simp only: remdups_graph farm_db_def simp_thms)
  qed
  show "farm_db w' = (farm_db w)(b := (farm_db w b)(a \<mapsto> Some operator_comment))"
    if "rqMethod r = ''POST''" "rqURL r = b @ ''/api/lists''" "rqBody r = JsonBody (adlist_payload a)"
      "http_do farm_net t k r w = (Inr resp, w')" "rspStatus resp = 200 \<or> rspStatus resp = 201"
    using that by (auto simp: farm_net_def farm_do_def Let_def adlist_payload_def farm_db_def answer_def fun_eq_iff split: if_splits)
  show "farm_db w' = (farm_db w)(b := (farm_db w b)(a := None))"
    if "rqMethod r = ''DELETE''" "rqURL r = b @ ''/api/lists/'' @ seg @ ''?type=block''"
      "CHR ''/'' \<notin> set seg" "PathUnescape seg = Some a"
      "http_do farm_net t k r w = (Inr resp, w')" "rspStatus resp = 200 \<or> rspStatus resp = 204"
    using farm_delete [OF that(1-4)] that(5) by (auto simp: farm_net_def farm_db_def fun_eq_iff)
qed

end
