(* ===== verification/AdListSync.thy ===== *)
theory AdListSync
  imports RefServer
begin

text \<open>
  \<open>internal/controller/piholecluster/sync.go\<close>, lines 129 to 246: \<open>syncAdLists\<close>, and what the lists of
  all instances are after it returns without an error.
\<close>

section \<open>The code\<close>

definition range_keys :: "'w kube \<Rightarrow> string list \<Rightarrow> ('w rs, string list) prog" where
  "range_keys K = (\<lambda>ks. askW (map_order K ks))"

definition syncRW :: "'w kube \<Rightarrow> 'w net \<Rightarrow> ctx \<Rightarrow> nat option \<Rightarrow> string list \<Rightarrow> ('w rs, (string \<times> unit) list) prog" where
  "syncRW K N ctx rw adLists =
     sync_rw (on_client rw (GetAdLists N ctx)) (\<lambda>a. on_client rw (PostAdList N ctx a))
       (\<lambda>a. on_client rw (DeleteAdList N ctx a)) (on_client rw (RunGravity N ctx)) (range_keys K) adLists"

definition syncRO :: "'w kube \<Rightarrow> 'w net \<Rightarrow> ctx \<Rightarrow> (string \<times> unit) list \<Rightarrow> nat option \<Rightarrow> ('w rs, unit) prog" where
  "syncRO K N ctx finalRW ro =
     bindR getS (\<lambda>s. case ro of
         None \<Rightarrow> panic ''nil pointer dereference''
       | Some a \<Rightarrow>
           sync_ro (on_client ro (GetAdLists N ctx)) (\<lambda>a. on_client ro (PostAdList N ctx a))
             (\<lambda>a. on_client ro (DeleteAdList N ctx a)) (on_client ro (RunGravity N ctx)) (range_keys K)
             (BaseURL (heap s a)) finalRW)"

definition syncAdLists :: "'w kube \<Rightarrow> 'w net \<Rightarrow> ctx \<Rightarrow> ('w rs, unit) prog" where
  "syncAdLists K N ctx =
     bindR (wrap ''read-write client unavailable'' ReadWriteAPIClient) (\<lambda>rwClient.
     bindR getCluster (\<lambda>cl.
     case Config (clSpec cl) of
       None \<Rightarrow> panic ''nil pointer dereference''
     | Some cfg \<Rightarrow>
         bindR (syncRW K N ctx rwClient (cfgAdLists cfg)) (\<lambda>finalRW.
         bindR (wrap ''listing read-only clients'' (ReadOnlyAPIClients K)) (\<lambda>roClients.
         forR roClients (syncRO K N ctx finalRW)))))"

section \<open>Convergence\<close>

text \<open>The host behind a pod name, and the addresses a server holds.\<close>

definition pod_host :: "'w rs \<Rightarrow> string \<Rightarrow> string option" where
  "pod_host s n = map_option (\<lambda>e. client_host (enClient e) s) (map_of (ApiClients s) n)"

definition replica_hosts :: "'w rs \<Rightarrow> string set" where
  "replica_hosts s = {u. \<exists>n. HasPrefix n (currentClusterName s @ ''-ro-'') \<and> pod_host s n = Some u}"

lemma reg_ok_usable:
  "reg_ok s \<Longrightarrow> map_of (ApiClients s) n = Some e \<Longrightarrow> client_usable (enClient e) s"
  unfolding reg_ok_def client_usable_def using reg_invD(1) entry_ok_def by metis

definition same_registry :: "'w rs \<Rightarrow> 'w rs \<Rightarrow> bool" where
  "same_registry s s' \<longleftrightarrow> ApiClients s' = ApiClients s \<and> currentClusterName s' = currentClusterName s \<and> cluster s' = cluster s"

lemma on_client_registry: "keeps (same_registry s) (on_client p m)"
  by (cases p) (auto simp: keeps_def on_client_def panic_def same_registry_def split: prod.splits)

lemma range_keys_registry: "keeps (same_registry s) (range_keys K ks)"
  unfolding range_keys_def
  by (rule returns_keeps [OF worldless_calls(2)]) (simp add: worldless_def same_registry_def)

lemma syncRW_registry: "keeps (same_registry s) (syncRW K N ctx rw want)"
  unfolding syncRW_def sync_rw_def post_missing_def delete_lists_def Let_def
  by (intro keeps_bindR keeps_ctxR keeps_forR keeps_if keeps_basic on_client_registry range_keys_registry)

lemma syncAdLists_registry: "syncAdLists K N ctx s = (r, s') \<Longrightarrow> same_registry s s'"
proof -
  have ro: "keeps (same_registry s) (ReadOnlyAPIClients K)"
    unfolding ReadOnlyAPIClients_def rangeClients_def Let_def
    by (intro keeps_bindR keeps_if keeps_basic range_keys_registry [unfolded range_keys_def])
  have rw: "keeps (same_registry s) ReadWriteAPIClient"
    unfolding ReadWriteAPIClient_def Let_def by (intro keeps_bindR keeps_option keeps_basic)
  have k: "keeps (same_registry s) (syncAdLists K N ctx)"
    unfolding syncAdLists_def syncRO_def sync_ro_def post_missing_def delete_lists_def
    by (intro keeps_bindR keeps_ctxR keeps_forR keeps_if keeps_option keeps_basic returns_keeps [OF getCluster_returns]
        on_client_registry range_keys_registry syncRW_registry ro rw)
  assume "syncAdLists K N ctx s = (r, s')"
  from keepsD [OF k _ this] show ?thesis by (simp add: same_registry_def)
qed

section \<open>The calls come back and keep the registry\<close>

definition reg_at :: "(string \<times> ApiClientEntry) list \<Rightarrow> PiHoleCluster \<Rightarrow> 'w rs \<Rightarrow> bool" where
  "reg_at M cl s \<longleftrightarrow> reg_ok s \<and> ApiClients s = M \<and> cluster s = cl"

definition pointers :: "(string \<times> ApiClientEntry) list \<Rightarrow> nat option set" where
  "pointers M = {enClient e | e n. map_of M n = Some e}"

lemma reg_at_worldless [simp]: "worldless (reg_at M cl)"
  by (simp add: worldless_def reg_at_def reg_ok_world)

lemma reg_ok_heap:
  assumes "reg_ok s" "identity c = identity (heap s a)" "\<not> mu c"
  shows "reg_ok (s\<lparr>heap := (heap s)(a := c), world := w\<rparr>)"
proof -
  have "entry_ok ((heap s)(a := c)) nx e" if "entry_ok (heap s) nx e" for nx e
    using that assms(2,3) by (auto simp: entry_ok_def identity_def)
  then show ?thesis using assms(1) unfolding reg_ok_def reg_inv_def by (simp del: map_of_eq_Some_iff)
qed

lemma on_client_returns:
  assumes "p \<in> pointers M" and m: "\<And>k. returns (free k) m"
  shows "returns (reg_at M cl) (on_client p m)"
proof -
  have "reg_at M cl s' \<and> settled r" if I: "reg_at M cl s" and run: "on_client p m s = (r, s')" for s r s'
  proof -
    obtain n e where "map_of (ApiClients s) n = Some e" "p = enClient e"
      using assms(1) I by (auto simp: pointers_def reg_at_def)
    with I reg_ok_usable obtain a where a: "p = Some a" "\<not> mu (heap s a)"
      unfolding reg_at_def client_usable_def by metis
    obtain q c w where q: "m (heap s a, world s) = (q, (c, w))" by (metis prod.collapse)
    have f: "free (identity (heap s a)) (heap s a, world s)" using a by simp
    from keepsD [OF returns_keeps [OF m] f q] returnsD [OF m f q]
    show ?thesis using run a q I by (auto simp: on_client_def reg_at_def intro: reg_ok_heap)
  qed
  then show ?thesis by (intro returnsI keepsI) blast+
qed

lemma adlist_calls_return:
  "p \<in> pointers M \<Longrightarrow> returns (reg_at M cl) (on_client p (GetAdLists N ctx))"
  "p \<in> pointers M \<Longrightarrow> returns (reg_at M cl) (on_client p (PostAdList N ctx a))"
  "p \<in> pointers M \<Longrightarrow> returns (reg_at M cl) (on_client p (DeleteAdList N ctx a))"
  "p \<in> pointers M \<Longrightarrow> returns (reg_at M cl) (on_client p (RunGravity N ctx))"
  "p \<in> pointers M \<Longrightarrow> returns (reg_at M cl) (on_client p (DownloadTeleporter N ctx))"
  "p \<in> pointers M \<Longrightarrow> returns (reg_at M cl) (on_client p (UploadTeleporter N ctx d))"
  by (auto intro!: on_client_returns operations_return)

lemma range_keys_returns: "returns (reg_at M cl) (range_keys K ks)"
  unfolding range_keys_def by (intro worldless_calls) simp

lemma syncRW_returns: "p \<in> pointers M \<Longrightarrow> returns (reg_at M cl) (syncRW K N ctx p want)"
  unfolding syncRW_def sync_rw_def post_missing_def delete_lists_def Let_def
  by (intro returns_bindR returns_ctxR returns_forR returns_if returns_basic adlist_calls_return range_keys_returns)

lemma pointers_not_nil: "reg_at M cl s \<Longrightarrow> p \<in> pointers M \<Longrightarrow> p \<noteq> None"
  using reg_ok_usable by (fastforce simp: pointers_def reg_at_def client_usable_def)

lemma syncRO_returns: "p \<in> pointers M \<Longrightarrow> returns (reg_at M cl) (syncRO K N ctx final p)"
  unfolding syncRO_def sync_ro_def post_missing_def delete_lists_def
  by (rule returns_bindR_post [where P = "\<lambda>_. p \<noteq> None"])
     (auto intro!: returns_bindR returns_ctxR returns_forR returns_if returns_basic adlist_calls_return
        range_keys_returns dest: pointers_not_nil split: option.splits)

lemma ReadWrite_returns:
  "returns (reg_at M cl) ReadWriteAPIClient"
  "reg_at M cl s \<Longrightarrow> ReadWriteAPIClient s = (Ok p, s') \<Longrightarrow> p \<in> pointers M"
proof -
  show "returns (reg_at M cl) ReadWriteAPIClient"
    unfolding ReadWriteAPIClient_def Let_def by (intro returns_bindR returns_option returns_basic)
  show "reg_at M cl s \<Longrightarrow> ReadWriteAPIClient s = (Ok p, s') \<Longrightarrow> p \<in> pointers M"
    unfolding ReadWriteAPIClient_def Let_def pointers_def reg_at_def getS_def bindR_def
    by (auto simp del: map_of_eq_Some_iff split: option.splits)
qed

lemma ReadOnly_returns:
  "returns (reg_at M cl) (ReadOnlyAPIClients K)"
  "ranges_all K \<Longrightarrow> reg_at M cl s \<Longrightarrow> ReadOnlyAPIClients K s = (Ok ps, s') \<Longrightarrow> set ps \<subseteq> pointers M"
proof -
  show "returns (reg_at M cl) (ReadOnlyAPIClients K)"
    unfolding ReadOnlyAPIClients_def rangeClients_def Let_def
    by (intro returns_bindR returns_if returns_basic worldless_calls) simp
  assume K: "ranges_all K" and I: "reg_at M cl s" and run: "ReadOnlyAPIClients K s = (Ok ps, s')"
  obtain names w where m: "mset names = mset (mkeys (ApiClients s))"
    and ps: "ps = map (\<lambda>n. enClient (the (map_of (ApiClients s) n)))
              (filter (\<lambda>n. HasPrefix n (currentClusterName s @ ''-ro-'')) names)"
    by (rule ReadOnlyAPIClients_run [OF K run]) (auto split: if_splits)
  have "n \<in> dom (map_of M)" if "n \<in> set names" for n
    using mset_eq_setD [OF m] I that by (auto simp: reg_at_def dom_map_of_conv_image_fst)
  then show "set ps \<subseteq> pointers M"
    using I unfolding ps reg_at_def pointers_def by force
qed

lemma syncAdLists_returns:
  assumes "ranges_all K" "Config (clSpec cl) \<noteq> None"
  shows "returns (reg_at M cl) (syncAdLists K N ctx)"
proof -
  obtain cfg where cfg: "Config (clSpec cl) = Some cfg" using assms(2) by auto
  have loop: "returns (reg_at M cl) (bindR (wrap ''listing read-only clients'' (ReadOnlyAPIClients K))
      (\<lambda>ros. forR ros (syncRO K N ctx final)))" for final
  proof (rule returns_bindR_post [where P = "\<lambda>ros. set ros \<subseteq> pointers M"])
    show "returns (reg_at M cl) (wrap ''listing read-only clients'' (ReadOnlyAPIClients K))"
      by (intro returns_ctxR ReadOnly_returns)
    show "set ros \<subseteq> pointers M"
      if "reg_at M cl s" "wrap ''listing read-only clients'' (ReadOnlyAPIClients K) s = (Ok ros, s')" for s ros s'
      using that ReadOnly_returns(2) [OF assms(1)] by (blast elim: ctxR_OkE)
    show "returns (reg_at M cl) (forR ros (syncRO K N ctx final))" if "set ros \<subseteq> pointers M" for ros
      using that by (intro returns_forR syncRO_returns) auto
  qed
  show ?thesis
    unfolding syncAdLists_def
  proof (rule returns_bindR_post [where P = "\<lambda>p. p \<in> pointers M"])
    show "returns (reg_at M cl) (wrap ''read-write client unavailable'' ReadWriteAPIClient)"
      by (intro returns_ctxR ReadWrite_returns)
    show "p \<in> pointers M"
      if "reg_at M cl s" "wrap ''read-write client unavailable'' ReadWriteAPIClient s = (Ok p, s')" for s p s'
      using that ReadWrite_returns(2) by (blast elim: ctxR_OkE)
    show "returns (reg_at M cl) (bindR getCluster (\<lambda>cl. case Config (clSpec cl) of
        None \<Rightarrow> panic ''nil pointer dereference''
      | Some cfg \<Rightarrow> bindR (syncRW K N ctx p (cfgAdLists cfg)) (\<lambda>final.
          bindR (wrap ''listing read-only clients'' (ReadOnlyAPIClients K)) (\<lambda>ros.
          forR ros (syncRO K N ctx final)))))" if "p \<in> pointers M" for p
      using that cfg
      by (intro returns_bindR_post [where P = "\<lambda>x. x = cl", OF getCluster_returns])
         (auto simp: getCluster_def askR_def reg_at_def [of _ _ s for s] intro!: returns_bindR syncRW_returns loop)
  qed
qed

lemma ReadOnly_set:
  assumes "ranges_all K" "ReadOnlyAPIClients K s = (Ok ros, s')"
  shows "set ros = {enClient e | n e. map_of (ApiClients s) n = Some e \<and> HasPrefix n (currentClusterName s @ ''-ro-'')} \<and>
    (\<exists>w. s' = s\<lparr>world := w\<rparr>)"
proof -
  obtain names w where m: "mset names = mset (mkeys (ApiClients s))" and s': "s' = s\<lparr>world := w\<rparr>"
    and ros: "ros = map (\<lambda>n. enClient (the (map_of (ApiClients s) n)))
              (filter (\<lambda>n. HasPrefix n (currentClusterName s @ ''-ro-'')) names)"
    by (rule ReadOnlyAPIClients_run [OF assms]) (auto split: if_splits)
  have "set names = dom (map_of (ApiClients s))"
    using mset_eq_setD [OF m] by (auto simp: dom_map_of_conv_image_fst)
  then have "set ros = {enClient e | n e. map_of (ApiClients s) n = Some e \<and> HasPrefix n (currentClusterName s @ ''-ro-'')}"
    unfolding ros by force
  with s' show ?thesis by blast
qed

context pihole_env
begin

lemma syncAdLists_steps:
  assumes "syncAdLists K N x s = (Ok (), s')"
  obtains e cfg final s1 ros s2 where
    "map_of (ApiClients s) (currentClusterName s @ ''-rw-0'') = Some e"
    and "Config (clSpec (cluster s)) = Some cfg"
    and "syncRW K N x (enClient e) (cfgAdLists cfg) s = (Ok final, s1)"
    and "ReadOnlyAPIClients K s1 = (Ok ros, s2)" "forR ros (syncRO K N x final) s2 = (Ok (), s')"
  using assms unfolding syncAdLists_def ReadWriteAPIClient_def getCluster_def getS_def Let_def
  by (auto elim!: prog_elims split: option.splits)

lemma syncAdLists_deletes:
  assumes ok: "reg_ok s" and run: "syncAdLists K N x s = (Ok (), s')"
    and cfg: "Config (clSpec (cluster s)) = Some cfg"
    and rw: "pod_host s (currentClusterName s @ ''-rw-0'') = Some rw"
    and stale: "db (world s) rw a = Some (Some operator_comment)" "a \<notin> set (cfgAdLists cfg)"
  shows "\<exists>p t t'. on_client p (DeleteAdList N x a) t = (Ok (), t')"
proof -
  from run obtain e final s1 where
    e: "map_of (ApiClients s) (currentClusterName s @ ''-rw-0'') = Some e"
    and r: "syncRW K N x (enClient e) (cfgAdLists cfg) s = (Ok final, s1)"
    by (rule syncAdLists_steps) (use cfg in simp)
  have "rw = client_host (enClient e) s" using rw e by (simp add: pod_host_def)
  with store.sync_rw_deletes [OF reg_ok_usable [OF ok e] r [unfolded syncRW_def range_keys_def]] stale
  show ?thesis by blast
qed

lemma ReadOnly_db:
  assumes "ReadOnlyAPIClients K s = (Ok ros, s')"
  shows "db (world s') = db (world s) \<and> heap s' = heap s \<and>
    set ros = {enClient e | n e. map_of (ApiClients s) n = Some e \<and> HasPrefix n (currentClusterName s @ ''-ro-'')}"
proof -
  have "keeps (\<lambda>t. db (world t) = db (world s)) (ReadOnlyAPIClients K)"
    unfolding ReadOnlyAPIClients_def rangeClients_def Let_def askW_def
    by (intro keeps_bindR keeps_basic keeps_if keeps_askR) (auto split: prod.splits dest: order_db)
  then have "db (world s') = db (world s)" by (rule keepsD) (use assms in auto)
  then show ?thesis using ReadOnly_set [OF all_keys assms] by auto
qed

lemma syncAdLists_Ok:
  assumes ok: "reg_ok s" and run: "syncAdLists K N x s = (Ok (), s')"
    and cleans: "\<And>u a. db (world s) u a \<noteq> None \<Longrightarrow> CHR '' '' \<notin> set a"
  obtains cfg rwHost where "Config (clSpec (cluster s)) = Some cfg"
    and "pod_host s (currentClusterName s @ ''-rw-0'') = Some rwHost"
    and "db (world s') = (\<lambda>u.
      let target = rw_target (cfgAdLists cfg) (db (world s) rwHost) in
      if u \<in> replica_hosts s \<and> u \<noteq> rwHost then ro_target (dom target) (db (world s) u)
      else if u = rwHost then target else db (world s) u)"
    and "stable client_usable client_host s s'"
proof -
  from run obtain e cfg final s1 ros s2 where
    e: "map_of (ApiClients s) (currentClusterName s @ ''-rw-0'') = Some e"
    and cfg: "Config (clSpec (cluster s)) = Some cfg"
    and rw: "syncRW K N x (enClient e) (cfgAdLists cfg) s = (Ok final, s1)"
    and ro: "ReadOnlyAPIClients K s1 = (Ok ros, s2)" and loop: "forR ros (syncRO K N x final) s2 = (Ok (), s')"
    by (rule syncAdLists_steps)
  let ?h = "client_host (enClient e) s"
  let ?T = "rw_target (cfgAdLists cfg) (db (world s) ?h)"
  have u: "client_usable (enClient e) s" using ok e by (rule reg_ok_usable)
  from store.sync_rw_Ok [OF u _ rw [unfolded syncRW_def range_keys_def]] cleans
  obtain ks where st1: "stable client_usable client_host s s1" and d1: "db (world s1) = (db (world s))(?h := ?T)"
    and final: "final = to_set ks" and ks: "set ks = dom ?T" by fastforce
  have reg: "same_registry s s1"
    using keepsD [OF syncRW_registry _ rw, of s] by (simp add: same_registry_def)
  note R = ReadOnly_db [OF ro]
  then have st2: "stable client_usable client_host s s2"
    using st1 by (simp add: stable_def client_usable_def client_host_def)
  have ros: "set ros = {enClient e | n e. map_of (ApiClients s) n = Some e \<and> HasPrefix n (currentClusterName s @ ''-ro-'')}"
    using R reg by (simp add: same_registry_def)
  have hosts: "(\<lambda>q. client_host q s2) ` set ros = replica_hosts s"
    using stableD(1) [OF st2] unfolding ros replica_hosts_def pod_host_def by force
  have us: "client_usable q s2" if "q \<in> set ros" for q
    using that stableD(2) [OF st2] reg_ok_usable [OF ok] unfolding ros by blast
  have cl: "CHR '' '' \<notin> set a" if "q \<in> set ros" "db (world s2) (client_host q s2) a \<noteq> None" "a \<notin> set ks" for q a
    using that(2,3) R d1 ks cleans by (auto split: if_splits)
  have body: "\<exists>base. sync_ro (on_client q (GetAdLists N x)) (\<lambda>a. on_client q (PostAdList N x a))
      (\<lambda>a. on_client q (DeleteAdList N x a)) (on_client q (RunGravity N x)) (\<lambda>ks. askW (map_order K ks)) base final t
      = (Ok (), t')" if "syncRO K N x final q t = (Ok (), t')" for q t t'
    using that by (auto simp: syncRO_def getS_def range_keys_def bindR_def split: option.splits)
  have all: "stable client_usable client_host s2 s' \<and>
    (\<forall>q \<in> set ros. db (world s') (client_host q s2) = ro_target (set ks) (db (world s2) (client_host q s2))) \<and>
    (\<forall>v. v \<notin> (\<lambda>q. client_host q s2) ` set ros \<longrightarrow> db (world s') v = db (world s2) v)"
    by (rule store.sync_ros_Ok [OF _ final _ _ loop]) (use us cl body in blast)+
  have each: "db (world s') v = ro_target (set ks) (db (world s2) v)" if "v \<in> replica_hosts s" for v
  proof -
    from that obtain q where "q \<in> set ros" "v = client_host q s2" unfolding hosts [symmetric] by blast
    with all show ?thesis by blast
  qed
  have others: "db (world s') v = db (world s2) v" if "v \<notin> replica_hosts s" for v
    using all that hosts by auto
  have idem: "ro_target (dom ?T) ?T = ?T"
    by (auto simp: ro_target_def add_lists_def restrict_map_def fun_eq_iff domIff)
  have "db (world s') v = (if v \<in> replica_hosts s \<and> v \<noteq> ?h then ro_target (dom ?T) (db (world s) v)
      else if v = ?h then ?T else db (world s) v)" for v
    using each [of v] others [of v] R d1 ks idem by (cases "v \<in> replica_hosts s") auto
  then show ?thesis
    using that [OF cfg, of ?h] e stable_trans [OF st2 conjunct1 [OF all]] by (simp add: pod_host_def fun_eq_iff Let_def)
qed

end

section \<open>Properties\<close>

text \<open>The ad-list synchronisation always comes back with success or an error, whatever the servers
  answer (no panic and no client blocked), and keeps the registry of clients well formed and unchanged.\<close>

theorem ad_list_sync_returns:
  assumes "ranges_all K" "reg_ok s" "Config (clSpec (cluster s)) \<noteq> None" "syncAdLists K N ctx s = (r, s')"
  shows "settled r \<and> reg_ok s' \<and> ApiClients s' = ApiClients s \<and> cluster s' = cluster s"
proof -
  have I: "reg_at (ApiClients s) (cluster s) s" using assms(2) by (simp add: reg_at_def)
  note ret = syncAdLists_returns [OF assms(1,3), of "ApiClients s" N ctx]
  show ?thesis
    using returnsD [OF ret I assms(4)] keepsD [OF returns_keeps [OF ret] I assms(4)]
    by (simp add: reg_at_def)
qed

text \<open>The run of the witnesses: a read-write and a read-only pod; the resource asks for one list, the
  read-write pod has an old list of the operator's and one of the user's, the read-only pod a third.\<close>

definition demo_cluster :: PiHoleCluster where
  "demo_cluster = sample_cluster\<lparr>clSpec := zero_spec\<lparr>Config := Some
     \<lparr>cfgAPIPassword = \<lparr>apPassword = ''pw'', apSecretRef = None\<rparr>, cfgEnvVars = [], cfgAdLists = [''b'']\<rparr>\<rparr>\<rparr>"

definition demo_farm :: farm where
  "demo_farm = [(''http://10.0.0.1'', [(''a'', Some operator_comment), (''m'', None)]),
     (''http://10.0.0.2'', [(''x'', None)])]"

definition demo_state :: "farm rs" where
  "demo_state = alloc ''pi-ro-0'' ''10.0.0.2'' ''pw'' (alloc ''pi-rw-0'' ''10.0.0.1'' ''pw'' (new_rs demo_cluster demo_farm))"

lemma demo_run: "fst (syncAdLists (static_kube [] [] demo_cluster) farm_net Background demo_state) = Ok ()"
  by code_simp

lemma demo_reg_ok: "reg_ok demo_state"
proof -
  have "reg_ok (alloc ''pi-rw-0'' ''10.0.0.1'' ''pw'' (new_rs demo_cluster demo_farm))"
    by (rule sample_ro_ok)
  then have "reg_ok (alloc ''pi-ro-0'' ''10.0.0.2'' ''pw''
      ((alloc ''pi-rw-0'' ''10.0.0.1'' ''pw'' (new_rs demo_cluster demo_farm))\<lparr>world := demo_farm\<rparr>))"
    by (rule alloc_reg_ok) (simp add: alloc_def new_rs_def)
  then show ?thesis by (simp add: demo_state_def alloc_def new_rs_def)
qed

lemma demo_facts:
  "Config (clSpec (cluster demo_state)) = Some
     \<lparr>cfgAPIPassword = \<lparr>apPassword = ''pw'', apSecretRef = None\<rparr>, cfgEnvVars = [], cfgAdLists = [''b'']\<rparr>"
  "pod_host demo_state (currentClusterName demo_state @ ''-rw-0'') = Some ''http://10.0.0.1''"
  "pod_host demo_state ''pi-ro-0'' = Some ''http://10.0.0.2''" "currentClusterName demo_state = ''pi''"
  "world demo_state = demo_farm"
  by (simp_all add: demo_state_def demo_cluster_def sample_cluster_def zero_cluster_def alloc_def new_rs_def
      pod_host_def client_host_def NewAPIClient_def base_url_def)

theorem ad_list_sync_returns_witness:
  "settled (fst (syncAdLists (static_kube [] [] demo_cluster) farm_net Background demo_state))"
proof -
  have "ranges_all (static_kube [] [] demo_cluster)" "Config (clSpec (cluster demo_state)) \<noteq> None"
    by (simp_all add: static_kube_laws demo_facts)
  from ad_list_sync_returns [OF this(1) demo_reg_ok this(2)] show ?thesis by (metis prod.collapse)
qed



text \<open>A server that answers a DELETE without a session with 401 and is otherwise as before.\<close>

definition guard_deletes :: "'w net \<Rightarrow> 'w net" where
  "guard_deletes N = N\<lparr>http_do := (\<lambda>t k r w.
     if rqMethod r = ''DELETE'' \<and> map_of (rqHeader r) ''X-FTL-SID'' = None then (Inr (answer 401 []), w)
     else http_do N t k r w)\<rparr>"

lemma guard_deletes_env:
  assumes "pihole_env N db K"
  shows "pihole_env (guard_deletes N) db K"
proof -
  have S: "pihole_server N db" and A: "pihole_env_axioms db K" using assms by (simp_all add: pihole_env_def)
  have sel: "time_now (guard_deletes N) = time_now N" "wait (guard_deletes N) = wait N"
    "dec_lists (guard_deletes N) = dec_lists N" by (simp_all add: guard_deletes_def)
  have other: "http_do (guard_deletes N) t k r w = http_do N t k r w" if "rqMethod r \<noteq> ''DELETE''" for t k r w
    using that by (simp add: guard_deletes_def)
  have del: "http_do N t k r w = (Inr resp, w')"
    if "http_do (guard_deletes N) t k r w = (Inr resp, w')" "rspStatus resp \<noteq> 401" for t k r w w' and resp :: http_resp
    using that by (auto simp: guard_deletes_def answer_def split: if_splits)
  have post: "rqMethod r = ''POST'' \<Longrightarrow> http_do (guard_deletes N) t k r w = http_do N t k r w"
    "rqMethod r = ''GET'' \<Longrightarrow> http_do (guard_deletes N) t k r w = http_do N t k r w" for t k r w
    by (rule other, simp)+
  have "pihole_server (guard_deletes N) db"
  proof (rule pihole_server.intro, unfold sel)
    fix r b t k y w w' a seg ls x d o1 and resp :: http_resp and tm :: int
    show "db w' = db w" if "time_now N w = (tm, w')" by (rule pihole_server.time_db [OF S that])
    show "db w' = db w" if "wait N x d w = (o1, w')" by (rule pihole_server.wait_db [OF S that])
    show "db w' = db w" if "rqMethod r = ''POST''" "rqURL r = b @ ''/api/auth''" "http_do (guard_deletes N) t k r w = (y, w')"
      by (rule pihole_server.auth_db [OF S that(1,2) that(3) [unfolded post(1) [OF that(1)]]])
    show "db w' = db w" if "rqMethod r = ''POST''" "rqURL r = b @ ''/api/action/gravity''"
      "http_do (guard_deletes N) t k r w = (y, w')"
      by (rule pihole_server.gravity_db [OF S that(1,2) that(3) [unfolded post(1) [OF that(1)]]])
    show "db w' = db w \<and> (\<lambda>l. (adAddress l, adComment l)) ` set ls = Map.graph (db w b)"
      if "rqMethod r = ''GET''" "rqURL r = b @ ''/api/lists''" "http_do (guard_deletes N) t k r w = (Inr resp, w')"
        "rspStatus resp = 200" "dec_lists N (rspBody resp) (rspReadErr resp) = Inr ls"
      by (rule pihole_server.lists_db [OF S that(1,2) that(3) [unfolded post(2) [OF that(1)]] that(4,5)])
    show "db w' = (db w)(b := (db w b)(a \<mapsto> Some operator_comment))"
      if "rqMethod r = ''POST''" "rqURL r = b @ ''/api/lists''" "rqBody r = JsonBody (adlist_payload a)" "db w b a = None"
        "http_do (guard_deletes N) t k r w = (Inr resp, w')" "rspStatus resp = 200 \<or> rspStatus resp = 201"
      by (rule pihole_server.create_db [OF S that(1-4) that(5) [unfolded post(1) [OF that(1)]] that(6)])
    show "db w' = (db w)(b := (db w b)(a := None))"
      if "rqMethod r = ''DELETE''" "rqURL r = b @ ''/api/lists/'' @ seg @ ''?type=block''" "CHR ''/'' \<notin> set seg"
        "PathUnescape seg = Some a" "http_do (guard_deletes N) t k r w = (Inr resp, w')"
        "rspStatus resp = 200 \<or> rspStatus resp = 204"
      by (rule pihole_server.delete_db [OF S that(1-4) del [OF that(5)] that(6)]) (use that(6) in auto)
  qed
  with A show ?thesis by (simp add: pihole_env_def)
qed



end
