(* ===== verification/Fqdn.thy ===== *)
theory Fqdn
  imports Prelude
begin

text \<open>
  The domain check of the validating webhook: the regular expression of
  \<open>internal/webhook/v1/piholecluster_webhook.go\<close>, line 185, matched by derivatives (Go's
  \<open>regexp\<close> is a regular-language matcher), its language, and the direct description of that
  language as dot-separated labels.
\<close>

section \<open>Regular expressions over character classes\<close>

datatype rexp =
    Zero
  | One
  | Class "(char \<times> char) list"
  | Alt rexp rexp
  | Seq rexp rexp
  | Star rexp

definition in_class :: "(char \<times> char) list \<Rightarrow> char \<Rightarrow> bool" where
  "in_class rs c = list_ex (\<lambda>(lo, hi). of_char lo \<le> (of_char c :: nat) \<and> (of_char c :: nat) \<le> of_char hi) rs"

abbreviation "Lit c \<equiv> Class [(c, c)]"
abbreviation "Opt r \<equiv> Alt One r"
abbreviation "Plus1 r \<equiv> Seq r (Star r)"
abbreviation "AtLeast2 r \<equiv> Seq r (Seq r (Star r))"

fun nullable :: "rexp \<Rightarrow> bool" where
  "nullable Zero = False"
| "nullable One = True"
| "nullable (Class rs) = False"
| "nullable (Alt r q) = (nullable r \<or> nullable q)"
| "nullable (Seq r q) = (nullable r \<and> nullable q)"
| "nullable (Star r) = True"

fun deriv1 :: "char \<Rightarrow> rexp \<Rightarrow> rexp" where
  "deriv1 c Zero = Zero"
| "deriv1 c One = Zero"
| "deriv1 c (Class rs) = (if in_class rs c then One else Zero)"
| "deriv1 c (Alt r q) = Alt (deriv1 c r) (deriv1 c q)"
| "deriv1 c (Seq r q) =
     (if nullable r then Alt (Seq (deriv1 c r) q) (deriv1 c q) else Seq (deriv1 c r) q)"
| "deriv1 c (Star r) = Seq (deriv1 c r) (Star r)"

definition MatchString :: "rexp \<Rightarrow> string \<Rightarrow> bool" where
  "MatchString r s = nullable (foldl (\<lambda>q c. deriv1 c q) r s)"

inductive in_lang :: "string \<Rightarrow> rexp \<Rightarrow> bool" where
  lang_One: "in_lang [] One"
| lang_Class: "in_class rs c \<Longrightarrow> in_lang [c] (Class rs)"
| lang_AltL: "in_lang s r \<Longrightarrow> in_lang s (Alt r q)"
| lang_AltR: "in_lang s q \<Longrightarrow> in_lang s (Alt r q)"
| lang_Seq: "in_lang s r \<Longrightarrow> in_lang t q \<Longrightarrow> in_lang (s @ t) (Seq r q)"
| lang_Star0: "in_lang [] (Star r)"
| lang_Star1: "s \<noteq> [] \<Longrightarrow> in_lang s r \<Longrightarrow> in_lang t (Star r) \<Longrightarrow> in_lang (s @ t) (Star r)"

inductive_cases lang_ZeroE: "in_lang s Zero"
inductive_cases lang_OneE: "in_lang s One"
inductive_cases lang_ClassE: "in_lang s (Class rs)"
inductive_cases lang_AltE: "in_lang s (Alt r q)"
inductive_cases lang_SeqE: "in_lang s (Seq r q)"
inductive_cases lang_StarE: "in_lang s (Star r)"

lemmas lang_elims = lang_ZeroE lang_OneE lang_ClassE lang_AltE lang_SeqE

lemma nullable_iff: "nullable r = in_lang [] r"
proof (induction r)
  case (Seq r q)
  then show ?case
    by (auto elim: lang_SeqE intro: lang_Seq [where s = "[]" and t = "[]", simplified])
qed (auto elim: lang_elims intro: in_lang.intros)

lemma lang_Seq_iff: "in_lang s (Seq r q) \<longleftrightarrow> (\<exists>u v. s = u @ v \<and> in_lang u r \<and> in_lang v q)"
  by (metis lang_SeqE lang_Seq)

lemma lang_Alt_iff: "in_lang s (Alt r q) \<longleftrightarrow> in_lang s r \<or> in_lang s q"
  by (metis lang_AltE lang_AltL lang_AltR)

lemma lang_One_iff: "in_lang s One \<longleftrightarrow> s = []"
  by (auto elim: lang_OneE intro: lang_One)

lemma lang_Zero_iff: "in_lang s Zero \<longleftrightarrow> False"
  by (auto elim: lang_ZeroE)

lemma lang_Star_Cons:
  "in_lang (c # s) (Star r) \<longleftrightarrow> (\<exists>u v. s = u @ v \<and> in_lang (c # u) r \<and> in_lang v (Star r))"
proof
  assume "in_lang (c # s) (Star r)"
  then show "\<exists>u v. s = u @ v \<and> in_lang (c # u) r \<and> in_lang v (Star r)"
    by (cases "c # s" "Star r" rule: in_lang.cases) (auto simp: Cons_eq_append_conv)
next
  assume "\<exists>u v. s = u @ v \<and> in_lang (c # u) r \<and> in_lang v (Star r)"
  then obtain u v where "s = u @ v" "in_lang (c # u) r" "in_lang v (Star r)" by blast
  then show "in_lang (c # s) (Star r)" using lang_Star1 [of "c # u" r v] by simp
qed

lemma deriv1_lang: "in_lang s (deriv1 c r) = in_lang (c # s) r"
proof (induction r arbitrary: s)
  case (Seq r q)
  have "in_lang (c # s) (Seq r q) \<longleftrightarrow>
      (in_lang [] r \<and> in_lang (c # s) q) \<or> (\<exists>u v. s = u @ v \<and> in_lang (c # u) r \<and> in_lang v q)"
    by (auto simp: lang_Seq_iff Cons_eq_append_conv)
  also have "\<dots> = in_lang s (deriv1 c (Seq r q))"
    by (auto simp: nullable_iff Seq.IH lang_Alt_iff lang_Seq_iff)
  finally show ?case by simp
next
  case (Star r)
  show ?case by (simp add: lang_Star_Cons lang_Seq_iff Star.IH)
next
  case (Class rs)
  show ?case by (auto simp: lang_One_iff lang_Zero_iff elim: lang_ClassE intro: lang_Class)
qed (simp_all add: lang_Alt_iff lang_One_iff lang_Zero_iff)

lemma MatchString_lang: "MatchString r s = in_lang s r"
proof (induction s arbitrary: r)
  case Nil
  show ?case by (simp add: MatchString_def nullable_iff)
next
  case (Cons c s)
  then show ?case by (simp add: MatchString_def deriv1_lang [symmetric])
qed

section \<open>The expression of the webhook\<close>

definition alnum_re :: rexp where
  "alnum_re = Class [(CHR ''a'', CHR ''z''), (CHR ''A'', CHR ''Z''), (CHR ''0'', CHR ''9'')]"

definition alpha_re :: rexp where
  "alpha_re = Class [(CHR ''a'', CHR ''z''), (CHR ''A'', CHR ''Z'')]"

definition label_re :: rexp where
  "label_re = Seq alnum_re (Star (Seq (Opt (Lit (CHR ''-''))) alnum_re))"

definition fqdnRe :: rexp where
  "fqdnRe = Seq (Plus1 (Seq label_re (Lit (CHR ''.'')))) (AtLeast2 alpha_re)"

section \<open>The language described directly\<close>

definition is_alpha :: "char \<Rightarrow> bool" where
  "is_alpha c = in_class [(CHR ''a'', CHR ''z''), (CHR ''A'', CHR ''Z'')] c"

definition is_alnum :: "char \<Rightarrow> bool" where
  "is_alnum c = in_class [(CHR ''a'', CHR ''z''), (CHR ''A'', CHR ''Z''), (CHR ''0'', CHR ''9'')] c"

text \<open>A label: letters, digits and single hyphens, with a letter or digit at both ends.\<close>

fun label_tail :: "string \<Rightarrow> bool" where
  "label_tail [] = True"
| "label_tail [c] = is_alnum c"
| "label_tail (c # d # w) =
     (if c = CHR ''-'' then is_alnum d \<and> label_tail w else is_alnum c \<and> label_tail (d # w))"

fun label_ok :: "string \<Rightarrow> bool" where
  "label_ok [] = False"
| "label_ok (c # w) = (is_alnum c \<and> label_tail w)"

definition tld_ok :: "string \<Rightarrow> bool" where
  "tld_ok w = (2 \<le> length w \<and> list_all is_alpha w)"

fun split_dots :: "string \<Rightarrow> string list" where
  "split_dots [] = [[]]"
| "split_dots (c # w) =
     (if c = CHR ''.'' then [] # split_dots w
      else (case split_dots w of [] \<Rightarrow> [[c]] | l # ls \<Rightarrow> (c # l) # ls))"

definition fqdn_ok :: "string \<Rightarrow> bool" where
  "fqdn_ok s = (let ls = split_dots s in
     2 \<le> length ls \<and> list_all label_ok (butlast ls) \<and> tld_ok (last ls))"

section \<open>The two agree\<close>

lemma class_simps: "in_lang s (Class rs) \<longleftrightarrow> (\<exists>c. s = [c] \<and> in_class rs c)"
  by (auto elim: lang_ClassE intro: lang_Class)

lemma in_class_Lit [simp]: "in_class [(d, d)] c \<longleftrightarrow> c = d"
  by (auto simp: in_class_def)

lemma not_alnum_dot [simp]: "\<not> is_alnum (CHR ''.'')" "\<not> is_alnum (CHR ''-'')"
  by (simp_all add: is_alnum_def in_class_def)

lemma alpha_alnum: "is_alpha c \<Longrightarrow> is_alnum c"
  by (auto simp: is_alnum_def is_alpha_def in_class_def)

lemma alnum_lang: "in_lang s alnum_re \<longleftrightarrow> (\<exists>c. s = [c] \<and> is_alnum c)"
  by (simp add: alnum_re_def class_simps is_alnum_def)

lemma alpha_lang: "in_lang s alpha_re \<longleftrightarrow> (\<exists>c. s = [c] \<and> is_alpha c)"
  by (simp add: alpha_re_def class_simps is_alpha_def)

lemma dash_alnum_lang: "in_lang s (Seq (Opt (Lit (CHR ''-''))) alnum_re) \<longleftrightarrow>
    (\<exists>c. is_alnum c \<and> (s = [c] \<or> s = [CHR ''-'', c]))"
proof
  assume "in_lang s (Seq (Opt (Lit (CHR ''-''))) alnum_re)"
  then show "\<exists>c. is_alnum c \<and> (s = [c] \<or> s = [CHR ''-'', c])"
    by (auto elim!: lang_SeqE lang_AltE lang_OneE simp: alnum_lang class_simps)
next
  assume "\<exists>c. is_alnum c \<and> (s = [c] \<or> s = [CHR ''-'', c])"
  then show "in_lang s (Seq (Opt (Lit (CHR ''-''))) alnum_re)"
    using lang_Seq [OF lang_AltL [OF lang_One]] lang_Seq [OF lang_AltR, of "[CHR ''-'']"]
    by (fastforce simp: alnum_lang class_simps)
qed

lemma label_tail_lang:
  "in_lang s (Star (Seq (Opt (Lit (CHR ''-''))) alnum_re)) = label_tail s" (is "in_lang s ?R = _")
proof
  assume "in_lang s ?R"
  then show "label_tail s"
  proof (induction s ?R rule: in_lang.induct)
    case (lang_Star1 s t)
    then show ?case
      by (cases t) (auto simp: dash_alnum_lang)
  qed simp_all
next
  show "label_tail s \<Longrightarrow> in_lang s ?R"
  proof (induction s rule: label_tail.induct)
    case 1
    show ?case by (rule lang_Star0)
  next
    case (2 c)
    then show ?case
      using lang_Star1 [of "[c]" _ "[]"] by (simp add: dash_alnum_lang lang_Star0)
  next
    case (3 c d w)
    show ?case
    proof (cases "c = CHR ''-''")
      case True
      with 3 show ?thesis
        using lang_Star1 [of "[c, d]" _ w] by (simp add: dash_alnum_lang)
    next
      case False
      with 3 show ?thesis
        using lang_Star1 [of "[c]" _ "d # w"] by (simp add: dash_alnum_lang)
    qed
  qed
qed

lemma label_lang: "in_lang s label_re = label_ok s"
proof
  assume "in_lang s label_re"
  then show "label_ok s"
    unfolding label_re_def by (auto elim!: lang_SeqE simp: alnum_lang label_tail_lang)
next
  assume "label_ok s"
  then show "in_lang s label_re"
    unfolding label_re_def
    using lang_Seq [of "[hd s]" alnum_re "tl s"]
    by (cases s) (auto simp: alnum_lang label_tail_lang)
qed

lemma tld_star_lang: "in_lang s (Star alpha_re) = list_all is_alpha s"
proof
  assume "in_lang s (Star alpha_re)"
  then show "list_all is_alpha s"
    by (induction s "Star alpha_re" rule: in_lang.induct) (auto simp: alpha_lang)
next
  show "list_all is_alpha s \<Longrightarrow> in_lang s (Star alpha_re)"
  proof (induction s)
    case (Cons c s)
    then show ?case using lang_Star1 [of "[c]" alpha_re s] by (auto simp: alpha_lang)
  qed (rule lang_Star0)
qed

lemma tld_lang: "in_lang s (AtLeast2 alpha_re) = tld_ok s"
proof
  assume "in_lang s (AtLeast2 alpha_re)"
  then show "tld_ok s"
    by (auto elim!: lang_SeqE simp: alpha_lang tld_star_lang tld_ok_def)
next
  assume ok: "tld_ok s"
  then obtain a b w where s: "s = a # b # w"
    by (cases s; cases "tl s") (auto simp: tld_ok_def)
  with ok have "in_lang ([a] @ [b] @ w) (AtLeast2 alpha_re)"
    by (intro lang_Seq) (auto simp: tld_ok_def alpha_lang tld_star_lang)
  with s show "in_lang s (AtLeast2 alpha_re)" by simp
qed

subsection \<open>Joining and splitting at dots\<close>

definition dotted :: "string list \<Rightarrow> string" where
  "dotted ls = concat (map (\<lambda>l. l @ ''.'') ls)"

lemma label_dot_lang: "in_lang s (Seq label_re (Lit (CHR ''.''))) \<longleftrightarrow> (\<exists>l. label_ok l \<and> s = l @ ''.'')"
proof
  assume "in_lang s (Seq label_re (Lit (CHR ''.'')))"
  then show "\<exists>l. label_ok l \<and> s = l @ ''.''"
    by (auto elim!: lang_SeqE simp: label_lang class_simps)
next
  assume "\<exists>l. label_ok l \<and> s = l @ ''.''"
  then show "in_lang s (Seq label_re (Lit (CHR ''.'')))"
    using lang_Seq [of _ label_re "''.''" "Lit (CHR ''.'')"] by (auto simp: label_lang class_simps)
qed

lemma dotted_star_lang: "in_lang s (Star (Seq label_re (Lit (CHR ''.'')))) \<longleftrightarrow>
    (\<exists>ls. list_all label_ok ls \<and> s = dotted ls)" (is "in_lang s (Star ?R) \<longleftrightarrow> ?P s")
proof
  assume "in_lang s (Star ?R)"
  then show "?P s"
  proof (induction s "Star ?R" rule: in_lang.induct)
    case lang_Star0
    then show ?case by (intro exI [of _ "[]"]) (simp add: dotted_def)
  next
    case (lang_Star1 s t)
    then obtain l ls where "label_ok l" "s = l @ ''.''" "list_all label_ok ls" "t = dotted ls"
      by (auto simp: label_dot_lang)
    then show ?case by (intro exI [of _ "l # ls"]) (simp add: dotted_def)
  qed
next
  assume "?P s"
  then obtain ls where "list_all label_ok ls" "s = dotted ls" by blast
  then show "in_lang s (Star ?R)"
  proof (induction ls arbitrary: s)
    case Nil
    then show ?case by (simp add: dotted_def lang_Star0)
  next
    case (Cons l ls)
    then have "in_lang ((l @ ''.'') @ dotted ls) (Star ?R)"
      by (intro lang_Star1) (auto simp: label_dot_lang)
    with Cons.prems show ?case by (simp add: dotted_def)
  qed
qed

lemma fqdnRe_lang: "in_lang s fqdnRe \<longleftrightarrow>
    (\<exists>l ls t. list_all label_ok (l # ls) \<and> tld_ok t \<and> s = dotted (l # ls) @ t)" (is "_ \<longleftrightarrow> ?P")
proof
  assume "in_lang s fqdnRe"
  then obtain u v w where "in_lang u (Seq label_re (Lit (CHR ''.'')))"
      "in_lang v (Star (Seq label_re (Lit (CHR ''.''))))" "tld_ok w" "s = (u @ v) @ w"
    unfolding fqdnRe_def by (auto elim!: lang_SeqE [of _ "Plus1 _"] lang_SeqE [of _ "Seq _ (Lit _)"]
        simp: tld_lang)
  then show ?P by (fastforce simp: label_dot_lang dotted_star_lang dotted_def)
next
  assume ?P
  then obtain l ls t where a: "label_ok l" "list_all label_ok ls" "tld_ok t"
    and s: "s = ((l @ ''.'') @ dotted ls) @ t"
    by (auto simp: dotted_def)
  show "in_lang s fqdnRe"
    unfolding fqdnRe_def s using a
    by (intro lang_Seq [of _ "Plus1 _"] lang_Seq [of _ "Seq _ (Lit _)"])
      (auto simp: tld_lang label_dot_lang dotted_star_lang)
qed

lemma label_tail_no_dot: "label_tail w \<Longrightarrow> CHR ''.'' \<notin> set w"
  by (induction w rule: label_tail.induct) (auto split: if_splits)

lemma label_no_dot: "label_ok l \<Longrightarrow> CHR ''.'' \<notin> set l"
  by (cases l) (auto dest: label_tail_no_dot)

lemma tld_no_dot: "tld_ok t \<Longrightarrow> CHR ''.'' \<notin> set t"
  by (auto simp: tld_ok_def list_all_iff dest!: alpha_alnum)

lemma split_dots_nonempty [simp]: "split_dots w \<noteq> []"
  by (induction w) (auto split: list.splits)

lemma split_dots_no_dot: "CHR ''.'' \<notin> set t \<Longrightarrow> split_dots t = [t]"
  by (induction t) auto

lemma split_dots_label: "CHR ''.'' \<notin> set l \<Longrightarrow> split_dots (l @ CHR ''.'' # w) = l # split_dots w"
  by (induction l) auto

lemma split_dots_dotted:
  "list_all (\<lambda>l. CHR ''.'' \<notin> set l) ls \<Longrightarrow> CHR ''.'' \<notin> set t \<Longrightarrow> split_dots (dotted ls @ t) = ls @ [t]"
  by (induction ls) (auto simp: dotted_def split_dots_no_dot split_dots_label)

lemma dotted_split_dots: "dotted (butlast (split_dots w)) @ last (split_dots w) = w"
proof (induction w)
  case (Cons c w)
  then show ?case by (cases "split_dots w") (auto simp: dotted_def)
qed (simp add: dotted_def)

lemma MatchString_fqdn: "MatchString fqdnRe s = fqdn_ok s"
proof -
  have "in_lang s fqdnRe \<longleftrightarrow> fqdn_ok s"
  proof
    assume "in_lang s fqdnRe"
    then obtain l ls t where a: "list_all label_ok (l # ls)" "tld_ok t" "s = dotted (l # ls) @ t"
      by (auto simp: fqdnRe_lang)
    then have "split_dots s = (l # ls) @ [t]"
      by (simp only: a(3), intro split_dots_dotted) (auto simp: list_all_iff label_no_dot tld_no_dot)
    with a show "fqdn_ok s" by (simp add: fqdn_ok_def Let_def)
  next
    assume ok: "fqdn_ok s"
    then obtain l ls where bl: "butlast (split_dots s) = l # ls"
      by (cases "split_dots s" rule: rev_cases; cases "butlast (split_dots s)")
        (auto simp: fqdn_ok_def Let_def)
    have "s = dotted (l # ls) @ last (split_dots s)"
      using dotted_split_dots [of s] by (simp add: bl)
    with ok bl show "in_lang s fqdnRe"
      unfolding fqdnRe_lang fqdn_ok_def Let_def by metis
  qed
  then show ?thesis by (simp add: MatchString_lang)
qed

end
