(* ===== verification/Webhook.thy ===== *)
theory Webhook
  imports ApiTypes Fqdn
begin

text \<open>
  \<open>internal/webhook/v1/piholecluster_webhook.go\<close>: the mutating webhook (\<open>Default\<close>) and the
  validating webhook (\<open>ValidateCreate\<close>, \<open>ValidateUpdate\<close>, \<open>ValidateDelete\<close>). They are pure
  functions of the object; a nil dereference of the Go code is the outcome \<open>Panic\<close>. The lemmas give
  the accepted clusters exactly, and show that the mutating webhook fills what the controller
  dereferences and removes the one nil dereference of the validator.
\<close>

section \<open>The mutating webhook\<close>

definition default_ingress :: "PiHoleClusterSpec \<Rightarrow> PiHoleClusterSpec" where
  "default_ingress s = (case Ingress s of
      None \<Rightarrow> s\<lparr>Ingress := Some \<lparr>ingEnabled = False, ingDomain = []\<rparr>\<rparr>
    | Some _ \<Rightarrow> s)"

definition default_monitoring :: "PiHoleClusterSpec \<Rightarrow> PiHoleClusterSpec" where
  "default_monitoring s = (case Monitoring s of
      None \<Rightarrow> s\<lparr>Monitoring := Some \<lparr>monExporter = Some zero_exporter,
                                  monPodMonitor = Some \<lparr>pmEnabled = False\<rparr>\<rparr>\<rparr>
    | Some m \<Rightarrow>
        (let m1 = (case monExporter m of None \<Rightarrow> m\<lparr>monExporter := Some zero_exporter\<rparr> | Some _ \<Rightarrow> m);
             m2 = (case monPodMonitor m1 of None \<Rightarrow> m1\<lparr>monPodMonitor := Some \<lparr>pmEnabled = False\<rparr>\<rparr>
                                          | Some _ \<Rightarrow> m1)
         in s\<lparr>Monitoring := Some m2\<rparr>))"

definition default_sync :: "PiHoleClusterSpec \<Rightarrow> PiHoleClusterSpec" where
  "default_sync s = (case Sync s of
      None \<Rightarrow> s\<lparr>Sync := Some \<lparr>synConfig = True, synAdLists = True\<rparr>\<rparr>
    | Some _ \<Rightarrow> s)"

definition zero_rov :: ReadOnlyVolumeSpec where
  "zero_rov = \<lparr>ReadOnlyVolumeType = [], rovSize = [], rovStorageClassName = None, rovAccessModes = []\<rparr>"

definition default_rov :: "PiHoleClusterSpec \<Rightarrow> PiHoleClusterSpec" where
  "default_rov s =
     (let v0 = (case ReadOnlyVolume s of None \<Rightarrow> zero_rov | Some v \<Rightarrow> v);
          v1 = (if ReadOnlyVolumeType v0 = [] then v0\<lparr>ReadOnlyVolumeType := ''emptyDir''\<rparr> else v0);
          v2 = (if rovSize v1 = [] then v1\<lparr>rovSize := ''5Gi''\<rparr> else v1);
          v3 = (if length (rovAccessModes v2) = 0 then v2\<lparr>rovAccessModes := [''ReadWriteOnce'']\<rparr> else v2)
      in s\<lparr>ReadOnlyVolume := Some v3\<rparr>)"

definition Default :: "runtime_obj \<Rightarrow> runtime_obj res" where
  "Default obj = (case obj of
      OtherObj ty \<Rightarrow> Err (Errorf ''expected a PiHoleCluster object but got'' [FS ty])
    | ClusterObj c \<Rightarrow>
        Ok (ClusterObj (c\<lparr>clSpec := default_rov (default_sync (default_monitoring (default_ingress (clSpec c))))\<rparr>)))"

section \<open>The validating webhook\<close>

definition invalid :: "PiHoleCluster \<Rightarrow> string list \<Rightarrow> farg \<Rightarrow> string \<Rightarrow> unit res" where
  "invalid c path v detail = Err (InvalidField (clName c) path v detail)"

definition validateIngress :: "PiHoleCluster \<Rightarrow> unit res" where
  "validateIngress c = (case Ingress (clSpec c) of
      None \<Rightarrow> Ok ()
    | Some ing \<Rightarrow>
        if \<not> ingEnabled ing then Ok ()
        else if ingDomain ing = [] then
          invalid c [''spec'', ''ingress'', ''domain''] (FS (ingDomain ing)) ''must not be empty''
        else if \<not> MatchString fqdnRe (ingDomain ing) then
          invalid c [''spec'', ''ingress'', ''domain''] (FS (ingDomain ing)) ''must be a valid FQDN''
        else Ok ())"

text \<open>
  The error of the pod-monitor check takes \<open>spec.Monitoring.Exporter.Enabled\<close> as its value, which
  dereferences \<open>Exporter\<close> also when the check was entered because it is nil.
\<close>

definition validateMonitoring :: "PiHoleCluster \<Rightarrow> unit res" where
  "validateMonitoring c = (case Monitoring (clSpec c) of
      None \<Rightarrow> Ok ()
    | Some mon \<Rightarrow>
        if monPodMonitor mon = None \<and> monExporter mon = None then Ok ()
        else (case monPodMonitor mon of
            None \<Rightarrow> Ok ()
          | Some pm \<Rightarrow>
              if \<not> pmEnabled pm then Ok ()
              else (case monExporter mon of
                  None \<Rightarrow> Panic ''nil pointer dereference''
                | Some e \<Rightarrow>
                    if \<not> expEnabled e then
                      invalid c [''spec'', ''monitoring'', ''exporter'', ''enabled''] (FB (expEnabled e))
                        ''must be true when podMonitor.enabled is true''
                    else Ok ())))"

definition ValidateCreate :: "runtime_obj \<Rightarrow> unit res" where
  "ValidateCreate obj = (case obj of
      OtherObj ty \<Rightarrow> Err (Errorf ''expected a PiHoleCluster object but got'' [FS ty])
    | ClusterObj c \<Rightarrow>
        (case validateIngress c of
            Ok _ \<Rightarrow>
              (case validateMonitoring c of
                  Ok _ \<Rightarrow>
                    if sint (Replicas (clSpec c)) < 0 then
                      invalid c [''spec'', ''replicas''] (FI (sint (Replicas (clSpec c)))) ''must be >= 0''
                    else Ok ()
                | r \<Rightarrow> r)
          | r \<Rightarrow> r))"

definition ValidateUpdate :: "runtime_obj \<Rightarrow> runtime_obj \<Rightarrow> unit res" where
  "ValidateUpdate old newObj = (case newObj of
      OtherObj ty \<Rightarrow> Err (Errorf ''expected a PiHoleCluster object for the newObj but got'' [FS ty])
    | ClusterObj c \<Rightarrow>
        (case validateIngress c of
            Ok _ \<Rightarrow>
              (case validateMonitoring c of
                  Ok _ \<Rightarrow>
                    if sint (Replicas (clSpec c)) < 0 then
                      invalid c [''spec'', ''replicas''] (FI (sint (Replicas (clSpec c)))) ''must be >= 0''
                    else Ok ()
                | r \<Rightarrow> r)
          | r \<Rightarrow> r))"

definition ValidateDelete :: "runtime_obj \<Rightarrow> unit res" where
  "ValidateDelete obj = (case obj of
      OtherObj ty \<Rightarrow> Err (Errorf ''expected a PiHoleCluster object but got'' [FS ty])
    | ClusterObj c \<Rightarrow> Ok ())"

section \<open>What the webhooks promise\<close>

text \<open>The clusters the validator is meant to accept, and those whose optional parts are filled.\<close>

definition admissible :: "PiHoleCluster \<Rightarrow> bool" where
  "admissible c \<longleftrightarrow>
     (\<forall>ing. Ingress (clSpec c) = Some ing \<longrightarrow> ingEnabled ing \<longrightarrow> fqdn_ok (ingDomain ing)) \<and>
     (\<forall>mon pm. Monitoring (clSpec c) = Some mon \<longrightarrow> monPodMonitor mon = Some pm \<longrightarrow> pmEnabled pm \<longrightarrow>
        (\<exists>e. monExporter mon = Some e \<and> expEnabled e)) \<and>
     0 \<le> sint (Replicas (clSpec c))"

definition defaulted :: "PiHoleClusterSpec \<Rightarrow> bool" where
  "defaulted s \<longleftrightarrow>
     Ingress s \<noteq> None \<and>
     (\<exists>m. Monitoring s = Some m \<and> monExporter m \<noteq> None \<and> monPodMonitor m \<noteq> None) \<and>
     Sync s \<noteq> None \<and>
     (\<exists>v. ReadOnlyVolume s = Some v \<and> ReadOnlyVolumeType v \<noteq> [] \<and> rovSize v \<noteq> [] \<and> rovAccessModes v \<noteq> [])"

lemmas default_defs =
  default_ingress_def default_monitoring_def default_sync_def default_rov_def Let_def

lemma fqdn_ok_Nil [simp]: "\<not> fqdn_ok []"
  by (simp add: fqdn_ok_def)

lemma validateIngress_Ok:
  "validateIngress c = Ok () \<longleftrightarrow>
    (\<forall>ing. Ingress (clSpec c) = Some ing \<longrightarrow> ingEnabled ing \<longrightarrow> fqdn_ok (ingDomain ing))"
  by (auto simp: validateIngress_def invalid_def MatchString_fqdn split: option.splits)

lemma validateIngress_no_panic: "validateIngress c \<noteq> Panic m" "validateIngress c \<noteq> Blocked"
  by (auto simp: validateIngress_def invalid_def split: option.splits)

lemma validateMonitoring_Ok:
  "validateMonitoring c = Ok () \<longleftrightarrow>
    (\<forall>mon pm. Monitoring (clSpec c) = Some mon \<longrightarrow> monPodMonitor mon = Some pm \<longrightarrow> pmEnabled pm \<longrightarrow>
        (\<exists>e. monExporter mon = Some e \<and> expEnabled e))"
  by (auto simp: validateMonitoring_def invalid_def split: option.splits)

lemma validateMonitoring_panic:
  "validateMonitoring c = Panic m \<longleftrightarrow> m = ''nil pointer dereference'' \<and>
    (\<exists>mon pm. Monitoring (clSpec c) = Some mon \<and> monPodMonitor mon = Some pm \<and> pmEnabled pm \<and>
       monExporter mon = None)"
  by (auto simp: validateMonitoring_def invalid_def split: option.splits)

lemma validateMonitoring_not_blocked: "validateMonitoring c \<noteq> Blocked"
  by (auto simp: validateMonitoring_def invalid_def split: option.splits)

text \<open>C19: the regular expression of the webhook accepts exactly the domains that are at least one
  label followed by a top-level label, separated by dots, where a label is made of letters, digits and
  single hyphens with a letter or digit at both ends and the top-level label is two or more letters.\<close>

theorem fqdn_regex_is_label_grammar:
  "MatchString fqdnRe s = fqdn_ok s"
  by (rule MatchString_fqdn)

text \<open>C20: the validating webhook accepts a cluster exactly when it is admissible: an enabled Ingress
  has a well-formed domain, an enabled pod monitor comes with an enabled exporter, and the replica
  count is not negative. Update applies the same rule to the new object and never looks at the old one.\<close>

theorem validate_accepts_iff_admissible:
  "(ValidateCreate (ClusterObj c) = Ok () \<longleftrightarrow> admissible c) \<and>
   (ValidateUpdate old (ClusterObj c) = Ok () \<longleftrightarrow> admissible c)"
  using validateIngress_Ok [of c] validateMonitoring_Ok [of c]
  by (auto simp: ValidateCreate_def ValidateUpdate_def admissible_def invalid_def
      split: res.splits option.splits)

text \<open>C36: the validator panics on a cluster exactly when its Ingress passes, its pod monitor is enabled
  and its exporter block is absent; a cluster that went through the mutating webhook never makes it
  panic.\<close>

theorem validate_panics_iff_exporter_absent:
  "((\<exists>m. ValidateCreate (ClusterObj c) = Panic m) \<longleftrightarrow>
      validateIngress c = Ok () \<and>
      (\<exists>mon pm. Monitoring (clSpec c) = Some mon \<and> monPodMonitor mon = Some pm \<and> pmEnabled pm \<and>
         monExporter mon = None)) \<and>
   (\<exists>c'. Default (ClusterObj c) = Ok (ClusterObj c') \<and> (\<nexists>m. ValidateCreate (ClusterObj c') = Panic m))"
proof -
  have iff: "(\<exists>m. ValidateCreate (ClusterObj c) = Panic m) \<longleftrightarrow>
      validateIngress c = Ok () \<and> (\<exists>m. validateMonitoring c = Panic m)" for c
    using validateIngress_no_panic [of c] validateMonitoring_not_blocked [of c]
    by (auto simp: ValidateCreate_def invalid_def split: res.splits)
  show ?thesis
    by (auto simp: iff validateMonitoring_panic Default_def default_defs split: option.splits)
qed



text \<open>A domain whose first label holds two hyphens in a row, as every punycode label does, is
  rejected: such a cluster is refused although its domain is a well-formed name.\<close>

theorem punycode_domain_rejected:
  "\<not> MatchString fqdnRe (''xn--'' @ w)"
proof -
  have "\<not> label_ok (''xn--'' @ v)" for v
    by (simp add: is_alnum_def in_class_def)
  moreover have "\<exists>v ls. split_dots (''xn--'' @ w) = (''xn--'' @ v) # ls"
    by (cases "split_dots w") auto
  ultimately show ?thesis
    by (auto simp: MatchString_fqdn fqdn_ok_def Let_def split: if_splits)
qed

end
