(* ===== verification/ConfigSync.thy ===== *)
theory ConfigSync
  imports AdListSync Upsert Webhook
begin

text \<open>
  \<open>internal/controller/piholecluster/sync.go\<close>, lines 24 to 123 and 352 to 370: the list of pods that
  were brought up to date (\<open>isPodSynced\<close>, \<open>addPodSynced\<close>) and \<open>performConfigSync\<close>, which copies the
  configuration of the read-write pod to the read-only pods that are not on the list.
\<close>

section \<open>The list of synchronised pods\<close>

fun synced_in :: "SyncedPod list \<Rightarrow> string \<Rightarrow> string \<Rightarrow> bool" where
  "synced_in [] n uid = False"
| "synced_in (s # ss) n uid = (if spName s = n \<and> spUID s = uid then True else synced_in ss n uid)"

definition isPodSynced :: "PiHoleCluster \<Rightarrow> string \<Rightarrow> string \<Rightarrow> bool" where
  "isPodSynced cl n uid = synced_in (SyncedPods (clStatus cl)) n uid"

definition addPodSynced :: "PiHoleCluster \<Rightarrow> string \<Rightarrow> string \<Rightarrow> PiHoleCluster" where
  "addPodSynced cl n uid =
     (if isPodSynced cl n uid then cl
      else cl\<lparr>clStatus := (clStatus cl)\<lparr>SyncedPods := SyncedPods (clStatus cl) @ [\<lparr>spName = n, spUID = uid\<rparr>]\<rparr>\<rparr>)"

definition synced_pods :: "PiHoleCluster \<Rightarrow> (string \<times> string) set" where
  "synced_pods cl = (\<lambda>p. (spName p, spUID p)) ` set (SyncedPods (clStatus cl))"

lemma isPodSynced_iff: "isPodSynced cl n uid \<longleftrightarrow> (n, uid) \<in> synced_pods cl"
proof -
  have "synced_in ss n uid \<longleftrightarrow> (n, uid) \<in> (\<lambda>p. (spName p, spUID p)) ` set ss" for ss
    by (induction ss) auto
  then show ?thesis by (simp add: isPodSynced_def synced_pods_def)
qed

lemma synced_pods_add [simp]: "synced_pods (addPodSynced cl n uid) = insert (n, uid) (synced_pods cl)"
  using isPodSynced_iff [of cl n uid] by (auto simp: addPodSynced_def) (auto simp: synced_pods_def)

interpretation tracker: growing_set "\<lambda>cl p. isPodSynced cl (fst p) (snd p)" "\<lambda>cl p. addPodSynced cl (fst p) (snd p)"
  synced_pods
  by unfold_locales (simp_all add: isPodSynced_iff)

text \<open>The list never holds a pod twice.\<close>

definition tracker_ok :: "PiHoleCluster \<Rightarrow> bool" where
  "tracker_ok cl \<longleftrightarrow> distinct (SyncedPods (clStatus cl))"

lemma addPodSynced_ok: "tracker_ok cl \<Longrightarrow> tracker_ok (addPodSynced cl n uid)"
  using isPodSynced_iff [of cl n uid] by (force simp: addPodSynced_def tracker_ok_def synced_pods_def)

lemma stamped_flags:
  "synced_pods (c\<lparr>clStatus := (clStatus c)\<lparr>ConfigSynced := b, LastConfigSyncTime := t\<rparr>\<rparr>) = synced_pods c"
  "synced_pods (c\<lparr>clStatus := (clStatus c)\<lparr>AdListSynced := b, LastAdListSyncTime := t\<rparr>\<rparr>) = synced_pods c"
  "tracker_ok (c\<lparr>clStatus := (clStatus c)\<lparr>ConfigSynced := b, LastConfigSyncTime := t\<rparr>\<rparr>) = tracker_ok c"
  "tracker_ok (c\<lparr>clStatus := (clStatus c)\<lparr>AdListSynced := b, LastAdListSyncTime := t\<rparr>\<rparr>) = tracker_ok c"
  by (simp_all add: synced_pods_def tracker_ok_def)

section \<open>The code\<close>

definition role_labels :: "PiHoleCluster \<Rightarrow> string \<Rightarrow> smap" where
  "role_labels cl role = [(''app.kubernetes.io/instance'', clName cl), (''app.kubernetes.io/name'', ''pihole''),
     (''supporterino.de/pihole-role'', role)]"

text \<open>The pods by base URL; of two pods with the same address the later one stays.\<close>

definition pod_map :: "Pod list \<Rightarrow> (string \<times> Pod) list" where
  "pod_map pods = fold (\<lambda>p m. mput (base_url (podIP p)) p m) pods []"

definition podsNeedingSync :: "PiHoleCluster \<Rightarrow> (string \<times> Pod) list \<Rightarrow> string list" where
  "podsNeedingSync cl podMap =
     map podName (filter (\<lambda>p. \<not> isPodSynced cl (podName p) (podUID p)) (map snd podMap))"

text \<open>One round of the upload loop.\<close>

definition uploadTo :: "'w net \<Rightarrow> ctx \<Rightarrow> (string \<times> Pod) list \<Rightarrow> string \<Rightarrow> nat option \<Rightarrow> ('w rs, unit) prog" where
  "uploadTo N ctxSync podMap data ro =
     bindR getS (\<lambda>s. case ro of
         None \<Rightarrow> panic ''nil pointer dereference''
       | Some a \<Rightarrow>
           (case map_of podMap (BaseURL (heap s a)) of
              None \<Rightarrow> ret ()
            | Some pod \<Rightarrow>
                bindR (tryR (on_client ro (UploadTeleporter N ctxSync data))) (\<lambda>r.
                case r of
                  Inl _ \<Rightarrow> ret ()
                | Inr _ \<Rightarrow> modCluster (\<lambda>cl. addPodSynced cl (podName pod) (podUID pod)))))"

text \<open>The error of a status update is only logged.\<close>

definition stampStatus :: "'w kube \<Rightarrow> 'w net \<Rightarrow> (int \<Rightarrow> PiHoleClusterStatus \<Rightarrow> PiHoleClusterStatus) \<Rightarrow> ('w rs, unit) prog" where
  "stampStatus K N f =
     bindR (askW (time_now N)) (\<lambda>t.
     bindR (modStatus (f t)) (\<lambda>_.
     bindR (tryR (UpdateClusterStatusWithRetry K)) (\<lambda>_. ret ())))"

definition adListStage :: "'w kube \<Rightarrow> 'w net \<Rightarrow> ctx \<Rightarrow> ('w rs, unit) prog" where
  "adListStage K N ctx =
     bindR getCluster (\<lambda>cl.
     case Sync (clSpec cl) of
       None \<Rightarrow> panic ''nil pointer dereference''
     | Some sy \<Rightarrow>
         if \<not> synAdLists sy then ret ()
         else (case Config (clSpec cl) of
             None \<Rightarrow> panic ''nil pointer dereference''
           | Some cfg \<Rightarrow>
               whenR (cfgAdLists cfg \<noteq> [])
                 (bindR (wrap ''sync ad lists'' (syncAdLists K N ctx)) (\<lambda>_.
                  stampStatus K N (\<lambda>t st. st\<lparr>AdListSynced := True, LastAdListSyncTime := t\<rparr>)))))"

definition performConfigSync :: "'w kube \<Rightarrow> 'w net \<Rightarrow> ctx \<Rightarrow> ('w rs, unit) prog" where
  "performConfigSync K N ctx =
     bindR getCluster (\<lambda>cl.
     bindR (wrap ''listing RO pods'' (callW (k_list_pods K (clNamespace cl) (role_labels cl ''readonly'')))) (\<lambda>pods.
     let podMap = pod_map pods in
     if podsNeedingSync cl podMap = [] then ret ()
     else
     bindR (ctxR (\<lambda>_. Errorf ''read-write client unavailable'' []) ReadWriteAPIClient) (\<lambda>rwClient.
     let ctxSync = WithTimeout ctx (30 * second) in
     bindR (wrap ''download teleporter'' (on_client rwClient (DownloadTeleporter N ctxSync))) (\<lambda>data.
     bindR (ctxR (\<lambda>_. Errorf ''read-only clients unavailable'' []) (ReadOnlyAPIClients K)) (\<lambda>roClients.
     bindR (forR roClients (uploadTo N ctxSync podMap data)) (\<lambda>_.
     bindR (stampStatus K N (\<lambda>t st. st\<lparr>ConfigSynced := True, LastConfigSyncTime := t\<rparr>)) (\<lambda>_.
     adListStage K N ctx)))))))"

section \<open>The calls come back\<close>

text \<open>The registry with a fixed set of clients, and a property of the cluster object.\<close>

definition reg_with :: "(string \<times> ApiClientEntry) list \<Rightarrow> (PiHoleCluster \<Rightarrow> bool) \<Rightarrow> 'w rs \<Rightarrow> bool" where
  "reg_with M P s \<longleftrightarrow> reg_ok s \<and> ApiClients s = M \<and> P (cluster s)"

lemma reg_with_worldless [simp]: "worldless (reg_with M P)"
  by (simp add: worldless_def reg_with_def reg_ok_world)

lemma reg_with_cluster: "reg_with M P s \<Longrightarrow> P c \<Longrightarrow> reg_with M P (s\<lparr>cluster := c\<rparr>)"
  by (auto simp: reg_with_def reg_ok_def)

lemma modCluster_returns: "(\<And>c. P c \<Longrightarrow> P (f c)) \<Longrightarrow> returns (reg_with M P) (modCluster f)"
  unfolding modCluster_def by (rule returns_modS) (rule reg_with_cluster, auto simp: reg_with_def)

lemma returns_reg_with:
  assumes "\<And>cl. P cl \<Longrightarrow> returns (reg_at M cl) m"
  shows "returns (reg_with M P) m"
proof -
  have "reg_with M P s' \<and> settled r" if I: "reg_with M P s" and run: "m s = (r, s')" for s r s'
  proof -
    from I have P: "P (cluster s)" and A: "reg_at M (cluster s) s" by (simp_all add: reg_with_def reg_at_def)
    from keepsD [OF returns_keeps [OF assms [OF P]] A run] returnsD [OF assms [OF P] A run] P
    show ?thesis by (simp add: reg_with_def reg_at_def)
  qed
  then show ?thesis by (intro returnsI keepsI) blast+
qed

text \<open>The server answers a status update with the status, name and namespace it was sent, and with the
  blocks \<open>sync\<close> and \<open>config\<close>, which the operator never writes.\<close>

definition echoes :: "'w kube \<Rightarrow> bool" where
  "echoes K \<longleftrightarrow> (\<forall>cl w cl' w'. k_status_update K cl w = (Inr cl', w') \<longrightarrow>
     clStatus cl' = clStatus cl \<and> clName cl' = clName cl \<and> clNamespace cl' = clNamespace cl \<and>
     Sync (clSpec cl') = Sync (clSpec cl) \<and> Config (clSpec cl') = Config (clSpec cl))"

text \<open>A property of the cluster object that only looks at those parts.\<close>

definition status_prop :: "(PiHoleCluster \<Rightarrow> bool) \<Rightarrow> bool" where
  "status_prop P \<longleftrightarrow> (\<forall>c d. clStatus d = clStatus c \<longrightarrow> clName d = clName c \<longrightarrow> clNamespace d = clNamespace c \<longrightarrow>
     Sync (clSpec d) = Sync (clSpec c) \<longrightarrow> Config (clSpec d) = Config (clSpec c) \<longrightarrow> P c \<longrightarrow> P d)"

lemma UpdateStatus_echo:
  assumes "echoes K" "status_prop P" "retrier (retry_on_conflict K) world_pause"
  shows "returns (reg_with M P) (UpdateClusterStatusWithRetry K)"
proof -
  have "returns (reg_with M P)
     (bindR getCluster (\<lambda>cl. bindR (callW (k_status_update K cl)) (\<lambda>cl. modCluster (\<lambda>_. cl))))"
    (is "returns _ ?f")
  proof -
    have "reg_with M P s' \<and> settled r" if I: "reg_with M P s" and run: "?f s = (r, s')" for s r s'
    proof -
      obtain x w where u: "k_status_update K (cluster s) (world s) = (x, w)" by (meson surj_pair)
      show ?thesis
      proof (cases x)
        case (Inl e)
        with I u run show ?thesis
          by (auto simp: getCluster_def askR_def bindR_def callW_def callR_def reg_with_def reg_ok_world)
      next
        case (Inr c)
        with u assms(1) have e: "clStatus c = clStatus (cluster s)" "clName c = clName (cluster s)"
          "clNamespace c = clNamespace (cluster s)" "Sync (clSpec c) = Sync (clSpec (cluster s))"
          "Config (clSpec c) = Config (clSpec (cluster s))" unfolding echoes_def by blast+
        have "P c" using assms(2) e I unfolding status_prop_def reg_with_def by blast
        with I u run Inr show ?thesis
          by (auto simp: getCluster_def askR_def bindR_def callW_def callR_def modCluster_def modS_def
              reg_with_def reg_ok_def)
      qed
    qed
    then show ?thesis by (intro returnsI keepsI) blast+
  qed
  then show ?thesis
    unfolding UpdateClusterStatusWithRetry_def
    by (rule retrier.run_settled [OF assms(3)]) (rule world_pause_kept, simp)
qed

lemma stampStatus_returns:
  assumes "echoes K" "status_prop P" "retrier (retry_on_conflict K) world_pause"
    and "\<And>t c. P c \<Longrightarrow> P (c\<lparr>clStatus := f t (clStatus c)\<rparr>)"
  shows "returns (reg_with M P) (stampStatus K N f)"
  unfolding stampStatus_def modStatus_def
  by (intro returns_bindR returns_tryR returns_basic worldless_calls UpdateStatus_echo [OF assms(1-3)]
      modCluster_returns assms(4) reg_with_worldless)

lemma uploadTo_returns:
  assumes "q \<in> pointers M" "\<And>c n u. P c \<Longrightarrow> P (addPodSynced c n u)"
  shows "returns (reg_with M P) (uploadTo N ctx podMap d q)"
  unfolding uploadTo_def
proof (rule returns_bindR_post [where P = "\<lambda>_. q \<noteq> None"])
  show "q \<noteq> None" if "reg_with M P s" for s :: "'a rs"
    using that pointers_not_nil [of M "cluster s" s q] assms(1) by (simp add: reg_with_def reg_at_def)
  have up: "returns (reg_with M P) (on_client q (UploadTeleporter N ctx d))"
    by (rule returns_reg_with) (rule adlist_calls_return(6) [OF assms(1)])
  show "returns (reg_with M P) (case q of None \<Rightarrow> panic ''nil pointer dereference''
       | Some a \<Rightarrow> (case map_of podMap (BaseURL (heap s a)) of None \<Rightarrow> ret ()
            | Some pod \<Rightarrow> bindR (tryR (on_client q (UploadTeleporter N ctx d))) (\<lambda>r. case r of Inl _ \<Rightarrow> ret ()
                | Inr _ \<Rightarrow> modCluster (\<lambda>cl. addPodSynced cl (podName pod) (podUID pod)))))"
    if "q \<noteq> None" for s
    using that up assms(2)
    by (auto intro!: returns_bindR returns_tryR returns_basic modCluster_returns split: option.splits sum.splits)
qed (simp add: returns_basic)

lemma adListStage_returns:
  assumes K: "ranges_all K" "echoes K" "retrier (retry_on_conflict K) world_pause"
    and P: "status_prop P"
      "\<And>t c. P c \<Longrightarrow> P (c\<lparr>clStatus := (clStatus c)\<lparr>AdListSynced := True, LastAdListSyncTime := t\<rparr>\<rparr>)"
      "\<And>c. P c \<Longrightarrow> Sync (clSpec c) = Some sy" "\<And>c. synAdLists sy \<Longrightarrow> P c \<Longrightarrow> Config (clSpec c) \<noteq> None"
  shows "returns (reg_with M P) (adListStage K N ctx)"
  unfolding adListStage_def
proof (rule returns_bindR_post [where P = P, OF getCluster_returns])
  show "P c" if "reg_with M P s" "getCluster s = (Ok c, s')" for s c s'
    using that by (auto simp: getCluster_def askR_def reg_with_def)
  show "returns (reg_with M P) (case Sync (clSpec c) of None \<Rightarrow> panic ''nil pointer dereference''
    | Some sy \<Rightarrow> if \<not> synAdLists sy then ret ()
        else (case Config (clSpec c) of None \<Rightarrow> panic ''nil pointer dereference''
         | Some cfg \<Rightarrow> whenR (cfgAdLists cfg \<noteq> []) (bindR (wrap ''sync ad lists'' (syncAdLists K N ctx)) (\<lambda>_.
                stampStatus K N (\<lambda>t st. st\<lparr>AdListSynced := True, LastAdListSyncTime := t\<rparr>)))))"
    if "P c" for c
  proof (cases "synAdLists sy")
    case True
    then have "returns (reg_with M P) (syncAdLists K N ctx)"
      using P(4) by (intro returns_reg_with syncAdLists_returns [OF K(1)]) blast
    moreover note stampStatus_returns [OF K(2) P(1) K(3) P(2)]
    ultimately show ?thesis
      using P(3) [OF that] P(4) [OF True that]
      by (auto intro!: returns_whenR returns_bindR returns_ctxR returns_basic)
  qed (simp add: P(3) [OF that] returns_basic)
qed

lemma performConfigSync_returns:
  assumes K: "ranges_all K" "echoes K" "retrier (retry_on_conflict K) world_pause"
    and P: "status_prop P" "\<And>c n u. P c \<Longrightarrow> P (addPodSynced c n u)"
      "\<And>t c. P c \<Longrightarrow> P (c\<lparr>clStatus := (clStatus c)\<lparr>ConfigSynced := True, LastConfigSyncTime := t\<rparr>\<rparr>)"
      "\<And>t c. P c \<Longrightarrow> P (c\<lparr>clStatus := (clStatus c)\<lparr>AdListSynced := True, LastAdListSyncTime := t\<rparr>\<rparr>)"
      "\<And>c. P c \<Longrightarrow> Sync (clSpec c) = Some sy" "\<And>c. synAdLists sy \<Longrightarrow> P c \<Longrightarrow> Config (clSpec c) \<noteq> None"
  shows "returns (reg_with M P) (performConfigSync K N ctx)"
proof -
  note ads = adListStage_returns [OF K P(1,4-6)]
  have ups: "returns (reg_with M P) (bindR (ctxR f (ReadOnlyAPIClients K)) (\<lambda>ros.
      bindR (forR ros (uploadTo N x podMap d)) (\<lambda>_.
      bindR (stampStatus K N (\<lambda>t st. st\<lparr>ConfigSynced := True, LastConfigSyncTime := t\<rparr>)) (\<lambda>_. adListStage K N ctx))))"
    for f x podMap d
  proof (rule returns_bindR_post [where P = "\<lambda>ros. set ros \<subseteq> pointers M"])
    show "returns (reg_with M P) (ctxR f (ReadOnlyAPIClients K))"
      by (intro returns_ctxR returns_reg_with ReadOnly_returns)
    show "set ros \<subseteq> pointers M" if "reg_with M P s" "ctxR f (ReadOnlyAPIClients K) s = (Ok ros, s')" for s ros s'
      using that ReadOnly_returns(2) [OF K(1), of M "cluster s" s]
      by (auto elim!: ctxR_OkE simp: reg_with_def reg_at_def)
    show "returns (reg_with M P) (bindR (forR ros (uploadTo N x podMap d)) (\<lambda>_.
      bindR (stampStatus K N (\<lambda>t st. st\<lparr>ConfigSynced := True, LastConfigSyncTime := t\<rparr>)) (\<lambda>_. adListStage K N ctx)))"
      if "set ros \<subseteq> pointers M" for ros
      using that by (intro returns_bindR returns_forR uploadTo_returns ads P(2)
          stampStatus_returns [OF K(2) P(1) K(3) P(3)]) auto
  qed
  have download: "returns (reg_with M P) (bindR (ctxR f ReadWriteAPIClient) (\<lambda>rw.
      bindR (wrap msg (on_client rw (DownloadTeleporter N x))) (\<lambda>d.
      bindR (ctxR g (ReadOnlyAPIClients K)) (\<lambda>ros.
      bindR (forR ros (uploadTo N x podMap d)) (\<lambda>_.
      bindR (stampStatus K N (\<lambda>t st. st\<lparr>ConfigSynced := True, LastConfigSyncTime := t\<rparr>)) (\<lambda>_. adListStage K N ctx))))))"
    for f g msg x podMap
  proof (rule returns_bindR_post [where P = "\<lambda>p. p \<in> pointers M"])
    show "returns (reg_with M P) (ctxR f ReadWriteAPIClient)"
      by (intro returns_ctxR returns_reg_with ReadWrite_returns)
    show "p \<in> pointers M" if "reg_with M P s" "ctxR f ReadWriteAPIClient s = (Ok p, s')" for s p s'
      using that ReadWrite_returns(2) [of M "cluster s" s p] by (auto elim!: ctxR_OkE simp: reg_with_def reg_at_def)
    show "returns (reg_with M P) (bindR (wrap msg (on_client p (DownloadTeleporter N x))) (\<lambda>d.
      bindR (ctxR g (ReadOnlyAPIClients K)) (\<lambda>ros.
      bindR (forR ros (uploadTo N x podMap d)) (\<lambda>_.
      bindR (stampStatus K N (\<lambda>t st. st\<lparr>ConfigSynced := True, LastConfigSyncTime := t\<rparr>)) (\<lambda>_. adListStage K N ctx)))))"
      if "p \<in> pointers M" for p
      by (rule returns_bindR [OF returns_ctxR [OF returns_reg_with [OF adlist_calls_return(5) [OF that]]] ups])
  qed
  show ?thesis
    unfolding performConfigSync_def Let_def
    by (intro returns_bindR getCluster_returns returns_ctxR worldless_calls returns_if returns_basic download
        reg_with_worldless)
qed

section \<open>Which pods are recorded\<close>

lemma stampStatus_post:
  assumes "echoes K" "status_prop Q" "retrier (retry_on_conflict K) world_pause"
    and "\<And>t c. P c \<Longrightarrow> Q (c\<lparr>clStatus := f t (clStatus c)\<rparr>)"
    and "reg_with M P s" "stampStatus K N f s = (r, s')"
  shows "reg_with M Q s'"
proof -
  obtain t w where t: "time_now N (world s) = (t, w)" by (meson surj_pair)
  let ?s = "s\<lparr>world := w, cluster := (cluster s)\<lparr>clStatus := f t (clStatus (cluster s))\<rparr>\<rparr>"
  have "reg_with M Q ?s"
    using assms(4,5) by (auto simp: reg_with_def reg_ok_def)
  moreover have "bindR (tryR (UpdateClusterStatusWithRetry K)) (\<lambda>_. ret ()) ?s = (r, s')"
    using assms(6) t by (simp add: stampStatus_def askW_def askR_def bindR_def modStatus_def modCluster_def modS_def)
  ultimately show ?thesis
    by (rule keepsD [OF keeps_bindR [OF keeps_tryR [OF returns_keeps [OF UpdateStatus_echo [OF assms(1-3)]]]
          keeps_basic(1)]])
qed

text \<open>One upload: nothing, or the pod of the client's host is recorded.\<close>

lemma uploadTo_run:
  assumes u: "client_usable q s" and run: "uploadTo N x podMap d q s = (r, s')"
  shows "r = Ok () \<and> stable client_usable client_host s s' \<and>
    (synced_pods (cluster s') = synced_pods (cluster s) \<and>
       (map_of podMap (client_host q s) = None \<or> (\<exists>e t'. on_client q (UploadTeleporter N x d) s = (Err e, t'))) \<or>
     (\<exists>p t'. map_of podMap (client_host q s) = Some p \<and> on_client q (UploadTeleporter N x d) s = (Ok (), t') \<and>
       synced_pods (cluster s') = insert (podName p, podUID p) (synced_pods (cluster s))))"
proof -
  from u obtain a where q: "q = Some a" "\<not> mu (heap s a)" by (auto simp: client_usable_def)
  obtain o1 c w where up: "UploadTeleporter N x d (heap s a, world s) = (o1, (c, w))" by (metis prod.collapse)
  have f: "free (identity (heap s a)) (heap s a, world s)" using q by simp
  have o: "settled o1" and c: "identity c = identity (heap s a)" "\<not> mu c"
    using returnsD [OF operations_return(2) f up] keepsD [OF returns_keeps [OF operations_return(2)] f up] by auto
  let ?t = "s\<lparr>heap := (heap s)(a := c), world := w\<rparr>"
  have oc: "on_client q (UploadTeleporter N x d) s = (o1, ?t)" by (simp add: on_client_def q up)
  have st: "stable client_usable client_host s ?t" using c by (rule identity_stable)
  then have st': "stable client_usable client_host s (?t\<lparr>cluster := cl\<rparr>)" for cl
    by (simp add: stable_def client_usable_def client_host_def)
  show ?thesis
  proof (cases "map_of podMap (client_host q s)")
    case None
    with run q show ?thesis by (auto simp: uploadTo_def bindR_def getS_def client_host_def ret_def)
  next
    case (Some p)
    show ?thesis
      using run q Some o oc st st' [of "addPodSynced (cluster s) (podName p) (podUID p)"]
      by (cases o1) (auto simp: uploadTo_def bindR_def getS_def client_host_def ret_def tryR_def modCluster_def
          modS_def)
  qed
qed

definition recorded :: "(string \<times> Pod) list \<Rightarrow> string set \<Rightarrow> (string \<times> string) set" where
  "recorded podMap U = {(podName p, podUID p) | p u. u \<in> U \<and> map_of podMap u = Some p}"

lemma upload_loop:
  assumes "\<And>q. q \<in> set qs \<Longrightarrow> client_usable q s" "forR qs (uploadTo N x podMap d) s = (r, s')"
  shows "r = Ok () \<and> (\<exists>U. U \<subseteq> (\<lambda>q. client_host q s) ` set qs \<and>
    (\<forall>u \<in> U. \<exists>q \<in> set qs. \<exists>t t'. client_host q t = u \<and> on_client q (UploadTeleporter N x d) t = (Ok (), t')) \<and>
    (\<forall>q \<in> set qs. client_host q s \<notin> U \<longrightarrow> map_of podMap (client_host q s) = None \<or>
       (\<exists>t e t'. on_client q (UploadTeleporter N x d) t = (Err e, t'))) \<and>
    synced_pods (cluster s') = synced_pods (cluster s) \<union> recorded podMap U)"
  using assms
proof (induction qs arbitrary: s)
  case Nil
  then show ?case by (auto simp: ret_def recorded_def)
next
  case (Cons q qs)
  obtain r1 s1 where r1: "uploadTo N x podMap d q s = (r1, s1)" by (meson surj_pair)
  note run = uploadTo_run [OF Cons.prems(1) [of q] r1]
  then have ok: "r1 = Ok ()" and st: "stable client_usable client_host s s1" by auto
  note h = stableD(1) [OF st]
  have r2: "forR qs (uploadTo N x podMap d) s1 = (r, s')"
    using Cons.prems(2) r1 ok by (simp add: bindR_def)
  have u1: "client_usable p s1" if "p \<in> set qs" for p
    using that Cons.prems(1) stableD(2) [OF st] by auto
  from Cons.IH [OF u1 r2] obtain U where r: "r = Ok ()" and U: "U \<subseteq> (\<lambda>q. client_host q s) ` set qs"
    "\<forall>u \<in> U. \<exists>q \<in> set qs. \<exists>t t'. client_host q t = u \<and> on_client q (UploadTeleporter N x d) t = (Ok (), t')"
    "\<forall>q \<in> set qs. client_host q s \<notin> U \<longrightarrow> map_of podMap (client_host q s) = None \<or>
       (\<exists>t e t'. on_client q (UploadTeleporter N x d) t = (Err e, t'))"
    "synced_pods (cluster s') = synced_pods (cluster s1) \<union> recorded podMap U"
    using h by auto
  show ?case
  proof (cases "synced_pods (cluster s1) = synced_pods (cluster s) \<and>
       (map_of podMap (client_host q s) = None \<or> (\<exists>e t'. on_client q (UploadTeleporter N x d) s = (Err e, t')))")
    case True
    with r U show ?thesis by (intro conjI exI [of _ U]) auto
  next
    case False
    with run obtain p t' where p: "map_of podMap (client_host q s) = Some p"
      "on_client q (UploadTeleporter N x d) s = (Ok (), t')"
      "synced_pods (cluster s1) = insert (podName p, podUID p) (synced_pods (cluster s))" by auto
    have "recorded podMap (insert (client_host q s) U) = insert (podName p, podUID p) (recorded podMap U)"
      using p(1) by (auto simp: recorded_def)
    with r U p show ?thesis
      by (intro conjI exI [of _ "insert (client_host q s) U"]) auto
  qed
qed

lemma on_client_stable:
  assumes "client_usable p s" "\<And>k. returns (free k) m" "on_client p m s = (r, s')"
  shows "stable client_usable client_host s s' \<and> same_registry s s'"
proof -
  from assms(1) obtain a where a: "p = Some a" "\<not> mu (heap s a)" by (auto simp: client_usable_def)
  obtain q c w where q: "m (heap s a, world s) = (q, (c, w))" by (metis prod.collapse)
  have f: "free (identity (heap s a)) (heap s a, world s)" using a by simp
  from keepsD [OF returns_keeps [OF assms(2)] f q] have "identity c = identity (heap s a)" "\<not> mu c" by auto
  moreover have "s' = s\<lparr>heap := (heap s)(a := c), world := w\<rparr>" using assms(3) a q by (simp add: on_client_def)
  ultimately show ?thesis by (auto intro: identity_stable simp: same_registry_def)
qed

lemma replica_handles:
  assumes "stable client_usable client_host s t" "reg_ok s"
    and "set ros = {enClient e | n e. map_of (ApiClients s) n = Some e \<and> HasPrefix n (currentClusterName s @ ''-ro-'')}"
  shows "(\<lambda>q. client_host q t) ` set ros = replica_hosts s" "q \<in> set ros \<Longrightarrow> client_usable q t"
proof -
  show "(\<lambda>q. client_host q t) ` set ros = replica_hosts s"
    using stableD(1) [OF assms(1)] unfolding assms(3) replica_hosts_def pod_host_def by force
  show "q \<in> set ros \<Longrightarrow> client_usable q t"
    using stableD(2) [OF assms(1)] reg_ok_usable [OF assms(2)] unfolding assms(3) by blast
qed

text \<open>Not needed, or the whole sequence.\<close>

definition list_replicas :: "'w kube \<Rightarrow> 'w rs \<Rightarrow> (gerror + Pod list) \<times> 'w" where
  "list_replicas K s = k_list_pods K (clNamespace (cluster s)) (role_labels (cluster s) ''readonly'') (world s)"

lemma performConfigSync_run:
  assumes "list_replicas K s = (Inr pods, w)"
  shows "performConfigSync K N ctx s =
    (if podsNeedingSync (cluster s) (pod_map pods) = [] then (Ok (), s\<lparr>world := w\<rparr>)
     else bindR (ctxR (\<lambda>_. Errorf ''read-write client unavailable'' []) ReadWriteAPIClient) (\<lambda>rwClient.
     let ctxSync = WithTimeout ctx (30 * second) in
     bindR (wrap ''download teleporter'' (on_client rwClient (DownloadTeleporter N ctxSync))) (\<lambda>data.
     bindR (ctxR (\<lambda>_. Errorf ''read-only clients unavailable'' []) (ReadOnlyAPIClients K)) (\<lambda>roClients.
     bindR (forR roClients (uploadTo N ctxSync (pod_map pods) data)) (\<lambda>_.
     bindR (stampStatus K N (\<lambda>t st. st\<lparr>ConfigSynced := True, LastConfigSyncTime := t\<rparr>)) (\<lambda>_.
     adListStage K N ctx))))) (s\<lparr>world := w\<rparr>))"
  using assms
  by (simp add: performConfigSync_def list_replicas_def getCluster_def askR_def bindR_def ctxR_def callW_def
      callR_def Let_def ret_def)

lemma ReadWrite_state:
  assumes "reg_ok s" "ReadWriteAPIClient s = (Ok p, s')"
  shows "s' = s \<and> p \<in> pointers (ApiClients s) \<and> client_usable p s"
proof -
  have "p \<in> pointers (ApiClients s)"
    using ReadWrite_returns(2) [of "ApiClients s" "cluster s" s p s'] assms by (simp add: reg_at_def)
  moreover have "client_usable p s"
    using calculation reg_ok_usable [OF assms(1)] by (auto simp: pointers_def)
  moreover have "s' = s"
    using assms(2) by (auto simp: ReadWriteAPIClient_def getS_def bindR_def Let_def ret_def fail_def split: option.splits)
  ultimately show ?thesis by blast
qed

text \<open>The run up to the ad-list stage.\<close>

lemma performConfigSync_mid:
  assumes K: "ranges_all K" "echoes K" "retrier (retry_on_conflict K) world_pause" and ok: "reg_ok s"
    and pods: "list_replicas K s = (Inr pods, w)" and need: "podsNeedingSync (cluster s) (pod_map pods) \<noteq> []"
    and run: "performConfigSync K N ctx s = (Ok (), s')"
  shows "\<exists>d U s5. U \<subseteq> replica_hosts s \<and>
    (\<forall>u \<in> U. \<exists>q t t'. client_host q t = u \<and>
       on_client q (UploadTeleporter N (WithTimeout ctx (30 * second)) d) t = (Ok (), t')) \<and>
    (\<forall>u \<in> replica_hosts s - U. map_of (pod_map pods) u = None \<or>
       (\<exists>q t e t'. on_client q (UploadTeleporter N (WithTimeout ctx (30 * second)) d) t = (Err e, t'))) \<and>
    reg_with (ApiClients s) (\<lambda>c. Sync (clSpec c) = Sync (clSpec (cluster s)) \<and> Config (clSpec c) = Config (clSpec (cluster s)) \<and>
      synced_pods c = synced_pods (cluster s) \<union> recorded (pod_map pods) U \<and> ConfigSynced (clStatus c)) s5 \<and>
    adListStage K N ctx s5 = (Ok (), s')"
proof -
  let ?x = "WithTimeout ctx (30 * second)" and ?s = "s\<lparr>world := w\<rparr>" and ?M = "ApiClients s"
  from run need obtain p d ros s1 s2 s3 s4 s5 where rw: "ReadWriteAPIClient ?s = (Ok p, s1)"
    and dl: "on_client p (DownloadTeleporter N ?x) s1 = (Ok d, s2)" and ro: "ReadOnlyAPIClients K s2 = (Ok ros, s3)"
    and up: "forR ros (uploadTo N ?x (pod_map pods) d) s3 = (Ok (), s4)"
    and stp: "stampStatus K N (\<lambda>t st. st\<lparr>ConfigSynced := True, LastConfigSyncTime := t\<rparr>) s4 = (Ok (), s5)"
    and ad: "adListStage K N ctx s5 = (Ok (), s')"
    unfolding performConfigSync_run [OF pods] Let_def by (auto elim!: bindR_OkE ctxR_OkE)
  have ok0: "reg_ok ?s" using ok by (rule reg_ok_world)
  from ReadWrite_state [OF ok0 rw] have s1: "s1 = ?s" and p: "p \<in> pointers ?M" "client_usable p ?s" by simp_all
  note dl = dl [unfolded s1]
  let ?P = "\<lambda>c. Sync (clSpec c) = Sync (clSpec (cluster s)) \<and> Config (clSpec c) = Config (clSpec (cluster s))"
  have "reg_with ?M ?P ?s" using ok0 by (simp add: reg_with_def)
  then have w2: "reg_with ?M ?P s2"
    by (rule keepsD [OF returns_keeps [OF returns_reg_with [OF adlist_calls_return(5) [OF p(1)]]] _ dl])
  then have w3: "reg_with ?M ?P s3"
    by (rule keepsD [OF returns_keeps [OF returns_reg_with [OF ReadOnly_returns(1)]] _ ro])
  have ptr: "set ros \<subseteq> pointers ?M"
    using ReadOnly_returns(2) [OF K(1) _ ro, of ?M "cluster s2"] w2 by (simp add: reg_with_def reg_at_def)
  have "returns (reg_with ?M ?P) (forR ros (uploadTo N ?x (pod_map pods) d))"
    by (rule returns_forR, rule uploadTo_returns) (use ptr in \<open>auto simp: addPodSynced_def\<close>)
  from keepsD [OF returns_keeps [OF this] w3 up] have w4: "reg_with ?M ?P s4" .
  from on_client_stable [OF p(2) operations_return(1) dl]
  have st2: "stable client_usable client_host s s2" and reg2: "same_registry s s2"
    by (simp_all add: stable_def client_usable_def client_host_def same_registry_def)
  from ReadOnly_set [OF K(1) ro] reg2 obtain w3' where s3: "s3 = s2\<lparr>world := w3'\<rparr>" and
    ros: "set ros = {enClient e | n e. map_of (ApiClients s) n = Some e \<and> HasPrefix n (currentClusterName s @ ''-ro-'')}"
    by (auto simp: same_registry_def)
  have st3: "stable client_usable client_host s s3"
    using st2 s3 by (simp add: stable_def client_usable_def client_host_def)
  note handles = replica_handles [OF st3 ok ros]
  have c3: "cluster s3 = cluster s" using reg2 s3 by (simp add: same_registry_def)
  note loop = upload_loop [OF handles(2) up, unfolded handles(1) c3, THEN conjunct2]
  obtain U where "U \<subseteq> replica_hosts s \<and>
    (\<forall>u \<in> U. \<exists>q \<in> set ros. \<exists>t t'. client_host q t = u \<and> on_client q (UploadTeleporter N ?x d) t = (Ok (), t')) \<and>
    (\<forall>q \<in> set ros. client_host q s3 \<notin> U \<longrightarrow> map_of (pod_map pods) (client_host q s3) = None \<or>
       (\<exists>t e t'. on_client q (UploadTeleporter N ?x d) t = (Err e, t'))) \<and>
    synced_pods (cluster s4) = synced_pods (cluster s) \<union> recorded (pod_map pods) U"
    using loop by (rule exE)
  then have U: "U \<subseteq> replica_hosts s"
    "\<forall>u \<in> U. \<exists>q \<in> set ros. \<exists>t t'. client_host q t = u \<and> on_client q (UploadTeleporter N ?x d) t = (Ok (), t')"
    "\<forall>q \<in> set ros. client_host q s3 \<notin> U \<longrightarrow> map_of (pod_map pods) (client_host q s3) = None \<or>
       (\<exists>t e t'. on_client q (UploadTeleporter N ?x d) t = (Err e, t'))"
    "synced_pods (cluster s4) = synced_pods (cluster s) \<union> recorded (pod_map pods) U" by simp_all
  let ?Q = "\<lambda>c. ?P c \<and> synced_pods c = synced_pods (cluster s4) \<and> ConfigSynced (clStatus c)"
  have Q: "status_prop ?Q" by (auto simp: status_prop_def synced_pods_def)
  have s5: "reg_with ?M ?Q s5"
    by (rule stampStatus_post [OF K(2) Q K(3) _ _ stp, where P = "\<lambda>c. ?P c \<and> synced_pods c = synced_pods (cluster s4)"])
       (use w4 in \<open>auto simp: reg_with_def synced_pods_def\<close>)
  have Qeq: "reg_with ?M (\<lambda>c. Sync (clSpec c) = Sync (clSpec (cluster s)) \<and> Config (clSpec c) = Config (clSpec (cluster s)) \<and>
      synced_pods c = synced_pods (cluster s) \<union> recorded (pod_map pods) U \<and> ConfigSynced (clStatus c)) s5"
    using s5 U(4) by (simp add: reg_with_def)
  moreover have "map_of (pod_map pods) u = None \<or>
       (\<exists>q t e t'. on_client q (UploadTeleporter N ?x d) t = (Err e, t'))" if "u \<in> replica_hosts s - U" for u
  proof -
    from that obtain q where q: "q \<in> set ros" "u = client_host q s3" unfolding handles(1) [symmetric] by blast
    with that have "client_host q s3 \<notin> U" by simp
    from U(3) [rule_format, OF q(1) this] q(2) show ?thesis by metis
  qed
  moreover have "\<exists>q t t'. client_host q t = u \<and> on_client q (UploadTeleporter N ?x d) t = (Ok (), t')" if "u \<in> U" for u
    using U(2) that by blast
  ultimately show ?thesis using U(1) Qeq ad
    by (intro exI [of _ d] exI [of _ U] exI [of _ s5] conjI ballI) simp_all
qed

lemma performConfigSync_Ok:
  assumes K: "ranges_all K" "echoes K" "retrier (retry_on_conflict K) world_pause" and ok: "reg_ok s"
    and sy: "Sync (clSpec (cluster s)) = Some sy" "synAdLists sy \<longrightarrow> Config (clSpec (cluster s)) \<noteq> None"
    and pods: "list_replicas K s = (Inr pods, w)" and need: "podsNeedingSync (cluster s) (pod_map pods) \<noteq> []"
    and run: "performConfigSync K N ctx s = (Ok (), s')"
  shows "\<exists>d U. U \<subseteq> replica_hosts s \<and>
    (\<forall>u \<in> U. \<exists>q t t'. client_host q t = u \<and>
       on_client q (UploadTeleporter N (WithTimeout ctx (30 * second)) d) t = (Ok (), t')) \<and>
    (\<forall>u \<in> replica_hosts s - U. map_of (pod_map pods) u = None \<or>
       (\<exists>q t e t'. on_client q (UploadTeleporter N (WithTimeout ctx (30 * second)) d) t = (Err e, t'))) \<and>
    synced_pods (cluster s') = synced_pods (cluster s) \<union> recorded (pod_map pods) U \<and>
    ConfigSynced (clStatus (cluster s'))"
proof -
  from performConfigSync_mid [OF K ok pods need run] obtain d U s5 where U: "U \<subseteq> replica_hosts s"
    "\<forall>u \<in> U. \<exists>q t t'. client_host q t = u \<and>
       on_client q (UploadTeleporter N (WithTimeout ctx (30 * second)) d) t = (Ok (), t')"
    "\<forall>u \<in> replica_hosts s - U. map_of (pod_map pods) u = None \<or>
       (\<exists>q t e t'. on_client q (UploadTeleporter N (WithTimeout ctx (30 * second)) d) t = (Err e, t'))"
    and s5: "reg_with (ApiClients s) (\<lambda>c. Sync (clSpec c) = Sync (clSpec (cluster s)) \<and>
      Config (clSpec c) = Config (clSpec (cluster s)) \<and>
      synced_pods c = synced_pods (cluster s) \<union> recorded (pod_map pods) U \<and> ConfigSynced (clStatus c)) s5"
      (is "reg_with ?M ?Q s5")
    and ad: "adListStage K N ctx s5 = (Ok (), s')" by (elim exE conjE) (rule that)
  have Q: "status_prop ?Q" by (auto simp: status_prop_def synced_pods_def)
  have "returns (reg_with ?M ?Q) (adListStage K N ctx)"
    by (rule adListStage_returns [OF K Q, where sy = sy]) (use sy in \<open>auto simp: synced_pods_def\<close>)
  from keepsD [OF returns_keeps [OF this] s5 ad] have "reg_with ?M ?Q s'" .
  then have "synced_pods (cluster s') = synced_pods (cluster s) \<union> recorded (pod_map pods) U"
    "ConfigSynced (clStatus (cluster s'))" by (simp_all add: reg_with_def)
  with U show ?thesis by (intro exI [of _ d] exI [of _ U] conjI) simp_all
qed

lemma performConfigSync_registry:
  assumes "ranges_all K" "echoes K" "retrier (retry_on_conflict K) world_pause" "reg_ok s"
    and "Sync (clSpec (cluster s)) = Some sy" "synAdLists sy \<longrightarrow> Config (clSpec (cluster s)) \<noteq> None"
    and "performConfigSync K N ctx s = (r, s')"
  shows "settled r \<and> reg_ok s' \<and> ApiClients s' = ApiClients s \<and>
    synced_pods (cluster s) \<subseteq> synced_pods (cluster s') \<and> (tracker_ok (cluster s) \<longrightarrow> tracker_ok (cluster s'))"
proof -
  let ?P = "\<lambda>c. Sync (clSpec c) = Some sy \<and> Config (clSpec c) = Config (clSpec (cluster s)) \<and>
    synced_pods (cluster s) \<subseteq> synced_pods c \<and> (tracker_ok (cluster s) \<longrightarrow> tracker_ok c)"
  have P: "status_prop ?P" by (auto simp: status_prop_def synced_pods_def tracker_ok_def)
  have spec: "clSpec (addPodSynced c n u) = clSpec c" for c n u by (simp add: addPodSynced_def)
  have ret: "returns (reg_with (ApiClients s) ?P) (performConfigSync K N ctx)"
    by (rule performConfigSync_returns [OF assms(1-3) P, where sy = sy])
       (use assms(6) in \<open>auto simp: spec stamped_flags intro: addPodSynced_ok\<close>)
  have I: "reg_with (ApiClients s) ?P s" using assms(4,5) by (simp add: reg_with_def)
  show ?thesis
    using returnsD [OF ret I assms(7)] keepsD [OF returns_keeps [OF ret] I assms(7)] by (simp add: reg_with_def)
qed

section \<open>Properties\<close>

text \<open>With a server that echoes status updates, the configuration sync always comes back with success
  or an error, never a panic, provided the resource has its \<open>sync\<close> block and, when ad-lists are
  enabled, its \<open>config\<close> block. It leaves the registry well formed and its entries as they are, forgets
  no recorded pod and records none twice.\<close>

theorem config_sync_returns:
  assumes "ranges_all K" "echoes K" "retrier (retry_on_conflict K) world_pause" "reg_ok s"
    and "Sync (clSpec (cluster s)) = Some sy" "synAdLists sy \<longrightarrow> Config (clSpec (cluster s)) \<noteq> None"
    and "performConfigSync K N ctx s = (r, s')"
  shows "settled r \<and> reg_ok s' \<and> ApiClients s' = ApiClients s \<and>
    synced_pods (cluster s) \<subseteq> synced_pods (cluster s') \<and> (tracker_ok (cluster s) \<longrightarrow> tracker_ok (cluster s'))"
  by (rule performConfigSync_registry [OF assms])


text \<open>The flag says nothing about the uploads: when every upload fails, a sync that goes through
  still sets \<open>configSynced\<close>, and records no pod.\<close>

theorem config_synced_without_any_upload:
  assumes "ranges_all K" "echoes K" "retrier (retry_on_conflict K) world_pause" "reg_ok s"
    and "Sync (clSpec (cluster s)) = Some sy" "synAdLists sy \<longrightarrow> Config (clSpec (cluster s)) \<noteq> None"
    and "list_replicas K s = (Inr pods, w)" "podsNeedingSync (cluster s) (pod_map pods) \<noteq> []"
    and "performConfigSync K N ctx s = (Ok (), s')"
    and "\<And>q x d t t'. on_client q (UploadTeleporter N x d) t \<noteq> (Ok (), t')"
  shows "ConfigSynced (clStatus (cluster s')) \<and> synced_pods (cluster s') = synced_pods (cluster s)"
proof -
  from performConfigSync_Ok [OF assms(1-9)] obtain d U where
    "\<forall>u \<in> U. \<exists>q t t'. client_host q t = u \<and>
       on_client q (UploadTeleporter N (WithTimeout ctx (30 * second)) d) t = (Ok (), t')"
    "synced_pods (cluster s') = synced_pods (cluster s) \<union> recorded (pod_map pods) U"
    "ConfigSynced (clStatus (cluster s'))" by blast
  moreover from this(1) assms(10) have "U = {}" by blast
  ultimately show ?thesis by (simp add: recorded_def)
qed

lemma pod_map_entries: "map_of (pod_map pods) u = Some p \<Longrightarrow> p \<in> set pods \<and> u = base_url (podIP p)"
proof -
  have "map_of (fold (\<lambda>p m. mput (base_url (podIP p)) p m) pods m) u = Some p \<Longrightarrow>
      (p \<in> set pods \<and> u = base_url (podIP p)) \<or> map_of m u = Some p" for m
    by (induction pods arbitrary: m) (fastforce split: if_splits)+
  from this [of "[]"] show "map_of (pod_map pods) u = Some p \<Longrightarrow> ?thesis" by (simp add: pod_map_def)
qed

lemma distinct_pod_map: "distinct (mkeys (pod_map pods))"
proof -
  have "distinct (mkeys (fold (\<lambda>p m. mput (base_url (podIP p)) p m) pods m)) = distinct (mkeys m)" for m
    by (induction pods arbitrary: m) simp_all
  then show ?thesis by (simp add: pod_map_def)
qed

text \<open>Once every listed read-only pod is recorded, the sync asks for the pods and ends: no request to
  any Pi-hole, and nothing of the reconciler changes. Ad-lists the resource gained or lost since, and an
  ad-list sync that failed after the uploads, are not looked at again.\<close>

theorem config_sync_skips_when_all_recorded:
  assumes "list_replicas K s = (Inr pods, w)"
    and "\<forall>p \<in> set pods. isPodSynced (cluster s) (podName p) (podUID p)"
  shows "performConfigSync K N ctx s = (Ok (), s\<lparr>world := w\<rparr>)"
proof -
  have "isPodSynced (cluster s) (podName p) (podUID p)" if "(u, p) \<in> set (pod_map pods)" for u p
    using pod_map_entries [of pods u p] map_of_is_SomeI [OF distinct_pod_map that] assms(2) by blast
  then have "podsNeedingSync (cluster s) (pod_map pods) = []"
    by (auto simp: podsNeedingSync_def filter_empty_conv)
  then show ?thesis by (simp add: performConfigSync_run [OF assms(1)])
qed

text \<open>A cluster submitted without \<open>sync\<close> and without \<open>config\<close> passes the mutating webhook with
  ad-list syncing switched on and still without \<open>config\<close>. From then on no configuration sync that has
  something to do succeeds: after the uploads the code reads the ad-lists through the nil pointer.\<close>

theorem defaulted_cluster_without_config_never_syncs:
  assumes "Default (ClusterObj c) = Ok (ClusterObj c')" "Sync (clSpec c) = None" "Config (clSpec c) = None"
    and "clSpec (cluster s) = clSpec c'"
    and "ranges_all K" "echoes K" "retrier (retry_on_conflict K) world_pause" "reg_ok s"
    and "list_replicas K s = (Inr pods, w)" "podsNeedingSync (cluster s) (pod_map pods) \<noteq> []"
  shows "performConfigSync K N ctx s \<noteq> (Ok (), s')"
proof
  assume run: "performConfigSync K N ctx s = (Ok (), s')"
  have c: "Sync (clSpec (cluster s)) = Some \<lparr>synConfig = True, synAdLists = True\<rparr>" "Config (clSpec (cluster s)) = None"
    using assms(1-4) by (auto simp: Default_def default_defs split: option.splits)
  from performConfigSync_mid [OF assms(5-10) run] obtain s5 where
    "Sync (clSpec (cluster s5)) = Sync (clSpec (cluster s))" "Config (clSpec (cluster s5)) = Config (clSpec (cluster s))"
    "adListStage K N ctx s5 = (Ok (), s')" by (auto simp: reg_with_def)
  then show False
    by (simp add: c adListStage_def getCluster_def askR_def bindR_def panic_def)
qed


section \<open>Concrete runs\<close>

definition cfg_cluster :: PiHoleCluster where
  "cfg_cluster = demo_cluster\<lparr>clSpec := (clSpec demo_cluster)\<lparr>Sync := Some \<lparr>synConfig = True, synAdLists = True\<rparr>\<rparr>\<rparr>"

definition cfg_state :: "PiHoleCluster \<Rightarrow> farm rs" where
  "cfg_state cl = demo_state\<lparr>cluster := cl\<rparr>"

abbreviation cfg_kube :: "farm kube" where
  "cfg_kube \<equiv> static_kube [pod_at ''pi-ro-0'' ''10.0.0.2''] [] cfg_cluster"

lemma cfg_kube_laws: "ranges_all cfg_kube" "echoes cfg_kube" "retrier (retry_on_conflict cfg_kube) world_pause"
  by (rule static_kube_laws) (simp_all add: echoes_def static_kube_def conflict.retrier_axioms)

lemma cfg_state_facts: "reg_ok (cfg_state cl)" "cluster (cfg_state cl) = cl"
  "list_replicas cfg_kube (cfg_state cl) = (Inr [pod_at ''pi-ro-0'' ''10.0.0.2''], world demo_state)"
  using demo_reg_ok by (auto simp: cfg_state_def reg_ok_def list_replicas_def)

lemma cfg_cluster_facts: "Sync (clSpec cfg_cluster) = Some \<lparr>synConfig = True, synAdLists = True\<rparr>"
  "Config (clSpec cfg_cluster) \<noteq> None" "SyncedPods (clStatus cfg_cluster) = []"
  by (simp_all add: cfg_cluster_def demo_cluster_def sample_cluster_def zero_cluster_def zero_status_def)

lemma cfg_needs: "SyncedPods (clStatus cl) = [] \<Longrightarrow> podsNeedingSync cl (pod_map [p]) \<noteq> []"
  by (simp add: podsNeedingSync_def pod_map_def isPodSynced_def)

lemma cfg_run: "fst (performConfigSync cfg_kube farm_net Background (cfg_state cfg_cluster)) = Ok ()"
  by code_simp

theorem config_sync_returns_witness:
  "settled (fst (performConfigSync cfg_kube farm_net Background (cfg_state cfg_cluster)))"
proof -
  obtain r s' where run: "performConfigSync cfg_kube farm_net Background (cfg_state cfg_cluster) = (r, s')"
    by (meson surj_pair)
  have sy: "Sync (clSpec (cluster (cfg_state cfg_cluster))) = Some \<lparr>synConfig = True, synAdLists = True\<rparr>"
    and cf: "synAdLists \<lparr>synConfig = True, synAdLists = True\<rparr> \<longrightarrow> Config (clSpec (cluster (cfg_state cfg_cluster))) \<noteq> None"
    by (simp_all add: cfg_state_facts cfg_cluster_facts)
  from config_sync_returns [OF cfg_kube_laws cfg_state_facts(1) sy cf run] run show ?thesis by simp
qed


text \<open>A farm on which every upload of an archive fails.\<close>

definition no_upload_net :: "farm net" where
  "no_upload_net = farm_net\<lparr>http_do := (\<lambda>t k r w. case rqBody r of
     FormFile b f n d \<Rightarrow> (Inl (External ''refused''), w) | _ \<Rightarrow> http_do farm_net t k r w)\<rparr>"

lemma no_upload: "on_client q (UploadTeleporter no_upload_net x d) t \<noteq> (Ok (), t')"
proof
  assume "on_client q (UploadTeleporter no_upload_net x d) t = (Ok (), t')"
  then obtain c c' where "UploadTeleporter no_upload_net x d c = (Ok (), c')"
    by (cases q) (auto simp: on_client_def panic_def split: prod.splits)
  then obtain u ct b c1 where
    run: "retryWithBackoff (sel no_upload_net x) pihole_backoff
       (doUpload no_upload_net x u ct (FormFile b ''file'' ''teleporter.zip'' d)) c1 = (Ok (), c')"
    unfolding UploadTeleporter_def Let_def by (auto elim!: prog_elims)
  have "\<exists>t. True \<and> doUpload no_upload_net x u ct (FormFile b ''file'' ''teleporter.zip'' d) t = (Ok (), c')"
    by (rule backoff.run_outcome [OF _ _ _ run]) (simp_all add: kept_by_def)
  then show False
    unfolding doUpload_def client_def newRequest_def Do_def no_upload_net_def setHeader_def
    by (auto elim!: prog_elims split: option.splits prod.splits if_splits)
qed

lemma no_upload_run: "fst (performConfigSync cfg_kube no_upload_net Background (cfg_state cfg_cluster)) = Ok ()"
  by code_simp

theorem config_synced_without_any_upload_witness:
  "ConfigSynced (clStatus (cluster (snd (performConfigSync cfg_kube no_upload_net Background (cfg_state cfg_cluster)))))"
proof -
  obtain s' where run: "performConfigSync cfg_kube no_upload_net Background (cfg_state cfg_cluster) = (Ok (), s')"
    using no_upload_run by (metis prod.collapse)
  have sy: "Sync (clSpec (cluster (cfg_state cfg_cluster))) = Some \<lparr>synConfig = True, synAdLists = True\<rparr>"
    and cf: "synAdLists \<lparr>synConfig = True, synAdLists = True\<rparr> \<longrightarrow> Config (clSpec (cluster (cfg_state cfg_cluster))) \<noteq> None"
    and need: "podsNeedingSync (cluster (cfg_state cfg_cluster)) (pod_map [pod_at ''pi-ro-0'' ''10.0.0.2'']) \<noteq> []"
    by (simp_all add: cfg_state_facts cfg_cluster_facts cfg_needs)
  from config_synced_without_any_upload
    [OF cfg_kube_laws cfg_state_facts(1) sy cf cfg_state_facts(3) need run no_upload] run show ?thesis by simp
qed

theorem config_sync_skips_when_all_recorded_witness:
  "performConfigSync cfg_kube farm_net Background (cfg_state (addPodSynced cfg_cluster ''pi-ro-0'' ''uid-pi-ro-0'')) =
     (Ok (), cfg_state (addPodSynced cfg_cluster ''pi-ro-0'' ''uid-pi-ro-0''))"
proof -
  have "\<forall>p \<in> set [pod_at ''pi-ro-0'' ''10.0.0.2''].
      isPodSynced (cluster (cfg_state (addPodSynced cfg_cluster ''pi-ro-0'' ''uid-pi-ro-0''))) (podName p) (podUID p)"
    by (simp add: cfg_state_facts isPodSynced_iff pod_at_def)
  from config_sync_skips_when_all_recorded [OF cfg_state_facts(3) this] show ?thesis
    by (simp add: cfg_state_def)
qed

theorem defaulted_cluster_without_config_never_syncs_witness:
  "performConfigSync cfg_kube farm_net Background
     (cfg_state (zero_cluster\<lparr>clSpec := default_rov (default_sync (default_monitoring (default_ingress zero_spec)))\<rparr>))
     \<noteq> (Ok (), demo_state)" (is "performConfigSync _ _ _ (cfg_state ?c) \<noteq> _")
proof -
  have d: "Default (ClusterObj zero_cluster) = Ok (ClusterObj ?c)" "Sync (clSpec zero_cluster) = None"
    "Config (clSpec zero_cluster) = None" "clSpec (cluster (cfg_state ?c)) = clSpec ?c"
    by (simp_all add: Default_def zero_cluster_def zero_spec_def cfg_state_facts)
  have need: "podsNeedingSync (cluster (cfg_state ?c)) (pod_map [pod_at ''pi-ro-0'' ''10.0.0.2'']) \<noteq> []"
    by (simp add: cfg_state_facts cfg_needs zero_cluster_def zero_status_def)
  show ?thesis
    by (rule defaulted_cluster_without_config_never_syncs
        [OF d cfg_kube_laws cfg_state_facts(1) cfg_state_facts(3) need])
qed


end
