(* ===== verification/Status.thy ===== *)
theory Status
  imports Ensure ConfigSync
begin

text \<open>
  \<open>internal/controller/piholecluster/status.go\<close> and the constants of \<open>types.go\<close>: the check of the
  created resources and the status that is written from it.
\<close>

section \<open>The code\<close>

definition typePiHoleClusterReady :: string where
  "typePiHoleClusterReady = ''Available''"

definition typePiHoleClusterNotReady :: string where
  "typePiHoleClusterNotReady = ''Unavailable''"

definition finalizer :: string where
  "finalizer = ''piholecluster.supporterino.de/finalizer''"

text \<open>Every error of \<open>Get\<close> is replaced by a not-found error for the name.\<close>

definition mustExist :: "'w kube \<Rightarrow> kind \<Rightarrow> string \<Rightarrow> ('w rs, kobj) prog" where
  "mustExist K kd name =
     bindR getCluster (\<lambda>cl.
     ctxR (\<lambda>_. ApiStatus NotFound name) (callW (k_get K kd (clNamespace cl) name)))"

definition readOnlyReady :: "'w kube \<Rightarrow> PiHoleCluster \<Rightarrow> ('w rs, bool) prog" where
  "readOnlyReady K cl =
     (if Sync (clSpec cl) \<noteq> None \<and> 0 < sint (Replicas (clSpec cl))
      then bindR (mustExist K StatefulSetKind (clName cl @ ''-ro'')) (\<lambda>x.
           bindR (asStatefulSet x) (\<lambda>roSTS. ret (stsReadyReplicas roSTS = Replicas (clSpec cl))))
      else ret True)"

definition existsWhen :: "'w kube \<Rightarrow> bool \<Rightarrow> kind \<Rightarrow> string \<Rightarrow> ('w rs, unit) prog" where
  "existsWhen K b kd name = whenR b (bindR (mustExist K kd name) (\<lambda>_. ret ()))"

definition ingressEnabled :: "PiHoleCluster \<Rightarrow> bool" where
  "ingressEnabled cl = (case Ingress (clSpec cl) of None \<Rightarrow> False | Some ing \<Rightarrow> ingEnabled ing)"

definition resourcesReady :: "'w kube \<Rightarrow> ('w rs, bool) prog" where
  "resourcesReady K =
     bindR getCluster (\<lambda>cl.
     bindR (mustExist K StatefulSetKind (clName cl @ ''-rw'')) (\<lambda>x.
     bindR (asStatefulSet x) (\<lambda>rwSTS.
     if stsReadyReplicas rwSTS \<noteq> 1 then ret False
     else
     bindR (readOnlyReady K cl) (\<lambda>ro.
     if \<not> ro then ret False
     else
     bindR (mustExist K PVCKind (clName cl @ ''-data'')) (\<lambda>y.
     bindR (asPVC y) (\<lambda>pvc.
     if pvcPhase pvc \<noteq> ''Bound'' then ret False
     else
     bindR (existsWhen K True ServiceKind (clName cl @ ''-dns'')) (\<lambda>_.
     bindR (existsWhen K (ingressEnabled cl) IngressKind (clName cl)) (\<lambda>_.
     bindR (existsWhen K (podMonitorEnabled cl) PodMonitorKind (clName cl)) (\<lambda>_.
     ret True)))))))))"

definition setStatusCondition :: "'w kube \<Rightarrow> Condition \<Rightarrow> ('w rs, unit) prog" where
  "setStatusCondition K c =
     bindR getCluster (\<lambda>cl.
     bindR (askW (set_status_condition K c (Conditions (clStatus cl)))) (\<lambda>cs.
     modStatus (\<lambda>st. st\<lparr>Conditions := cs\<rparr>)))"

definition condition :: "string \<Rightarrow> string \<Rightarrow> string \<Rightarrow> string \<Rightarrow> Condition" where
  "condition ty st reason msg = \<lparr>cndType = ty, cndStatus = st, cndReason = reason, cndMessage = msg, cndTransition = 0\<rparr>"

definition updateStatus :: "'w kube \<Rightarrow> bool \<Rightarrow> string \<Rightarrow> ('w rs, unit) prog" where
  "updateStatus K ready errMsg =
     bindR (modStatus (\<lambda>st. st\<lparr>ResourcesReady := ready, LastError := errMsg\<rparr>)) (\<lambda>_.
     bindR (setStatusCondition K (condition typePiHoleClusterReady ''True'' ''ResourcesReady''
        (''All resources are healthy. Ready='' @ (if ready then ''true'' else ''false'')))) (\<lambda>_.
     bindR (whenR (\<not> ready)
        (setStatusCondition K (condition typePiHoleClusterNotReady ''False'' ''MissingResources'' errMsg))) (\<lambda>_.
     wrap ''status update failed'' (UpdateClusterStatusWithRetry K))))"

section \<open>The check\<close>

context api_server
begin

lemma mustExist_run:
  assumes "mustExist K kd n s = (r, s')"
  shows "\<exists>w. s' = s\<lparr>world := w\<rparr> \<and> objs w = objs (world s) \<and>
    (r = Err (ApiStatus NotFound n) \<and> (\<exists>e. fst (k_get K kd (clNamespace (cluster s)) n (world s)) = Inl e) \<or>
     (\<exists>x. r = Ok x \<and> objs (world s) (kd, clNamespace (cluster s), n) = Some x))"
proof -
  obtain got w where g: "k_get K kd (clNamespace (cluster s)) n (world s) = (got, w)" by (meson surj_pair)
  with assms get_found [of kd "clNamespace (cluster s)" n "world s" _ w] get_failed [of kd "clNamespace (cluster s)" n "world s" _ w]
  show ?thesis
    by (cases got) (auto simp: mustExist_def getCluster_def askR_def bindR_def ctxR_def callW_def callR_def)
qed

end

text \<open>What the check looks for.\<close>

definition replicas_up :: "PiHoleCluster \<Rightarrow> (okey \<rightharpoonup> kobj) \<Rightarrow> bool" where
  "replicas_up cl f \<longleftrightarrow> (Sync (clSpec cl) \<noteq> None \<and> 0 < sint (Replicas (clSpec cl)) \<longrightarrow>
     (\<exists>ro. f (sts_key cl ''-ro'') = Some (OStatefulSet ro) \<and> stsReadyReplicas ro = Replicas (clSpec cl)))"

definition all_up :: "PiHoleCluster \<Rightarrow> (okey \<rightharpoonup> kobj) \<Rightarrow> bool" where
  "all_up cl f \<longleftrightarrow>
     (\<exists>rw. f (sts_key cl ''-rw'') = Some (OStatefulSet rw) \<and> stsReadyReplicas rw = 1) \<and> replicas_up cl f \<and>
     (\<exists>p. f (claim_key cl) = Some (OPVC p) \<and> pvcPhase p = ''Bound'') \<and> f (service_key cl) \<noteq> None \<and>
     (ingressEnabled cl \<longrightarrow> f (ingress_key cl) \<noteq> None) \<and> (podMonitorEnabled cl \<longrightarrow> f (monitor_key cl) \<noteq> None)"

text \<open>A server whose \<open>Get\<close> finds what it holds.\<close>

definition reliable :: "'w kube \<Rightarrow> ('w \<Rightarrow> (okey \<rightharpoonup> kobj)) \<Rightarrow> bool" where
  "reliable K objs \<longleftrightarrow> (\<forall>kd ns n w e. fst (k_get K kd ns n w) = Inl e \<longrightarrow> objs w (kd, ns, n) = None)"

text \<open>\<open>step\<close>: a stage of the check ends in the same state but for the world, whose objects are the same,
  and says yes only if \<open>P\<close>, and always if \<open>P\<close> and the server is reliable.\<close>

definition checks :: "'w kube \<Rightarrow> ('w \<Rightarrow> (okey \<rightharpoonup> kobj)) \<Rightarrow> 'w rs \<Rightarrow> bool \<Rightarrow> bool res \<times> 'w rs \<Rightarrow> bool" where
  "checks K objs s P out \<longleftrightarrow> (\<exists>w. snd out = s\<lparr>world := w\<rparr> \<and> objs w = objs (world s)) \<and> settled (fst out) \<and>
     (fst out = Ok True \<longrightarrow> P) \<and> (P \<longrightarrow> reliable K objs \<longrightarrow> fst out = Ok True)"

context api_server
begin

lemma checks_cong: "checks K objs s P out \<Longrightarrow> P = Q \<Longrightarrow> checks K objs s Q out"
  by simp

lemma checks_get:
  assumes at: "cluster s = c" "objs (world s) = f"
    and k: "\<And>x t. f (kd, clNamespace c, n) = Some x \<Longrightarrow> cluster t = c \<Longrightarrow> objs (world t) = f \<Longrightarrow> checks K objs t (P x) (k x t)"
  shows "checks K objs s (\<exists>x. f (kd, clNamespace c, n) = Some x \<and> P x) (bindR (mustExist K kd n) k s)"
proof -
  obtain r t where m: "mustExist K kd n s = (r, t)" by (meson surj_pair)
  from mustExist_run [OF m] obtain w where w: "t = s\<lparr>world := w\<rparr>" "objs w = f"
    and r: "r = Err (ApiStatus NotFound n) \<and> (\<exists>e. fst (k_get K kd (clNamespace c) n (world s)) = Inl e) \<or>
     (\<exists>x. r = Ok x \<and> f (kd, clNamespace c, n) = Some x)" unfolding at by blast
  from r show ?thesis
  proof
    assume e: "r = Err (ApiStatus NotFound n) \<and> (\<exists>e. fst (k_get K kd (clNamespace c) n (world s)) = Inl e)"
    then have "reliable K objs \<Longrightarrow> f (kd, clNamespace c, n) = None"
      unfolding reliable_def at(2) [symmetric] by blast
    with e m w at show ?thesis by (auto simp: checks_def bindR_def)
  next
    assume "\<exists>x. r = Ok x \<and> f (kd, clNamespace c, n) = Some x"
    then obtain x where x: "r = Ok x" "f (kd, clNamespace c, n) = Some x" by blast
    have "checks K objs t (P x) (k x t)" by (rule k [OF x(2)]) (simp_all add: w at)
    then have "checks K objs s (P x) (k x t)" using at w by (auto simp: checks_def)
    with x m show ?thesis by (simp add: bindR_def)
  qed
qed

lemma checks_when:
  assumes at: "cluster s = c" "objs (world s) = f"
    and k: "\<And>t. cluster t = c \<Longrightarrow> objs (world t) = f \<Longrightarrow> checks K objs t P (k () t)"
  shows "checks K objs s ((b \<longrightarrow> f (kd, clNamespace c, n) \<noteq> None) \<and> P) (bindR (existsWhen K b kd n) k s)"
proof (cases b)
  case True
  have "checks K objs s (\<exists>x. f (kd, clNamespace c, n) = Some x \<and> P) (bindR (mustExist K kd n) (\<lambda>_. k ()) s)"
    using at by (rule checks_get) (rule k)
  moreover have "bindR (existsWhen K b kd n) k s = bindR (mustExist K kd n) (\<lambda>_. k ()) s"
    using True by (simp add: existsWhen_def whenR_def bindR_def ret_def split: prod.splits res.splits)
  ultimately show ?thesis using True by simp
next
  case False
  with k [OF at] show ?thesis by (simp add: existsWhen_def whenR_def bindR_def ret_def)
qed

lemma checks_ret: "checks K objs s b (ret b s)"
  by (cases b) (auto simp: checks_def ret_def intro: exI [of _ "world s"])

lemma checks_sts:
  assumes at: "cluster s = c" "objs (world s) = f"
    and k: "\<And>ss t. cluster t = c \<Longrightarrow> objs (world t) = f \<Longrightarrow> checks K objs t (P ss) (k ss t)"
  shows "checks K objs s (\<exists>ss. f (StatefulSetKind, clNamespace c, n) = Some (OStatefulSet ss) \<and> P ss)
    (bindR (mustExist K StatefulSetKind n) (\<lambda>x. bindR (asStatefulSet x) k) s)"
proof (rule checks_cong [OF checks_get [OF at, where P = "\<lambda>x. \<exists>ss. x = OStatefulSet ss \<and> P ss"]])
  fix x and t :: "'w rs"
  assume x: "f (StatefulSetKind, clNamespace c, n) = Some x" and t: "cluster t = c" "objs (world t) = f"
  from stored_key [OF x [folded at(2)]] obtain ss where "x = OStatefulSet ss" by (cases x) (auto simp: key_of_def)
  with k [OF t] show "checks K objs t (\<exists>ss. x = OStatefulSet ss \<and> P ss) (bindR (asStatefulSet x) k t)"
    by (simp add: asStatefulSet_def bindR_def ret_def)
qed blast

lemma checks_pvc:
  assumes at: "cluster s = c" "objs (world s) = f"
    and k: "\<And>p t. cluster t = c \<Longrightarrow> objs (world t) = f \<Longrightarrow> checks K objs t (P p) (k p t)"
  shows "checks K objs s (\<exists>p. f (PVCKind, clNamespace c, n) = Some (OPVC p) \<and> P p)
    (bindR (mustExist K PVCKind n) (\<lambda>x. bindR (asPVC x) k) s)"
proof (rule checks_cong [OF checks_get [OF at, where P = "\<lambda>x. \<exists>p. x = OPVC p \<and> P p"]])
  fix x and t :: "'w rs"
  assume x: "f (PVCKind, clNamespace c, n) = Some x" and t: "cluster t = c" "objs (world t) = f"
  from stored_key [OF x [folded at(2)]] obtain p where "x = OPVC p" by (cases x) (auto simp: key_of_def)
  with k [OF t] show "checks K objs t (\<exists>p. x = OPVC p \<and> P p) (bindR (asPVC x) k t)"
    by (simp add: asPVC_def bindR_def ret_def)
qed blast

text \<open>A refusal and the condition that goes on.\<close>

lemma checks_if: "(\<not> b \<Longrightarrow> checks K objs s P (m s)) \<Longrightarrow> checks K objs s (\<not> b \<and> P) ((if b then ret False else m) s)"
  by (cases b) (simp_all, metis checks_ret)

lemma checks_replicas:
  assumes at: "cluster s = c" "objs (world s) = f"
    and k: "\<And>t. cluster t = c \<Longrightarrow> objs (world t) = f \<Longrightarrow> checks K objs t P (m t)"
  shows "checks K objs s (replicas_up c f \<and> P) (bindR (readOnlyReady K c) (\<lambda>ro. if \<not> ro then ret False else m) s)"
proof (cases "Sync (clSpec c) \<noteq> None \<and> 0 < sint (Replicas (clSpec c))")
  case False
  then show ?thesis using k [OF at] by (auto simp: readOnlyReady_def replicas_up_def bindR_def ret_def)
next
  case True
  have assoc: "bindR (bindR g h) k = bindR g (\<lambda>x. bindR (h x) k)" for g h k
    by (simp add: bindR_def fun_eq_iff split: prod.splits res.splits)
  have step: "bindR (ret b) k = k b" for b k by (simp add: bindR_def ret_def fun_eq_iff)
  have "checks K objs s (\<exists>ro. f (StatefulSetKind, clNamespace c, clName c @ ''-ro'') = Some (OStatefulSet ro) \<and>
       \<not> stsReadyReplicas ro \<noteq> Replicas (clSpec c) \<and> P)
    (bindR (mustExist K StatefulSetKind (clName c @ ''-ro'')) (\<lambda>x. bindR (asStatefulSet x) (\<lambda>ro.
      if stsReadyReplicas ro \<noteq> Replicas (clSpec c) then ret False else m)) s)"
    using at by (rule checks_sts) (intro checks_if k)
  moreover have "bindR (readOnlyReady K c) (\<lambda>ro. if \<not> ro then ret False else m) =
      bindR (mustExist K StatefulSetKind (clName c @ ''-ro'')) (\<lambda>x. bindR (asStatefulSet x) (\<lambda>ro.
        if stsReadyReplicas ro \<noteq> Replicas (clSpec c) then ret False else m))"
    using True by (simp add: readOnlyReady_def assoc step)
  ultimately show ?thesis
    using True by (auto elim!: checks_cong simp: replicas_up_def sts_key_def)
qed

lemma resourcesReady_checks: "checks K objs s (all_up (cluster s) (objs (world s))) (resourcesReady K s)"
proof -
  let ?c = "cluster s"
  have start: "resourcesReady K s = bindR (mustExist K StatefulSetKind (clName ?c @ ''-rw'')) (\<lambda>x. bindR (asStatefulSet x) (\<lambda>rwSTS.
     if stsReadyReplicas rwSTS \<noteq> 1 then ret False
     else bindR (readOnlyReady K ?c) (\<lambda>ro. if \<not> ro then ret False
     else bindR (mustExist K PVCKind (clName ?c @ ''-data'')) (\<lambda>y. bindR (asPVC y) (\<lambda>pvc.
     if pvcPhase pvc \<noteq> ''Bound'' then ret False
     else bindR (existsWhen K True ServiceKind (clName ?c @ ''-dns'')) (\<lambda>_.
     bindR (existsWhen K (ingressEnabled ?c) IngressKind (clName ?c)) (\<lambda>_.
     bindR (existsWhen K (podMonitorEnabled ?c) PodMonitorKind (clName ?c)) (\<lambda>_. ret True)))))))) s"
    by (simp add: resourcesReady_def getCluster_def askR_def bindR_eq)
  show ?thesis
    unfolding start
    by (rule checks_cong, (rule checks_sts checks_pvc checks_if checks_replicas checks_when checks_ret | assumption | rule refl)+)
       (auto simp: all_up_def keys)
qed

end

lemma resourcesReady_returns:
  assumes "api_server K objs like" "worldless I"
  shows "returns I (resourcesReady K)"
proof -
  have "I s' \<and> settled r" if i: "I s" and run: "resourcesReady K s = (r, s')" for s r s'
    using api_server.resourcesReady_checks [OF assms(1), of s] run assms(2) i by (auto simp: checks_def worldless_def)
  then show ?thesis by (intro returnsI keepsI) blast+
qed

section \<open>The status\<close>

text \<open>What the code relies on of \<open>meta.SetStatusCondition\<close>: afterwards there is a condition of the type with
  the new status, reason and message, and conditions of other types are as before.\<close>

definition says :: "Condition \<Rightarrow> Condition \<Rightarrow> bool" where
  "says c d \<longleftrightarrow> cndType d = cndType c \<and> cndStatus d = cndStatus c \<and> cndReason d = cndReason c \<and> cndMessage d = cndMessage c"

definition condition_law :: "'w kube \<Rightarrow> bool" where
  "condition_law K \<longleftrightarrow> (\<forall>c cs w cs' w'. set_status_condition K c cs w = (cs', w') \<longrightarrow>
     (\<exists>d \<in> set cs'. says c d) \<and> (\<forall>d. cndType d \<noteq> cndType c \<longrightarrow> (d \<in> set cs') = (d \<in> set cs)))"

lemma setStatusCondition_run:
  assumes "condition_law K" "setStatusCondition K c s = (r, s')"
  shows "\<exists>cs w. r = Ok () \<and> s' = s\<lparr>world := w, cluster := (cluster s)\<lparr>clStatus := (clStatus (cluster s))\<lparr>Conditions := cs\<rparr>\<rparr>\<rparr> \<and>
    (\<exists>d \<in> set cs. says c d) \<and> (\<forall>d. cndType d \<noteq> cndType c \<longrightarrow> (d \<in> set cs) = (d \<in> set (Conditions (clStatus (cluster s)))))"
proof -
  obtain cs w where c: "set_status_condition K c (Conditions (clStatus (cluster s))) (world s) = (cs, w)" by (meson surj_pair)
  have "(\<exists>d \<in> set cs. says c d) \<and> (\<forall>d. cndType d \<noteq> cndType c \<longrightarrow> (d \<in> set cs) = (d \<in> set (Conditions (clStatus (cluster s)))))"
    using assms(1) c unfolding condition_law_def by blast
  with assms(2) c show ?thesis
    by (intro exI [of _ cs] exI [of _ w])
       (auto simp: setStatusCondition_def getCluster_def askR_def bindR_def askW_def modStatus_def modCluster_def modS_def)
qed

text \<open>The update with its retry leaves the status the operator sent.\<close>

lemma UpdateStatus_status:
  assumes "echoes K" "retrier (retry_on_conflict K) world_pause"
  shows "returns (\<lambda>s. clStatus (cluster s) = st) (UpdateClusterStatusWithRetry K)"
  unfolding UpdateClusterStatusWithRetry_def
proof (rule retrier.run_settled [OF assms(2)])
  show "returns (\<lambda>s. clStatus (cluster s) = st)
     (bindR getCluster (\<lambda>cl. bindR (callW (k_status_update K cl)) (\<lambda>cl. modCluster (\<lambda>_. cl))))" (is "returns ?I ?f")
  proof -
    have "?I s' \<and> settled r" if I: "?I s" and run: "?f s = (r, s')" for s r s'
    proof -
      obtain x w where u: "k_status_update K (cluster s) (world s) = (x, w)" by (meson surj_pair)
      show ?thesis
      proof (cases x)
        case (Inl e)
        with I u run show ?thesis
          by (auto simp: getCluster_def askR_def bindR_def callW_def callR_def)
      next
        case (Inr c)
        with u assms(1) have "clStatus c = clStatus (cluster s)" unfolding echoes_def by blast
        with I u run Inr show ?thesis
          by (auto simp: getCluster_def askR_def bindR_def callW_def callR_def modCluster_def modS_def)
      qed
    qed
    then show ?thesis by (intro returnsI keepsI) blast+
  qed
qed (auto simp: kept_by_def world_pause_def)

lemma updateStatus_run:
  assumes K: "condition_law K" "echoes K" "retrier (retry_on_conflict K) world_pause"
    and run: "updateStatus K ready msg s = (r, s')"
  shows "settled r \<and> ResourcesReady (clStatus (cluster s')) = ready \<and> LastError (clStatus (cluster s')) = msg \<and>
    (\<exists>d \<in> set (Conditions (clStatus (cluster s'))). cndType d = ''Available'' \<and> cndStatus d = ''True'') \<and>
    (\<not> ready \<longrightarrow> (\<exists>d \<in> set (Conditions (clStatus (cluster s'))). cndType d = ''Unavailable'' \<and> cndStatus d = ''False'')) \<and>
    (ready \<longrightarrow> (\<forall>d. cndType d = ''Unavailable'' \<longrightarrow>
       (d \<in> set (Conditions (clStatus (cluster s')))) = (d \<in> set (Conditions (clStatus (cluster s))))))"
proof -
  let ?a = "condition typePiHoleClusterReady ''True'' ''ResourcesReady''
        (''All resources are healthy. Ready='' @ (if ready then ''true'' else ''false''))"
    and ?u = "condition typePiHoleClusterNotReady ''False'' ''MissingResources'' msg"
  let ?s0 = "s\<lparr>cluster := (cluster s)\<lparr>clStatus := (clStatus (cluster s))\<lparr>ResourcesReady := ready, LastError := msg\<rparr>\<rparr>\<rparr>"
  note names = condition_def typePiHoleClusterReady_def typePiHoleClusterNotReady_def
  have run0: "bindR (setStatusCondition K ?a) (\<lambda>_. bindR (whenR (\<not> ready) (setStatusCondition K ?u)) (\<lambda>_.
      wrap ''status update failed'' (UpdateClusterStatusWithRetry K))) ?s0 = (r, s')"
    using run by (simp add: updateStatus_def modStatus_def modCluster_def modS_def bindR_def)
  obtain q1 s1 where a: "setStatusCondition K ?a ?s0 = (q1, s1)" by (meson surj_pair)
  obtain cs where a': "q1 = Ok ()"
    "clStatus (cluster s1) = (clStatus (cluster s))\<lparr>ResourcesReady := ready, LastError := msg, Conditions := cs\<rparr>"
    "\<exists>d \<in> set cs. says ?a d" "\<forall>d. cndType d \<noteq> cndType ?a \<longrightarrow> (d \<in> set cs) = (d \<in> set (Conditions (clStatus (cluster s))))"
  proof -
    from setStatusCondition_run [OF K(1) a] obtain cs w where c: "q1 = Ok () \<and>
      s1 = ?s0\<lparr>world := w, cluster := (cluster ?s0)\<lparr>clStatus := (clStatus (cluster ?s0))\<lparr>Conditions := cs\<rparr>\<rparr>\<rparr> \<and>
      (\<exists>d \<in> set cs. says ?a d) \<and> (\<forall>d. cndType d \<noteq> cndType ?a \<longrightarrow> (d \<in> set cs) = (d \<in> set (Conditions (clStatus (cluster ?s0)))))"
      by (elim exE)
    show thesis by (rule that [of cs]) (use c in simp_all)
  qed
  obtain q2 s2 where b: "whenR (\<not> ready) (setStatusCondition K ?u) s1 = (q2, s2)" by (meson surj_pair)
  have b': "q2 = Ok () \<and> ResourcesReady (clStatus (cluster s2)) = ready \<and> LastError (clStatus (cluster s2)) = msg \<and>
      (\<exists>d \<in> set (Conditions (clStatus (cluster s2))). says ?a d) \<and>
      (if ready then s2 = s1 else \<exists>d \<in> set (Conditions (clStatus (cluster s2))). says ?u d)"
  proof (cases ready)
    case True
    with b a' show ?thesis by (auto simp: whenR_def ret_def)
  next
    case False
    with b have "setStatusCondition K ?u s1 = (q2, s2)" by (simp add: whenR_def)
    from setStatusCondition_run [OF K(1) this] obtain cs' w' where c: "q2 = Ok () \<and>
      s2 = s1\<lparr>world := w', cluster := (cluster s1)\<lparr>clStatus := (clStatus (cluster s1))\<lparr>Conditions := cs'\<rparr>\<rparr>\<rparr> \<and>
      (\<exists>d \<in> set cs'. says ?u d) \<and> (\<forall>d. cndType d \<noteq> cndType ?u \<longrightarrow> (d \<in> set cs') = (d \<in> set (Conditions (clStatus (cluster s1)))))"
      by (elim exE)
    from a'(3) obtain d where "d \<in> set cs" "says ?a d" ..
    moreover from calculation c a'(2) have "d \<in> set cs'" by (simp add: says_def names)
    ultimately show ?thesis using c a'(2) False by auto
  qed
  obtain q3 s3 where u: "UpdateClusterStatusWithRetry K s2 = (q3, s3)" by (meson surj_pair)
  note R = UpdateStatus_status [OF K(2,3), of "clStatus (cluster s2)"]
  have st: "clStatus (cluster s3) = clStatus (cluster s2)" "settled q3"
    using keepsD [OF returns_keeps [OF R] refl u] returnsD [OF R refl u] by auto
  have "s' = s3" "settled r"
    using run0 a a'(1) b b' u st(2) by (auto simp: bindR_def ctxR_def settled_def split: res.splits)
  with st(1) a' b' show ?thesis by (cases ready) (auto simp: says_def names)
qed

section \<open>Properties\<close>


text \<open>The condition \<open>Available\<close> is written as true whatever \<open>ready\<close> is, so a cluster with missing
  resources is reported available (and, beside it, \<open>Unavailable\<close> as false); only the field
  \<open>resourcesReady\<close> and the message tell.\<close>

theorem available_is_reported_even_when_not_ready:
  assumes "condition_law K" "echoes K" "retrier (retry_on_conflict K) world_pause"
    and "updateStatus K ready msg s = (r, s')"
  shows "settled r \<and> ResourcesReady (clStatus (cluster s')) = ready \<and>
    (\<exists>d \<in> set (Conditions (clStatus (cluster s'))). cndType d = ''Available'' \<and> cndStatus d = ''True'') \<and>
    (\<not> ready \<longrightarrow> (\<exists>d \<in> set (Conditions (clStatus (cluster s'))). cndType d = ''Unavailable'' \<and> cndStatus d = ''False''))"
  using updateStatus_run [OF assms] by blast

text \<open>A condition \<open>Unavailable\<close>, once written, stays as it is when the resources are ready again.\<close>

theorem unavailable_condition_is_never_cleared:
  assumes "condition_law K" "echoes K" "retrier (retry_on_conflict K) world_pause"
    and "updateStatus K True msg s = (r, s')" "cndType d = ''Unavailable''"
  shows "d \<in> set (Conditions (clStatus (cluster s'))) \<longleftrightarrow> d \<in> set (Conditions (clStatus (cluster s)))"
  using updateStatus_run [OF assms(1-4)] assms(5) by blast

section \<open>Concrete runs\<close>

lemma cellar_reliable: "reliable (cellar_kube pods cl) cellar_objs"
  by (auto simp: reliable_def cellar_kube_def split: option.splits)


lemma static_conditions: "condition_law (static_kube pods objs cl)" "echoes (static_kube pods objs cl)"
  "retrier (retry_on_conflict (static_kube pods objs cl)) world_pause"
proof -
  show "condition_law (static_kube pods objs cl)" by (auto simp: condition_law_def static_kube_def says_def)
  show "echoes (static_kube pods objs cl)" by (simp add: echoes_def static_kube_def)
  show "retrier (retry_on_conflict (static_kube pods objs cl)) world_pause"
    by (simp add: static_kube_def conflict.retrier_axioms)
qed

theorem available_is_reported_even_when_not_ready_witness:
  "\<exists>d \<in> set (Conditions (clStatus (cluster (snd (updateStatus (static_kube [] [] some_cluster) False [] (new_rs some_cluster ())))))).
     cndType d = ''Available'' \<and> cndStatus d = ''True''"
  using available_is_reported_even_when_not_ready [OF static_conditions prod.collapse [symmetric]] by blast

theorem unavailable_condition_is_never_cleared_witness:
  "\<exists>d \<in> set (Conditions (clStatus (cluster (snd (updateStatus (static_kube [] [] some_cluster) True []
     (snd (updateStatus (static_kube [] [] some_cluster) False [] (new_rs some_cluster ())))))))). cndType d = ''Unavailable''"
proof -
  let ?K = "static_kube [] [] some_cluster" and ?s = "snd (updateStatus (static_kube [] [] some_cluster) False [] (new_rs some_cluster ()))"
  from updateStatus_run [OF static_conditions, of _ _ _ False "[]"] obtain d where
    d: "d \<in> set (Conditions (clStatus (cluster ?s)))" "cndType d = ''Unavailable''" by (metis prod.collapse)
  with unavailable_condition_is_never_cleared [OF static_conditions prod.collapse [symmetric] d(2)] show ?thesis by blast
qed

end
