(* ===== verification/Progress.thy ===== *)
theory Progress
  imports Ensure
begin

text \<open>
  When the operations of \<open>resources.go\<close> succeed: \<open>willing_server\<close> extends \<open>api_server\<close> by a server that finds
  what it holds and refuses no well-formed write. On it every upsert succeeds, and with the password
  in place and sizes that can be parsed so does every operation.
\<close>

locale willing_server = api_server K objs like
  for K :: "'w kube" and objs :: "'w \<Rightarrow> (okey \<rightharpoonup> kobj)" and like :: "kobj \<Rightarrow> kobj \<Rightarrow> bool" +
  assumes get_hit: "objs w (kd, ns, n) = Some x \<Longrightarrow> fst (k_get K kd ns n w) = Inr x"
    and get_miss: "objs w (kd, ns, n) = None \<Longrightarrow> \<exists>e. fst (k_get K kd ns n w) = Inl e \<and> IsNotFound e"
    and create_accepted: "objs w (key_of d) = None \<Longrightarrow> \<exists>x. fst (k_create K d w) = Inr x"
    and update_accepted: "objs w (key_of d) \<noteq> None \<Longrightarrow> \<exists>x. fst (k_update K d w) = Inr x"
    and ref_accepted: "\<exists>d'. set_controller_ref K c d = Inr d'"
    and retry_first: "f s = (Ok (), s') \<Longrightarrow> retry_on_conflict K f s = (Ok (), s')"

context willing_server
begin

lemma get_obtains:
  obtains x w' where "objs w (kd, ns, n) = Some x" "k_get K kd ns n w = (Inr x, w')" "objs w' = objs w"
  | e w' where "objs w (kd, ns, n) = None" "k_get K kd ns n w = (Inl e, w')" "IsNotFound e" "objs w' = objs w"
proof -
  obtain g w' where g: "k_get K kd ns n w = (g, w')" by (meson surj_pair)
  show thesis
  proof (cases "objs w (kd, ns, n)")
    case (Some x)
    with get_hit [OF Some] g have *: "k_get K kd ns n w = (Inr x, w')" by simp
    show ?thesis by (rule that(1) [OF Some *]) (rule get_found [OF *, THEN conjunct1])
  next
    case None
    from get_miss [OF None] g obtain e where *: "k_get K kd ns n w = (Inl e, w')" "IsNotFound e" by auto
    show ?thesis by (rule that(2) [OF None *]) (rule get_failed [OF *(1), THEN conjunct1])
  qed
qed

lemma refresh_succeeds:
  assumes "key_of (snd (upVars s)) = (kd, clNamespace (cluster s), n)"
    and "objs (world s) (kd, clNamespace (cluster s), n) \<noteq> None"
  shows "\<exists>s'. refreshAndUpdate K n s = (Ok (), s')"
proof -
  obtain old d where v: "upVars s = (old, d)" by (cases "upVars s")
  with assms(1) have k: "kind_of d = kd" "key_of d = (kd, clNamespace (cluster s), n)" by (auto simp: key_of_def)
  obtain x w1 where g: "k_get K kd (clNamespace (cluster s)) n (world s) = (Inr x, w1)" "objs w1 = objs (world s)"
    using get_obtains [of "world s" kd "clNamespace (cluster s)" n] assms(2) by (metis option.distinct(1))
  obtain d' where d': "set_controller_ref K (cluster s) d = Inr d'" using ref_accepted by blast
  have "objs w1 (key_of d') \<noteq> None" using ref_key [OF d'] k assms(2) g(2) by simp
  from update_accepted [OF this] obtain y w2 where "k_update K d' w1 = (Inr y, w2)" by (metis prod.collapse)
  with v g d' k show ?thesis
    by (simp add: refreshAndUpdate_def getVars_def setVars_def getObject_def controllerRef_def getCluster_def pureR_def
        callW_def bindR_def ctxR_def askR_def callR_def modS_def ret_def)
qed

lemma upsert_succeeds:
  assumes key: "key_of d0 = (kd, clNamespace (cluster s), n)"
  shows "\<exists>x s'. UpsertResource K d0 n None s = (Ok x, s')"
proof -
  obtain d where d: "set_controller_ref K (cluster s) d0 = Inr d" using ref_accepted by blast
  have k: "key_of d = key_of d0" "kind_of d = kd" using ref_key [OF d] key by (auto simp: key_of_def)
  show ?thesis
  proof (rule get_obtains [of "world s" "kind_of d" "clNamespace (cluster s)" n])
    fix ex w
    assume ex: "objs (world s) (kind_of d, clNamespace (cluster s), n) = Some ex"
      and g: "k_get K (kind_of d) (clNamespace (cluster s)) n (world s) = (Inr ex, w)" and w: "objs w = objs (world s)"
    let ?t = "s\<lparr>world := w, upVars := (ex, d)\<rparr>"
    have "\<exists>t'. refreshAndUpdate K n ?t = (Ok (), t')"
      by (rule refresh_succeeds [where kd = kd]) (use k key ex w in simp_all)
    then obtain t' where "retry_on_conflict K (refreshAndUpdate K n) ?t = (Ok (), t')" using retry_first by blast
    then show ?thesis unfolding upsert_present(2) [OF d g] by simp
  next
    fix e w
    assume m: "objs (world s) (kind_of d, clNamespace (cluster s), n) = None"
      and g: "k_get K (kind_of d) (clNamespace (cluster s)) n (world s) = (Inl e, w)" "IsNotFound e" "objs w = objs (world s)"
    have "objs w (key_of d) = None" using m k key g(3) by simp
    from create_accepted [OF this] obtain x w' where "k_create K d w = (Inr x, w')" by (metis prod.collapse)
    then show ?thesis unfolding upsert_absent [OF d g(1)] using g(2) by simp
  qed
qed

lemma upsert_then_succeeds:
  assumes "key_of d = (kd, clNamespace (cluster s), n)" "\<And>x. kind_of x = kind_of d \<Longrightarrow> \<exists>y. k x = ret y"
  shows "\<exists>y s'. bindR (UpsertResource K d n None) k s = (Ok y, s')"
proof -
  from upsert_succeeds [OF assms(1)] obtain x s' where u: "UpsertResource K d n None s = (Ok x, s')" by blast
  from assms(2) [OF upsert_kind [OF u]] u show ?thesis by (auto simp: bindR_def ret_def)
qed

lemma claim_succeeds:
  assumes "parsable K (cluster s)"
  shows "\<exists>q s'. ensurePiHolePVC K s = (Ok q, s')"
proof -
  let ?c = "cluster s"
  from assms obtain v where v: "parse_quantity K (fst (pvc_params ?c)) = Some v" by (auto simp: parsable_def)
  let ?p = "desired_pvc ?c v"
  have key: "key_of (OPVC ?p) = (PVCKind, clNamespace ?c, clName ?c @ ''-data'')" by (simp add: keys)
  obtain d where d: "set_controller_ref K ?c (OPVC ?p) = Inr d" using ref_accepted by blast
  from ref_meta [OF d] obtain f where f: "d = OPVC (?p\<lparr>pvcMeta := f (pvcMeta ?p)\<rparr>)" by auto
  have k: "key_of d = key_of (OPVC ?p)" "kind_of d = PVCKind" using ref_key [OF d] f by auto
  let ?U = "UpsertResource K (OPVC ?p) (clName ?c @ ''-data'') (Some (pvcCustomizer K)) s"
  have "\<exists>q s'. ?U = (Ok (OPVC q), s')"
  proof (rule get_obtains [of "world s" "kind_of d" "clNamespace ?c" "clName ?c @ ''-data''"])
    fix e w
    assume m: "objs (world s) (kind_of d, clNamespace ?c, clName ?c @ ''-data'') = None"
      and g: "k_get K (kind_of d) (clNamespace ?c) (clName ?c @ ''-data'') (world s) = (Inl e, w)" "IsNotFound e"
      and w: "objs w = objs (world s)"
    have "objs w (key_of d) = None" using m k key w by simp
    from create_accepted [OF this] obtain x w' where c: "k_create K d w = (Inr x, w')" by (metis prod.collapse)
    from create_ok [OF c] k key obtain q where "x = OPVC q" by (cases x) (auto simp: key_of_def keys)
    with c show ?thesis unfolding upsert_absent [OF d g(1)] using g(2) by simp
  next
    fix ex w
    assume m: "objs (world s) (kind_of d, clNamespace ?c, clName ?c @ ''-data'') = Some ex"
      and g: "k_get K (kind_of d) (clNamespace ?c) (clName ?c @ ''-data'') (world s) = (Inr ex, w)"
      and w: "objs w = objs (world s)"
    from stored_key [OF m] k obtain e where e: "ex = OPVC e" by (cases ex) (auto simp: key_of_def)
    let ?e = "OPVC (e\<lparr>pvcRequests := pvcRequests ?p\<rparr>)"
    have ke: "key_of ?e = key_of ex" by (simp add: e key_of_def)
    then have "objs w (key_of ?e) \<noteq> None" using stored_key [OF m] m w by simp
    from update_accepted [OF this] obtain y w' where u: "k_update K ?e w = (Inr y, w')" by (metis prod.collapse)
    from update_ok [OF u] ke e obtain q where "y = OPVC q" by (cases y) (auto simp: key_of_def)
    with u show ?thesis
      unfolding upsert_present(1) [OF d g, of "pvcCustomizer K"]
      by (auto simp: pvcCustomizer_def e f asPVC_def bindR_def ret_def ctxR_def callW_def callR_def)
  qed
  then show ?thesis
    by (auto simp: ensurePiHolePVC_def getCluster_def askR_def bindR_def mustParse_def v ret_def asPVC_def)
qed

lemma single_upserts_succeed:
  "\<exists>cm s'. ensurePiHoleEnvCM K s = (Ok cm, s')" "\<exists>s'. ensurePodMonitor K s = (Ok (), s')"
  "\<exists>s'. ensureIngress K s = (Ok (), s')" "\<exists>s'. ensureDNSService K s = (Ok (), s')"
proof -
  have skip: "\<exists>y s'. ret z s = (Ok y, s')" for z :: 'b and s :: "'w rs" by (simp add: ret_def)
  have cm: "\<exists>y. bindR (asConfigMap x) (\<lambda>cm. ret (Some cm)) = ret y" if "kind_of x = ConfigMapKind" for x
    using that by (cases x) (auto simp: asConfigMap_def bindR_def ret_def fun_eq_iff)
  show "\<exists>cm s'. ensurePiHoleEnvCM K s = (Ok cm, s')"
    unfolding ensurePiHoleEnvCM_def getCluster_def askR_def
    by (auto simp: bindR_eq keys intro!: skip upsert_then_succeeds cm split: option.splits)
  show "\<exists>s'. ensurePodMonitor K s = (Ok (), s')"
    using upsert_then_succeeds [of "desired_pod_monitor (cluster s)" PodMonitorKind s "clName (cluster s)" "\<lambda>_. ret ()"]
    by (auto simp: ensurePodMonitor_def getCluster_def askR_def bindR_eq keys ret_def)
  show "\<exists>s'. ensureIngress K s = (Ok (), s')"
  proof (cases "\<exists>ing. Ingress (clSpec (cluster s)) = Some ing \<and> ingEnabled ing")
    case True
    then obtain ing where i: "Ingress (clSpec (cluster s)) = Some ing" "ingEnabled ing" by blast
    from upsert_then_succeeds [of "desired_ingress (cluster s) ing" IngressKind s "clName (cluster s)" "\<lambda>_. ret ()"] i
    show ?thesis by (auto simp: ensureIngress_def getCluster_def askR_def bindR_eq keys)
  qed (auto simp: ensureIngress_def getCluster_def askR_def bindR_eq ret_def split: option.splits)
  show "\<exists>s'. ensureDNSService K s = (Ok (), s')"
    using upsert_then_succeeds [of "OService (desired_service (cluster s))" ServiceKind s "clName (cluster s) @ ''-dns''" "\<lambda>_. ret ()"]
    by (auto simp: ensureDNSService_def getCluster_def askR_def bindR_eq keys)
qed

text \<open>Reading an object the server holds.\<close>

lemma read_held:
  assumes "objs (world s) (kd, ns, n) = Some x"
  shows "\<exists>w. objs w = objs (world s) \<and> callW (k_get K kd ns n) s = (Ok x, s\<lparr>world := w\<rparr>)"
proof -
  obtain w where "k_get K kd ns n (world s) = (Inr x, w)" "objs w = objs (world s)"
    using get_obtains [of "world s" kd ns n] assms by (metis option.distinct(1) option.inject)
  then show ?thesis by (auto simp: callW_def callR_def)
qed

lemma getAPISecret_succeeds:
  assumes "password_ready objs (cluster s) (world s)"
  shows "\<exists>sec w. getAPISecret K s = (Ok sec, s\<lparr>world := w\<rparr>) \<and> objs w = objs (world s)"
proof -
  from assms obtain sec where
    "objs (world s) (SecretKind, clNamespace (cluster s), password_secret (cluster s)) = Some (OSecret sec)"
    and k: "has_secret_ref (cluster s) \<longrightarrow> map_of (scData sec) (password_key (cluster s)) \<noteq> None"
    unfolding password_ready_def by blast
  from read_held [OF this(1)] obtain w where w: "objs w = objs (world s)"
    "callW (k_get K SecretKind (clNamespace (cluster s)) (password_secret (cluster s))) s = (Ok (OSecret sec), s\<lparr>world := w\<rparr>)" by blast
  then show ?thesis
    using k
    by (auto simp: getAPISecret_def getCluster_def askR_def bindR_def ctxR_def asSecret_def ret_def has_secret_ref_def
        password_secret_def password_key_def split: option.splits)
qed

lemma withPassword_succeeds:
  assumes "password_ready objs (cluster s) (world s)" "psContainers (stsPodSpec d0) = [c0]"
  shows "\<exists>d s'. withPassword K d0 s = (Ok d, s') \<and> objs (world s') = objs (world s) \<and> spec_kept (cluster s) (cluster s') \<and>
    sts_head d = sts_head d0"
proof -
  let ?s = "s\<lparr>cluster := defaultProbes (cluster s)\<rparr>"
  have "password_secret (cluster ?s) = password_secret (cluster s)" "password_key (cluster ?s) = password_key (cluster s)"
    "has_secret_ref (cluster ?s) = has_secret_ref (cluster s)"
    by (simp_all add: password_secret_def password_key_def has_secret_ref_def defaultProbes_same split: option.splits)
  with assms(1) have "password_ready objs (cluster ?s) (world ?s)"
    by (simp add: password_ready_def defaultProbes_same)
  from getAPISecret_succeeds [OF this] obtain sec w where "getAPISecret K ?s = (Ok sec, ?s\<lparr>world := w\<rparr>)" by blast
  then obtain d s' where run: "withPassword K d0 s = (Ok d, s')"
    unfolding password_env Let_def by simp
  from withPassword_run [OF assms(2) run] run show ?thesis by (auto simp: wired_def)
qed

text \<open>The secret of the operator's own is written, and then the password is ready.\<close>

lemma secret_succeeds:
  assumes "Config (clSpec (cluster s)) = Some cfg"
    and "apSecretRef (cfgAPIPassword cfg) = None \<and> apPassword (cfgAPIPassword cfg) \<noteq> [] \<or>
      password_ready objs (cluster s) (world s)"
  shows "\<exists>x s'. ensureAPISecret K s = (Ok x, s') \<and> cluster s' = cluster s \<and> password_ready objs (cluster s) (world s')"
proof (cases "apSecretRef (cfgAPIPassword cfg)")
  case None
  note go = ensureAPISecret_def getCluster_def askR_def
  show ?thesis
  proof (cases "apPassword (cfgAPIPassword cfg) = []")
    case True
    with None assms have "ensureAPISecret K s = (Ok None, s)" by (simp add: go bindR_def ret_def)
    with assms(2) True show ?thesis by simp
  next
    case False
    let ?d = "desired_secret (cluster s) cfg" and ?n = "clName (cluster s) @ ''-api-password''"
    obtain x s' where u: "UpsertResource K ?d ?n None s = (Ok x, s')"
      using upsert_succeeds [of ?d SecretKind s ?n] by (auto simp: keys)
    have "kind_of x = SecretKind" using upsert_kind [OF u] by simp
    then obtain sec where "x = OSecret sec" by (cases x) simp_all
    with u assms(1) None False have run: "ensureAPISecret K s = (Ok (Some sec), s')"
      by (simp add: go bindR_def asSecret_def ret_def)
    with ensureAPISecret_run [OF run] assms(1) None have e: "established K objs like (desired_secret (cluster s) cfg) s'"
      and c: "cluster s' = cluster s" by auto
    from e obtain x where x: "objs (world s') (secret_key (cluster s)) = Some x" by (auto simp: established_def)
    from stored_key [OF x] obtain sec where "x = OSecret sec" by (cases x) (auto simp: key_of_def keys)
    with x assms(1) None have "password_ready objs (cluster s) (world s')"
      by (simp add: password_ready_def password_secret_def has_secret_ref_def keys)
    with run c show ?thesis by blast
  qed
next
  case (Some ref)
  with assms have p: "password_ready objs (cluster s) (world s)" by simp
  from getAPISecret_succeeds [OF this] obtain sec w where
    g: "getAPISecret K s = (Ok sec, s\<lparr>world := w\<rparr>)" "objs w = objs (world s)" by blast
  then have "ensureAPISecret K s = (Ok (Some sec), s\<lparr>world := w\<rparr>)"
    using Some assms(1)
    by (auto simp: ensureAPISecret_def getAPISecret_def getCluster_def askR_def bindR_def ret_def fail_def asSecret_def
        panic_def split: prod.splits res.splits kobj.splits if_splits)
  with p g(2) show ?thesis by (simp add: password_ready_def)
qed

text \<open>The two stateful sets.\<close>

lemma set_succeeds:
  assumes "sts_head d = sts_head (new_sts c (clName c @ suf) role n)" "spec_kept c (cluster t)"
  shows "\<exists>t'. bindR (UpsertResource K (OStatefulSet d) (clName c @ suf) None) (\<lambda>_. ret ()) t = (Ok (), t')"
  using upsert_succeeds [OF sts_upsert_key(1) [OF spec_kept_refl assms(2,1)]]
  by (auto simp: bindR_def ret_def)

lemma parsable_kept: "parsable K c \<Longrightarrow> spec_kept c d \<Longrightarrow> parsable K d"
  using spec_keptD [of c d] by (auto simp: parsable_def pvc_params_def)

lemma readWriteSTS_succeeds:
  assumes "password_ready objs (cluster s) (world s)" "parsable K (cluster s)"
  shows "\<exists>s'. ensureReadWriteSTS K s = (Ok (), s')"
proof -
  let ?new = "new_sts (cluster s) (clName (cluster s) @ ''-rw'') ''readwrite'' 1"
  from withPassword_succeeds [OF assms(1) new_sts_head(2)] obtain d s1 where
    d: "withPassword K ?new s = (Ok d, s1)" "spec_kept (cluster s) (cluster s1)" "sts_head d = sts_head ?new" by metis
  from claim_succeeds [OF parsable_kept [OF assms(2) d(2)]] obtain q s2 where
    q: "ensurePiHolePVC K s1 = (Ok q, s2)" "cluster s2 = cluster s1"
    using ensurePiHolePVC_writes by blast
  from single_upserts_succeed(1) [of s2] obtain cm s3 where
    e: "ensurePiHoleEnvCM K s2 = (Ok cm, s3)" "cluster s3 = cluster s1"
    using ensurePiHoleEnvCM_run q(2) by metis
  let ?d = "withLimits (cluster s3) (withEnvCM cm (withVolume (VolPVC (omName (pvcMeta q))) d))"
  have k3: "spec_kept (cluster s) (cluster s3)" using d(2) e(2) by simp
  have "sts_head ?d = sts_head ?new" using d(3) by simp
  from set_succeeds [OF this k3] show ?thesis
    by (simp add: ensureReadWriteSTS_def getCluster_def askR_def bindR_eq Let_def d(1) q(1) e(1))
qed

lemma deployable_kept: "deployable K c \<Longrightarrow> spec_kept c d \<Longrightarrow> deployable K d"
  using spec_keptD [of c d] by (auto simp: deployable_def parsable_def pvc_params_def)

lemma volume_succeeds:
  assumes "deployable K (cluster s)"
  shows "\<exists>src. readOnlyVolume K s = (Ok src, s)"
proof -
  from assms obtain v where v: "ReadOnlyVolume (clSpec (cluster s)) = Some v"
    "ReadOnlyVolumeType v = ''ephemeral'' \<longrightarrow> parse_quantity K (rovSize v) \<noteq> None"
    by (auto simp: deployable_def parsable_def)
  then show ?thesis
    by (cases "parse_quantity K (rovSize v)")
       (auto simp: readOnlyVolume_def getCluster_def askR_def bindR_def mustParse_def ret_def)
qed

lemma readOnlySTS_succeeds:
  assumes "password_ready objs (cluster s) (world s)" "deployable K (cluster s)"
  shows "\<exists>s'. ensureReadOnlySTS K s = (Ok (), s')"
proof (cases "sint (Replicas (clSpec (cluster s))) \<le> 0")
  case True
  then show ?thesis by (simp add: ensureReadOnlySTS_def getCluster_def askR_def bindR_def ret_def)
next
  case False
  let ?new = "new_sts (cluster s) (clName (cluster s) @ ''-ro'') ''readonly'' (Replicas (clSpec (cluster s)))"
  from withPassword_succeeds [OF assms(1) new_sts_head(2)] obtain d s1 where
    d: "withPassword K ?new s = (Ok d, s1)" "spec_kept (cluster s) (cluster s1)" "sts_head d = sts_head ?new" by metis
  from single_upserts_succeed(1) [of s1] obtain cm s2 where
    e: "ensurePiHoleEnvCM K s1 = (Ok cm, s2)" "cluster s2 = cluster s1"
    using ensurePiHoleEnvCM_run by metis
  have "spec_kept (cluster s) (cluster s2)" using d(2) e(2) by simp
  from volume_succeeds [OF deployable_kept [OF assms(2) this]] obtain src where src: "readOnlyVolume K s2 = (Ok src, s2)" ..
  let ?d = "withLimits (cluster s2) (withVolume src (withEnvCM cm d))"
  have k2: "spec_kept (cluster s) (cluster s2)" using d(2) e(2) by simp
  have "sts_head ?d = sts_head ?new" using d(3) by simp
  from set_succeeds [OF this k2] False show ?thesis
    by (simp add: ensureReadOnlySTS_def getCluster_def askR_def bindR_eq Let_def d(1) e(1) src)
qed

end

section \<open>The reference server is willing\<close>

interpretation willing_cellar: willing_server "cellar_kube pods cl" cellar_objs stamped for pods cl
proof unfold_locales
  fix kd ns n x c d and w :: cellar
  show "cellar_objs w (kd, ns, n) = Some x \<Longrightarrow> fst (k_get (cellar_kube pods cl) kd ns n w) = Inr x"
    "cellar_objs w (kd, ns, n) = None \<Longrightarrow> \<exists>e. fst (k_get (cellar_kube pods cl) kd ns n w) = Inl e \<and> IsNotFound e"
    "cellar_objs w (key_of d) = None \<Longrightarrow> \<exists>x. fst (k_create (cellar_kube pods cl) d w) = Inr x"
    "cellar_objs w (key_of d) \<noteq> None \<Longrightarrow> \<exists>x. fst (k_update (cellar_kube pods cl) d w) = Inr x"
    "\<exists>d'. set_controller_ref (cellar_kube pods cl) c d = Inr d'"
    by (auto simp: cellar_kube_def)
  fix f :: "(cellar rs, unit) prog" and s s'
  show "f s = (Ok (), s') \<Longrightarrow> retry_on_conflict (cellar_kube pods cl) f s = (Ok (), s')"
    by (simp add: cellar_kube_def static_kube_def numeral_eq_Suc)
qed

end
