(* ===== verification/Deployment.thy ===== *)
theory Deployment
  imports Progress Webhook
begin

text \<open>
  The operations of \<open>resources.go\<close> together: the properties of the objects they leave behind, of those
  they leave alone, and of the ways they can fail, with runs on the reference server.
\<close>

section \<open>All operations together\<close>

definition void :: "('s, 'a) prog \<Rightarrow> ('s, unit) prog" where
  "void m = bindR m (\<lambda>_. ret ())"

definition operations :: "'w kube \<Rightarrow> ('w rs, unit) prog list" where
  "operations K = [void (ensureAPISecret K), void (ensurePiHolePVC K), void (ensurePiHoleEnvCM K), ensureReadWriteSTS K,
     ensureReadOnlySTS K, ensureIngress K, ensurePodMonitor K, ensureDNSService K]"

definition owned_keys :: "PiHoleCluster \<Rightarrow> okey set" where
  "owned_keys cl = {secret_key cl, claim_key cl, env_key cl, sts_key cl ''-rw'', sts_key cl ''-ro'', ingress_key cl,
     monitor_key cl, service_key cl}"

lemma owned_kept: "spec_kept c d \<Longrightarrow> owned_keys d = owned_keys c"
  by (simp add: owned_keys_def keys_kept)

lemma writes_only_mono: "writes_only objs F s t \<Longrightarrow> F \<subseteq> G \<Longrightarrow> writes_only objs G s t"
  by (auto simp: writes_only_def)

lemma void_run: "void m s = (r, s') \<Longrightarrow> \<exists>q. m s = (q, s')"
  by (auto simp: void_def bindR_def ret_def split: prod.splits res.splits)

lemma run_void: "m s = (Ok x, s') \<Longrightarrow> void m s = (Ok (), s')"
  by (simp add: void_def bindR_def ret_def)

context api_server
begin

lemma operation_writes:
  "list_all (\<lambda>m. \<forall>s r s'. m s = (r, s') \<longrightarrow> writes_only objs (owned_keys (cluster s)) s s') (operations K)"
  unfolding operations_def list.pred_inject
proof (intro conjI allI impI TrueI)
  fix s r s'
  note W = writes_only_mono [of objs _ s s' "owned_keys (cluster s)"]
  let ?W = "writes_only objs (owned_keys (cluster s)) s s'"
  show ?W if "void (ensureAPISecret K) s = (r, s')"
  proof -
    from void_run [OF that] obtain q where run: "ensureAPISecret K s = (q, s')" ..
    from W [OF conjunct1 [OF ensureAPISecret_run [OF run]]] show ?thesis by (simp add: owned_keys_def)
  qed
  show ?W if "void (ensurePiHolePVC K) s = (r, s')"
  proof -
    from void_run [OF that] obtain q where run: "ensurePiHolePVC K s = (q, s')" ..
    from W [OF conjunct1 [OF ensurePiHolePVC_writes [OF run]]] show ?thesis by (simp add: owned_keys_def)
  qed
  show ?W if "void (ensurePiHoleEnvCM K) s = (r, s')"
  proof -
    from void_run [OF that] obtain q where run: "ensurePiHoleEnvCM K s = (q, s')" ..
    from W [OF conjunct1 [OF ensurePiHoleEnvCM_run [OF run]]] show ?thesis by (simp add: owned_keys_def)
  qed
  show ?W if "ensureReadWriteSTS K s = (r, s')"
    using W [OF ensureReadWriteSTS_writes [OF that]] by (simp add: owned_keys_def)
  show ?W if "ensureReadOnlySTS K s = (r, s')"
    using W [OF ensureReadOnlySTS_writes [OF that]] by (simp add: owned_keys_def)
  show ?W if "ensureIngress K s = (r, s')"
    using W [OF conjunct1 [OF ensureIngress_run [OF that]]] by (simp add: owned_keys_def)
  show ?W if "ensurePodMonitor K s = (r, s')"
    using W [OF conjunct1 [OF ensurePodMonitor_run [OF that]]] by (simp add: owned_keys_def)
  show ?W if "ensureDNSService K s = (r, s')"
    using W [OF conjunct1 [OF ensureDNSService_run [OF that]]] by (simp add: owned_keys_def)
qed simp

lemma operations_write:
  assumes "set ms \<subseteq> set (operations K)" "forR ms (\<lambda>m. m) s = (r, s')"
  shows "writes_only objs (owned_keys (cluster s)) s s'"
proof (rule frame_writes [OF keeps_forR assms(2)])
  fix m
  assume "m \<in> set ms"
  with assms(1) operation_writes have m: "\<forall>s r s'. m s = (r, s') \<longrightarrow> writes_only objs (owned_keys (cluster s)) s s'"
    unfolding list_all_iff by blast
  show "keeps (frame objs (cluster s) (owned_keys (cluster s)) (objs (world s))) m"
    by (rule frame_keeps [where g = owned_keys]) (use m owned_kept in auto)
qed

end

text \<open>On a willing server the password stays in place, so one operation after the other succeeds.\<close>

definition provided :: "'w kube \<Rightarrow> ('w \<Rightarrow> (okey \<rightharpoonup> kobj)) \<Rightarrow> 'w rs \<Rightarrow> bool" where
  "provided K objs s \<longleftrightarrow> password_ready objs (cluster s) (world s) \<and> deployable K (cluster s)"

lemma provided_kept:
  assumes "writes_only objs F s t" "\<forall>k \<in> F. fst k \<noteq> SecretKind" "provided K objs s"
  shows "provided K objs t"
proof -
  have k: "spec_kept (cluster s) (cluster t)" using assms(1) by (simp add: writes_only_def)
  note e = spec_keptD [OF k]
  have o: "objs (world t) (SecretKind, ns, n) = objs (world s) (SecretKind, ns, n)" for ns n
    using assms(1,2) unfolding writes_only_def by (metis fst_conv)
  have "password_secret (cluster t) = password_secret (cluster s)" "password_key (cluster t) = password_key (cluster s)"
    "has_secret_ref (cluster t) = has_secret_ref (cluster s)" "pvc_params (cluster t) = pvc_params (cluster s)"
    by (simp_all only: password_secret_def has_secret_ref_def password_key_def pvc_params_def e)
  with assms(3) show ?thesis
    by (simp add: provided_def password_ready_def deployable_def parsable_def e o)
qed

context willing_server
begin

lemma operation_goes_through:
  "list_all (\<lambda>m. \<forall>s. provided K objs s \<longrightarrow> (\<exists>s'. m s = (Ok (), s') \<and> provided K objs s')) (tl (operations K))"
  unfolding operations_def list.sel list.pred_inject
proof (intro conjI allI impI TrueI)
  fix s
  assume p: "provided K objs s"
  then have P: "password_ready objs (cluster s) (world s)" "deployable K (cluster s)" "parsable K (cluster s)"
    by (simp_all add: provided_def deployable_def)
  note kept = provided_kept [OF _ _ p]
  show "\<exists>s'. void (ensurePiHolePVC K) s = (Ok (), s') \<and> provided K objs s'"
    using claim_succeeds [OF P(3)] run_void kept [OF conjunct1 [OF ensurePiHolePVC_writes]] by (force simp: keys)
  show "\<exists>s'. void (ensurePiHoleEnvCM K) s = (Ok (), s') \<and> provided K objs s'"
    using single_upserts_succeed(1) run_void kept [OF conjunct1 [OF ensurePiHoleEnvCM_run]] by (force simp: keys)
  show "\<exists>s'. ensureReadWriteSTS K s = (Ok (), s') \<and> provided K objs s'"
    using readWriteSTS_succeeds [OF P(1,3)] kept [OF ensureReadWriteSTS_writes] by (force simp: keys)
  show "\<exists>s'. ensureReadOnlySTS K s = (Ok (), s') \<and> provided K objs s'"
    using readOnlySTS_succeeds [OF P(1,2)] kept [OF ensureReadOnlySTS_writes] by (force simp: keys)
  show "\<exists>s'. ensureIngress K s = (Ok (), s') \<and> provided K objs s'"
    using single_upserts_succeed(3) kept [OF conjunct1 [OF ensureIngress_run]] by (force simp: keys)
  show "\<exists>s'. ensurePodMonitor K s = (Ok (), s') \<and> provided K objs s'"
    using single_upserts_succeed(2) kept [OF conjunct1 [OF ensurePodMonitor_run]] by (force simp: keys)
  show "\<exists>s'. ensureDNSService K s = (Ok (), s') \<and> provided K objs s'"
    using single_upserts_succeed(4) kept [OF conjunct1 [OF ensureDNSService_run]] by (force simp: keys)
qed simp

lemma sequence_goes_through:
  "set ms \<subseteq> set (tl (operations K)) \<Longrightarrow> provided K objs s \<Longrightarrow> \<exists>s'. forR ms (\<lambda>m. m) s = (Ok (), s') \<and> provided K objs s'"
proof (induction ms arbitrary: s)
  case Nil
  then show ?case by (simp add: ret_def)
next
  case (Cons m ms)
  from Cons.prems(1) operation_goes_through have "\<forall>s. provided K objs s \<longrightarrow> (\<exists>s'. m s = (Ok (), s') \<and> provided K objs s')"
    unfolding list_all_iff by simp
  with Cons.prems(2) obtain t where t: "m s = (Ok (), t)" "provided K objs t" by blast
  from Cons.IH [OF _ t(2)] Cons.prems(1) t(1) show ?case by (simp add: bindR_eq)
qed

end

section \<open>Properties\<close>

text \<open>On a server that refuses no well-formed request, a resource that gives a password, or refers to a
  secret that is there and has the key, is deployed: all eight operations run through, one after the
  other, whatever the server holds already, if the sizes can be parsed and the block \<open>readOnlyVolume\<close> is there.\<close>

theorem operations_go_through:
  assumes "willing_server K objs like" "Config (clSpec (cluster s)) = Some cfg"
    and "apSecretRef (cfgAPIPassword cfg) = None \<and> apPassword (cfgAPIPassword cfg) \<noteq> [] \<or>
      password_ready objs (cluster s) (world s)"
    and "deployable K (cluster s)"
  shows "\<exists>s'. forR (operations K) (\<lambda>m. m) s = (Ok (), s')"
proof -
  from willing_server.secret_succeeds [OF assms(1-3)] obtain x t where
    t: "ensureAPISecret K s = (Ok x, t)" "cluster t = cluster s" "password_ready objs (cluster s) (world t)" by blast
  then have p: "provided K objs t" using assms(4) by (simp add: provided_def)
  obtain ms where ms: "operations K = void (ensureAPISecret K) # ms" "ms = tl (operations K)" by (simp add: operations_def)
  have "forR (operations K) (\<lambda>m. m) s = forR ms (\<lambda>m. m) t"
    using run_void [where m = "ensureAPISecret K", OF t(1)] by (simp add: ms(1) bindR_eq)
  with willing_server.sequence_goes_through [OF assms(1) _ p, of ms] ms(2) show ?thesis by auto
qed


text \<open>C12: a successful \<open>ensureReadOnlySTS\<close> for a positive number of replicas leaves the server holding
  the stateful set \<open><name>-ro\<close> with that number, wired like the read-write one, whose data volume is the
  ephemeral claim or the empty directory the block \<open>readOnlyVolume\<close> asks for. For no replicas it does
  nothing.\<close>

theorem read_only_replicas_are_deployed:
  assumes "api_server K objs like" "ensureReadOnlySTS K s = (Ok (), s')"
  shows "(sint (Replicas (clSpec (cluster s))) \<le> 0 \<longrightarrow> s' = s) \<and>
    (0 < sint (Replicas (clSpec (cluster s))) \<longrightarrow> (\<exists>d v src. established K objs like (OStatefulSet d) s' \<and>
      wired (cluster s) (new_sts (cluster s) (clName (cluster s) @ ''-ro'') ''readonly'' (Replicas (clSpec (cluster s)))) d \<and>
      ReadOnlyVolume (clSpec (cluster s)) = Some v \<and> replica_volume K v src \<and>
      psVolumes (stsPodSpec d) = [\<lparr>volName = ''pihole-data'', volSource = src\<rparr>]))"
proof -
  have "s' = s" if "sint (Replicas (clSpec (cluster s))) \<le> 0"
    using assms(2) that by (simp add: ensureReadOnlySTS_def getCluster_def askR_def bindR_def ret_def)
  with api_server.ensureReadOnlySTS_Ok [OF assms] show ?thesis by fastforce
qed

text \<open>Whatever sequence of the operations runs, and however it ends, every object that is not one of the
  eight of this cluster is left as it was, and of the resource only probes are changed.\<close>

theorem operations_write_only_their_objects:
  assumes "api_server K objs like" "set ms \<subseteq> set (operations K)" "forR ms (\<lambda>m. m) s = (r, s')"
    and "k \<notin> owned_keys (cluster s)"
  shows "objs (world s') k = objs (world s) k \<and> spec_kept (cluster s) (cluster s')"
  using api_server.operations_write [OF assms(1-3)] assms(4) unfolding writes_only_def by blast

text \<open>C32: the ingress the operator creates sends its traffic to a service that no operation creates: after
  a successful sequence of operations that ends with the ingress, the server holds the ingress, and it
  still does not hold a service of the name in its backend if it held none before.\<close>

theorem ingress_backend_is_never_created:
  assumes "api_server K objs like" "set ms \<subseteq> set (operations K)"
    and "forR (ms @ [ensureIngress K]) (\<lambda>m. m) s = (Ok (), s')"
    and "Ingress (clSpec (cluster s)) = Some ing" "ingEnabled ing"
    and "objs (world s) (ServiceKind, clNamespace (cluster s), clName (cluster s) @ ''-rw'') = None"
  shows "\<exists>i. established K objs like (OIngress i) s' \<and> kiHost i = ingDomain ing \<and>
    objs (world s') (ServiceKind, clNamespace (cluster s), kiBackend i) = None"
proof -
  have all: "set (ms @ [ensureIngress K]) \<subseteq> set (operations K)" using assms(2) by (simp add: operations_def)
  have split: "forR (xs @ [m]) (\<lambda>m. m) t = bindR (forR xs (\<lambda>m. m)) (\<lambda>_. m) t" for xs m and t :: "'a rs"
    by (induction xs arbitrary: t) (auto simp: bindR_def ret_def split: prod.splits res.splits)
  from assms(3) obtain t where t: "forR ms (\<lambda>m. m) s = (Ok (), t)" "ensureIngress K t = (Ok (), s')"
    unfolding split by (auto elim: bindR_OkE)
  have k: "spec_kept (cluster s) (cluster t)"
    using api_server.operations_write [OF assms(1,2) t(1)] by (simp add: writes_only_def)
  have "established K objs like (desired_ingress (cluster t) ing) s'"
    using api_server.ensureIngress_run [OF assms(1) t(2)] spec_keptD(11) [OF k] assms(4,5) by simp
  moreover have "desired_ingress (cluster t) ing = desired_ingress (cluster s) ing"
    using spec_keptD(1,2) [OF k] by (simp add: desired_ingress_def instance_labels_def)
  moreover have "(ServiceKind, clNamespace (cluster s), clName (cluster s) @ ''-rw'') \<notin> owned_keys (cluster s)"
    by (simp add: owned_keys_def keys)
  then have "objs (world s') (ServiceKind, clNamespace (cluster s), clName (cluster s) @ ''-rw'') = None"
    using api_server.operations_write [OF assms(1) all assms(3)] assms(6) by (simp add: writes_only_def)
  ultimately show ?thesis by (auto simp: desired_ingress_def)
qed

text \<open>C28: for a claim that exists, a successful \<open>ensurePiHolePVC\<close> writes at most its storage request: the
  server then holds what it makes of the old claim with the new request, so access modes and storage class
  stay those of the old claim whatever the resource says; an equal request is not written.\<close>

theorem claim_update_changes_only_the_request:
  assumes "api_server K objs like" "ensurePiHolePVC K s = (Ok q, s')"
    and "objs (world s) (claim_key (cluster s)) = Some (OPVC old)"
  shows "\<exists>v. parse_quantity K (fst (pvc_params (cluster s))) = Some v \<and>
    (if pvcRequests old = [(''storage'', v)] then objs (world s') = objs (world s)
     else \<exists>x. like (OPVC (old\<lparr>pvcRequests := [(''storage'', v)]\<rparr>)) x \<and>
       objs (world s') = (objs (world s))(claim_key (cluster s) \<mapsto> x))"
proof (cases "parse_quantity K (fst (pvc_params (cluster s)))")
  case None
  with assms(2) show ?thesis
    by (simp add: ensurePiHolePVC_def getCluster_def askR_def bindR_def mustParse_def panic_def)
next
  case (Some v)
  from api_server.ensurePiHolePVC_run [OF assms(1) Some assms(2)] assms(3) Some show ?thesis
    unfolding desired_keys by auto
qed

text \<open>C31: without a password there is no instance. When the resource gives neither a password nor a
  reference and no secret \<open><name>-api-password\<close> exists, \<open>ensureAPISecret\<close> reports success and writes
  nothing, and the read-write set is refused with an error and nothing written.\<close>

theorem cluster_without_password_is_never_deployed:
  assumes "api_server K objs like"
    and "\<forall>cfg. Config (clSpec (cluster s)) = Some cfg \<longrightarrow>
      apPassword (cfgAPIPassword cfg) = [] \<and> apSecretRef (cfgAPIPassword cfg) = None"
    and "objs (world s) (secret_key (cluster s)) = None"
    and "ensureReadWriteSTS K s = (r, s')"
  shows "ensureAPISecret K s = (Ok None, s) \<and> (\<exists>e. r = Err e) \<and> objs (world s') = objs (world s)"
proof -
  have a: "ensureAPISecret K s = (Ok None, s)"
    using assms(2) by (auto simp: ensureAPISecret_def getCluster_def askR_def bindR_def ret_def split: option.splits)
  have "password_secret (cluster s) = clName (cluster s) @ ''-api-password''"
    using assms(2) by (auto simp: password_secret_def split: option.splits)
  then have np: "\<not> password_ready objs (cluster s) (world s)"
    using assms(3) by (simp add: password_ready_def secret_key_def)
  let ?d0 = "new_sts (cluster s) (clName (cluster s) @ ''-rw'') ''readwrite'' 1"
  obtain q t where q: "withPassword K ?d0 s = (q, t)" by (meson surj_pair)
  note P = api_server.withPassword_run [OF assms(1) new_sts_head(2) q]
  have "returns (\<lambda>_. True) (withPassword K ?d0)"
    by (rule withPassword_returns [OF api_server.typed [OF assms(1)]]) (simp add: probe_closed_def outer_def)
  from returnsD [OF this TrueI q] P np obtain e where "q = Err e" by (auto simp: settled_def)
  with q assms(4) have "r = Err e" "s' = t"
    by (simp_all add: ensureReadWriteSTS_def getCluster_def askR_def bindR_def Let_def)
  with P a show ?thesis by simp
qed

text \<open>After the mutating webhook and with sizes that can be parsed, no operation panics or blocks: each
  of the eight ends with a value or an error.\<close>

theorem operations_of_a_defaulted_cluster_return:
  assumes "api_server K objs like" "Default (ClusterObj c) = Ok (ClusterObj c')"
    and "clSpec (cluster s) = clSpec c'" "parsable K (cluster s)"
    and "m \<in> set (operations K)"
  shows "settled (fst (m s))"
proof -
  let ?I = "\<lambda>t. spec_kept (cluster s) (cluster t)"
  have rov: "ReadOnlyVolume (clSpec (cluster s)) \<noteq> None"
    using assms(2,3) by (auto simp: Default_def default_defs split: option.splits)
  have I: "probe_closed ?I"
    using spec_kept_trans by (auto simp: probe_closed_def outer_def)
  have par: "parsable K d \<and> deployable K d" if "spec_kept (cluster s) d" for d
    using assms(4) rov spec_keptD [OF that] by (auto simp: deployable_def parsable_def pvc_params_def)
  note O = probe_closedD [OF I] and A = assms(1)
  have "list_all (returns ?I) (operations K)"
    unfolding operations_def list.pred_inject
    using api_server.single_upserts_return [OF A O(1)] api_server.ensurePiHolePVC_returns [OF A O(2)]
      api_server.ensureReadWriteSTS_returns [OF A I] api_server.ensureReadOnlySTS_returns [OF A I] par
    by (intro conjI TrueI returns_bindR returns_basic) (simp_all add: void_def returns_bindR returns_basic)
  with assms(5) have "returns ?I m" by (simp add: list_all_iff)
  then show ?thesis by (simp add: returns_def spec_kept_refl)
qed

text \<open>Without the webhook the block \<open>readOnlyVolume\<close> may be absent; then \<open>ensureReadOnlySTS\<close> never
  succeeds for a positive number of replicas, and once the password and the environment are there the nil
  pointer is dereferenced.\<close>

theorem replicas_without_volume_block_never_deployed:
  assumes "api_server K objs like" "ReadOnlyVolume (clSpec (cluster s)) = None"
    and "0 < sint (Replicas (clSpec (cluster s)))"
  shows "ensureReadOnlySTS K s \<noteq> (Ok (), s')"
  using api_server.ensureReadOnlySTS_Ok [OF assms(1) _ assms(3)] assms(2) by auto

text \<open>The read-only pods count as ready exactly when the stateful set is there and reports a ready
  replica, some pod is listed, and the number of ready pods among those listed is the number of replicas
  the stateful set asks for; the read-write pods when one of those listed is ready.\<close>

theorem readiness_of_the_pods:
  assumes "k_get K StatefulSetKind (clNamespace (cluster s)) (clName (cluster s) @ ''-ro'') (world s) = (Inr (OStatefulSet ss), w)"
    and "k_list_pods K (clNamespace (cluster s)) (sts_labels (cluster s) ''readonly'') w = (Inr ros, w')"
    and "k_list_pods K (clNamespace (cluster s)) (sts_labels (cluster s) ''readwrite'') (world s) = (Inr rws, w'')"
    and "stsReplicas ss = Some n"
  shows "fst (areROPodsReady K s) = Ok (stsReadyReplicas ss \<noteq> 0 \<and> ros \<noteq> [] \<and>
      int (card {i. i < length ros \<and> IsPodReady (ros ! i)}) = sint n) \<and>
    fst (areRWPodsReady K s) = Ok (\<exists>p \<in> set rws. IsPodReady p)"
  using assms
  by (auto simp: areROPodsReady_def areRWPodsReady_def getCluster_def askR_def bindR_def tryR_def callW_def callR_def
      ctxR_def ret_def asStatefulSet_def Let_def length_filter_conv_card list_ex_iff)

lemma map_of_merge: "distinct (mkeys labels) \<Longrightarrow> map_of (merge_labels base labels) = map_of base ++ map_of labels"
proof (induction labels arbitrary: base)
  case (Cons kv labels)
  obtain k v where kv: "kv = (k, v)" by (cases kv)
  have "merge_labels base ((k, v) # labels) = merge_labels (mput k v base) labels" by (simp add: merge_labels_def)
  with Cons kv have "map_of (merge_labels base (kv # labels)) = (map_of base)(k \<mapsto> v) ++ map_of labels" by simp
  moreover have "map_of labels k = None" using Cons.prems kv by (simp add: map_of_eq_None_iff)
  ultimately show ?case by (auto simp: kv map_add_def fun_eq_iff split: option.splits)
qed (simp add: merge_labels_def)

text \<open>The DNS service selects the pods of both stateful sets of its cluster, and of no cluster with
  another name; the label with the role keeps the two sets apart. Labels of the resource win over those of
  the operator on the service itself, and never reach its selector.\<close>

theorem dns_service_selects_the_pods_of_its_cluster:
  assumes "Service (clSpec cl) = Some sv" "distinct (mkeys (svcLabels sv))"
  shows "map_of (omLabels (ksMeta (desired_service cl))) = map_of (instance_labels cl) ++ map_of (svcLabels sv) \<and>
    (set (ksSelector (desired_service cl)) \<subseteq> set (sts_labels c role) \<longleftrightarrow> clName c = clName cl) \<and>
    set (sts_labels cl ''readwrite'') \<inter> set (sts_labels cl ''readonly'') = set (instance_labels cl)"
proof (intro conjI)
  have sel: "ksSelector (desired_service cl) = instance_labels cl"
    by (auto simp: desired_service_def base_service_def Let_def split: option.splits)
  show "set (ksSelector (desired_service cl)) \<subseteq> set (sts_labels c role) \<longleftrightarrow> clName c = clName cl"
    unfolding sel by (auto simp: sts_labels_def instance_labels_def)
  show "set (sts_labels cl ''readwrite'') \<inter> set (sts_labels cl ''readonly'') = set (instance_labels cl)"
    by (auto simp: sts_labels_def instance_labels_def)
  have "omLabels (ksMeta (desired_service cl)) =
      (if svcLabels sv \<noteq> [] then merge_labels (instance_labels cl) (svcLabels sv) else instance_labels cl)"
    using assms(1) by (simp add: desired_service_def base_service_def mk_meta_def Let_def)
  then show "map_of (omLabels (ksMeta (desired_service cl))) = map_of (instance_labels cl) ++ map_of (svcLabels sv)"
    using map_of_merge [OF assms(2)] by simp
qed

section \<open>Concrete runs\<close>

text \<open>A cluster with a password, two replicas on ephemeral claims, an ingress, an exporter and a label of
  its own, on the reference server.\<close>

definition site_spec :: PiHoleClusterSpec where
  "site_spec = zero_spec\<lparr>Replicas := 2,
     ReadOnlyVolume := Some \<lparr>ReadOnlyVolumeType = ''ephemeral'', rovSize = ''5Gi'', rovStorageClassName = None,
       rovAccessModes = [''ReadWriteOnce'']\<rparr>,
     Ingress := Some \<lparr>ingEnabled = True, ingDomain = ''dns.example''\<rparr>,
     Monitoring := Some \<lparr>monExporter = Some (zero_exporter\<lparr>expEnabled := True\<rparr>), monPodMonitor = Some \<lparr>pmEnabled = True\<rparr>\<rparr>,
     Service := Some \<lparr>svcType = [], svcExternalTrafficPolicy = [], svcClusterIP = [], svcAnnotations = [],
       svcLabels = [(''team'', ''net'')]\<rparr>,
     Config := Some \<lparr>cfgAPIPassword = \<lparr>apPassword = ''pw'', apSecretRef = None\<rparr>, cfgEnvVars = [(''A'', ''1'')],
       cfgAdLists = []\<rparr>\<rparr>"

definition site :: PiHoleCluster where
  "site = some_cluster\<lparr>clSpec := site_spec\<rparr>"

abbreviation site_kube :: "cellar kube" where
  "site_kube \<equiv> cellar_kube [] site"

definition password_object :: kobj where
  "password_object = OSecret \<lparr>scMeta = mk_meta ''pi-api-password'' ''dns'' [], scData = [(''password'', ''pw'')]\<rparr>"

definition site_state :: "PiHoleCluster \<Rightarrow> kobj list \<Rightarrow> cellar rs" where
  "site_state cl xs = new_rs cl (map (\<lambda>x. (key_of x, stamp x)) xs)"

lemma ok_run: "case fst (m s) of Ok y \<Rightarrow> True | _ \<Rightarrow> False \<Longrightarrow> \<exists>y s'. m s = (Ok y, s')"
  by (cases "m s") (auto split: res.splits)

lemma site_state_cluster [simp]: "cluster (site_state cl xs) = cl"
  by (simp add: site_state_def new_rs_def)

lemma site_given:
  "Config (clSpec site) = Some \<lparr>cfgAPIPassword = \<lparr>apPassword = ''pw'', apSecretRef = None\<rparr>, cfgEnvVars = [(''A'', ''1'')],
     cfgAdLists = []\<rparr>"
  "Replicas (clSpec site) = 2" "deployable (cellar_kube pods cl) site" "parsable (cellar_kube pods cl) site"
  by (simp_all add: site_def site_spec_def deployable_def parsable_def cellar_kube_def static_kube_def)

theorem operations_go_through_witness:
  "\<exists>s'. forR (operations site_kube) (\<lambda>m. m) (site_state site []) = (Ok (), s')"
  by (rule operations_go_through [OF willing_cellar.willing_server_axioms])
     (unfold site_state_cluster, rule site_given, simp, rule site_given)

text \<open>With the password in place, each operation succeeds.\<close>

lemma site_password: "password_ready cellar_objs site (world (site_state site [password_object]))"
proof -
  have k: "key_of password_object = secret_key site"
    by (simp add: key_of_def password_object_def mk_meta_def keys site_def some_cluster_def)
  have "\<not> has_secret_ref site" "password_secret site = clName site @ ''-api-password''"
    by (simp_all add: has_secret_ref_def password_secret_def site_given)
  moreover have "cellar_objs (world (site_state site [password_object])) (secret_key site) = Some (stamp password_object)"
    by (simp add: cellar_objs_def site_state_def new_rs_def k)
  moreover have "\<exists>sec. stamp password_object = OSecret sec" by (simp add: stamp_def password_object_def)
  ultimately show ?thesis by (auto simp: password_ready_def secret_key_def)
qed

lemma rw_run: "\<exists>s'. ensureReadWriteSTS site_kube (site_state site [password_object]) = (Ok (), s')"
  by (rule willing_cellar.readWriteSTS_succeeds) (simp_all add: site_password site_given)

lemma ro_run: "\<exists>s'. ensureReadOnlySTS site_kube (site_state site [password_object]) = (Ok (), s')"
  by (rule willing_cellar.readOnlySTS_succeeds) (simp_all add: site_password site_given)

lemma cellar_parse: "parse_quantity (cellar_kube pods cl) v = Some v"
  by (simp add: cellar_kube_def static_kube_def)


theorem read_only_replicas_are_deployed_witness:
  "\<exists>d. established site_kube cellar_objs stamped (OStatefulSet d)
      (snd (ensureReadOnlySTS site_kube (site_state site [password_object]))) \<and>
    wired site (new_sts site (clName site @ ''-ro'') ''readonly'' 2) d"
proof -
  from ro_run obtain s' where run: "ensureReadOnlySTS site_kube (site_state site [password_object]) = (Ok (), s')" ..
  have "Replicas (clSpec site) = 2" by (simp add: site_def site_spec_def)
  with read_only_replicas_are_deployed [OF cellar.api_server_axioms run] run show ?thesis by auto
qed

theorem operations_write_only_their_objects_witness:
  "cellar_objs (world (snd (forR [ensureDNSService site_kube] (\<lambda>m. m)
     (site_state site [password_object])))) (SecretKind, ''dns'', ''other'') = None"
proof -
  let ?ms = "[ensureDNSService site_kube]"
  obtain r s' where run: "forR ?ms (\<lambda>m. m) (site_state site [password_object]) = (r, s')" by (meson surj_pair)
  have ms: "set ?ms \<subseteq> set (operations site_kube)" by (simp add: operations_def)
  have k: "(SecretKind, ''dns'', ''other'') \<notin> owned_keys (cluster (site_state site [password_object]))"
    by (simp add: owned_keys_def keys site_def some_cluster_def)
  have "cellar_objs (world (site_state site [password_object])) (SecretKind, ''dns'', ''other'') = None"
    by code_simp
  with operations_write_only_their_objects [OF cellar.api_server_axioms ms run k] run show ?thesis by simp
qed

lemma ingress_run: "\<exists>y s'. forR ([ensureDNSService site_kube] @ [ensureIngress site_kube]) (\<lambda>m. m)
    (site_state site [password_object]) = (Ok y, s')"
  by (rule ok_run) code_simp

theorem ingress_backend_is_never_created_witness:
  "\<exists>i s'. established site_kube cellar_objs stamped (OIngress i) s' \<and>
     cellar_objs (world s') (ServiceKind, ''dns'', kiBackend i) = None"
proof -
  let ?ms = "[ensureDNSService site_kube]"
  from ingress_run obtain s' where
    run: "forR (?ms @ [ensureIngress site_kube]) (\<lambda>m. m) (site_state site [password_object]) = (Ok (), s')" by auto
  have ms: "set ?ms \<subseteq> set (operations site_kube)" by (simp add: operations_def)
  have i: "Ingress (clSpec (cluster (site_state site [password_object]))) = Some \<lparr>ingEnabled = True, ingDomain = ''dns.example''\<rparr>"
    "ingEnabled \<lparr>ingEnabled = True, ingDomain = ''dns.example''\<rparr>"
    by (simp_all add: site_def site_spec_def)
  have none: "cellar_objs (world (site_state site [password_object])) (ServiceKind,
      clNamespace (cluster (site_state site [password_object])), clName (cluster (site_state site [password_object])) @ ''-rw'') = None"
    by code_simp
  have "clNamespace (cluster (site_state site [password_object])) = ''dns''" by (simp add: site_def some_cluster_def)
  with ingress_backend_is_never_created [OF cellar.api_server_axioms ms run i none] show ?thesis by auto
qed

definition old_claim :: PVC where
  "old_claim = (desired_pvc site ''5Gi'')\<lparr>pvcStorageClassName := Some ''slow''\<rparr>"

lemma claim_run: "\<exists>y s'. ensurePiHolePVC site_kube (site_state site [OPVC old_claim]) = (Ok y, s')"
  by (rule ok_run) code_simp

theorem claim_update_changes_only_the_request_witness:
  "\<exists>x. stamped (OPVC (old_claim\<lparr>pvcMeta := (pvcMeta old_claim)\<lparr>omVersion := ''1''\<rparr>, pvcRequests := [(''storage'', ''10Gi'')]\<rparr>)) x \<and>
     cellar_objs (world (snd (ensurePiHolePVC site_kube (site_state site [OPVC old_claim])))) (claim_key site) = Some x"
proof -
  let ?s = "site_state site [OPVC old_claim]"
  from claim_run obtain q s' where run: "ensurePiHolePVC site_kube ?s = (Ok q, s')" by blast
  have k: "key_of (OPVC old_claim) = claim_key site"
    by (simp add: key_of_def old_claim_def desired_pvc_def mk_meta_def keys)
  have st: "stamp (OPVC old_claim) = OPVC (old_claim\<lparr>pvcMeta := (pvcMeta old_claim)\<lparr>omVersion := ''1''\<rparr>\<rparr>)"
    by (simp add: stamp_def)
  have "cellar_objs (world ?s) (claim_key (cluster ?s)) = Some (stamp (OPVC old_claim))"
    by (simp add: site_state_def new_rs_def cellar_objs_def k)
  moreover have "fst (pvc_params site) = ''10Gi''" "pvcRequests old_claim = [(''storage'', ''5Gi'')]"
    by (simp_all add: pvc_params_def site_def site_spec_def zero_spec_def old_claim_def desired_pvc_def)
  ultimately show ?thesis
    using claim_update_changes_only_the_request [OF cellar.api_server_axioms run] run
    by (auto simp: cellar_parse st)
qed

definition open_site :: PiHoleCluster where
  "open_site = site\<lparr>clSpec := site_spec\<lparr>Config := None\<rparr>\<rparr>"

theorem cluster_without_password_is_never_deployed_witness:
  "\<exists>e. fst (ensureReadWriteSTS site_kube (site_state open_site [])) = Err e"
proof -
  obtain r s' where run: "ensureReadWriteSTS site_kube (site_state open_site []) = (r, s')" by (meson surj_pair)
  have c: "\<forall>cfg. Config (clSpec (cluster (site_state open_site []))) = Some cfg \<longrightarrow>
      apPassword (cfgAPIPassword cfg) = [] \<and> apSecretRef (cfgAPIPassword cfg) = None"
    by (simp add: open_site_def)
  have n: "cellar_objs (world (site_state open_site [])) (secret_key (cluster (site_state open_site []))) = None"
    by (simp add: site_state_def new_rs_def cellar_objs_def)
  from cluster_without_password_is_never_deployed [OF cellar.api_server_axioms c n run] run show ?thesis by auto
qed

theorem operations_of_a_defaulted_cluster_return_witness:
  "settled (fst (ensureReadOnlySTS site_kube (site_state (site\<lparr>clSpec :=
     default_rov (default_sync (default_monitoring (default_ingress (zero_spec\<lparr>Replicas := 2\<rparr>))))\<rparr>) [password_object])))"
    (is "settled (fst (_ (site_state (site\<lparr>clSpec := ?sp\<rparr>) _)))")
proof -
  have "Default (ClusterObj (site\<lparr>clSpec := zero_spec\<lparr>Replicas := 2\<rparr>\<rparr>)) = Ok (ClusterObj (site\<lparr>clSpec := ?sp\<rparr>))"
    by (simp add: Default_def)
  then show ?thesis
    by (rule operations_of_a_defaulted_cluster_return [OF cellar.api_server_axioms [of "[]" site]])
       (simp_all add: parsable_def cellar_parse operations_def)
qed

theorem replicas_without_volume_block_never_deployed_witness:
  "ensureReadOnlySTS site_kube (site_state (site\<lparr>clSpec := site_spec\<lparr>ReadOnlyVolume := None\<rparr>\<rparr>) [password_object]) \<noteq> (Ok (), site_state site [])"
  by (rule replicas_without_volume_block_never_deployed [OF cellar.api_server_axioms]) (simp_all add: site_spec_def)

definition ready_pod :: Pod where
  "ready_pod = \<lparr>podName = ''pi-ro-0'', podUID = ''u'', podIP = ''10.0.0.2'', podConditions = [\<lparr>pcType = ''Ready'', pcStatus = ''True''\<rparr>]\<rparr>"

theorem readiness_of_the_pods_witness:
  "fst (areRWPodsReady (static_kube [ready_pod] [OStatefulSet ((new_sts site ''pi-ro'' ''readonly'' 2)\<lparr>stsReadyReplicas := 1\<rparr>)] site)
     (new_rs site ())) = Ok True"
proof -
  let ?ss = "(new_sts site ''pi-ro'' ''readonly'' 2)\<lparr>stsReadyReplicas := 1\<rparr>"
  let ?K = "static_kube [ready_pod] [OStatefulSet ?ss] site" and ?s = "new_rs site ()"
  have "k_get ?K StatefulSetKind (clNamespace (cluster ?s)) (clName (cluster ?s) @ ''-ro'') (world ?s) = (Inr (OStatefulSet ?ss), ())"
    "k_list_pods ?K (clNamespace (cluster ?s)) (sts_labels (cluster ?s) ''readonly'') () = (Inr [ready_pod], ())"
    "k_list_pods ?K (clNamespace (cluster ?s)) (sts_labels (cluster ?s) ''readwrite'') (world ?s) = (Inr [ready_pod], ())"
    "stsReplicas ?ss = Some 2"
    by (simp_all add: static_kube_def new_rs_def new_sts_def mk_meta_def Int32Ptr_def site_def some_cluster_def)
  from readiness_of_the_pods [OF this] show ?thesis by (simp add: ready_pod_def IsPodReady_iff)
qed

theorem dns_service_selects_the_pods_of_its_cluster_witness:
  "map_of (omLabels (ksMeta (desired_service site))) ''team'' = Some ''net''"
proof -
  have "Service (clSpec site) = Some \<lparr>svcType = [], svcExternalTrafficPolicy = [], svcClusterIP = [], svcAnnotations = [],
       svcLabels = [(''team'', ''net'')]\<rparr>" by (simp add: site_def site_spec_def)
  from dns_service_selects_the_pods_of_its_cluster [OF this] show ?thesis by simp
qed

end
