(* ===== verification/Quiet.thy ===== *)
theory Quiet
  imports ConfigSync
begin

text \<open>
  What the synchronisation leaves alone: a property \<open>J\<close> of the world that every call of the Pi-hole
  servers, of the clock and of the API server's part the synchronisation uses keeps, together with a
  property \<open>Q\<close> of the cluster object that does not look at its status, is kept by every operation of the
  API client, by \<open>syncAPIClients\<close> and by \<open>performConfigSync\<close>, whatever they return.
\<close>

section \<open>Calls that keep a property of the world\<close>

definition kept_world :: "('w \<Rightarrow> bool) \<Rightarrow> ('w \<Rightarrow> 'a \<times> 'w) \<Rightarrow> bool" where
  "kept_world J f \<longleftrightarrow> (\<forall>w. J w \<longrightarrow> J (snd (f w)))"

definition net_keeps :: "('w \<Rightarrow> bool) \<Rightarrow> 'w net \<Rightarrow> bool" where
  "net_keeps J N \<longleftrightarrow> (\<forall>t b r. kept_world J (http_do N t b r)) \<and> kept_world J (time_now N) \<and>
     (\<forall>x d. kept_world J (wait N x d)) \<and> kept_world J (boundary N)"

text \<open>\<open>WC J Q\<close>: the world is in \<open>J\<close> and the cluster object in \<open>Q\<close>; \<open>Q\<close> must not look at the status.\<close>

definition WC :: "('w \<Rightarrow> bool) \<Rightarrow> (PiHoleCluster \<Rightarrow> bool) \<Rightarrow> 'w rs \<Rightarrow> bool" where
  "WC J Q s \<longleftrightarrow> J (world s) \<and> Q (cluster s)"

definition status_free :: "(PiHoleCluster \<Rightarrow> bool) \<Rightarrow> bool" where
  "status_free Q \<longleftrightarrow> (\<forall>c st. Q c \<longrightarrow> Q (c\<lparr>clStatus := st\<rparr>))"

text \<open>The calls of the API server the synchronisation makes; \<open>P\<close> are the pauses of its retry helper.\<close>

definition reads_keep :: "('w \<Rightarrow> bool) \<Rightarrow> (PiHoleCluster \<Rightarrow> bool) \<Rightarrow> 'w kube \<Rightarrow> bool" where
  "reads_keep J Q K \<longleftrightarrow> (\<forall>kd ns n. kept_world J (k_get K kd ns n)) \<and> (\<forall>ns ls. kept_world J (k_list_pods K ns ls)) \<and>
     (\<forall>ks. kept_world J (map_order K ks)) \<and>
     (\<forall>c w. J w \<longrightarrow> Q c \<longrightarrow> J (snd (k_status_update K c w)) \<and> (\<forall>d. fst (k_status_update K c w) = Inr d \<longrightarrow> Q d)) \<and>
     (\<exists>P. retrier (retry_on_conflict K) P \<and> kept_by (WC J Q) P) \<and> status_free Q"

lemma keeps_conj: "keeps I m \<Longrightarrow> keeps J m \<Longrightarrow> keeps (\<lambda>s. I s \<and> J s) m"
  by (auto simp: keeps_def)

section \<open>The operations of a client\<close>

lemma client_calls_keep:
  assumes "net_keeps J N"
  shows "keeps (\<lambda>s. J (snd s)) (newRequest N ctx meth url b)" "keeps (\<lambda>s. J (snd s)) (Do N req)"
    "keeps (\<lambda>s. J (snd s)) (now N)" "keeps (\<lambda>s. J (snd s)) client" "keeps (\<lambda>s. J (snd s)) (pureR x)"
    "keeps (\<lambda>s. J (snd s)) (askR (\<lambda>(c, w). case boundary N w of (b, w') \<Rightarrow> (b, (c, w'))))"
    "keeps (\<lambda>s. J (snd s)) (modC f)" "keeps (\<lambda>s. J (snd s)) Lock" "keeps (\<lambda>s. J (snd s)) Unlock"
proof -
  show "keeps (\<lambda>s. J (snd s)) (newRequest N ctx meth url b)" "keeps (\<lambda>s. J (snd s)) (pureR x)"
    unfolding newRequest_def pureR_def by (auto intro!: keeps_intros split: option.splits sum.splits)
  show "keeps (\<lambda>s. J (snd s)) (Do N req)" "keeps (\<lambda>s. J (snd s)) (now N)"
    "keeps (\<lambda>s. J (snd s)) (askR (\<lambda>(c, w). case boundary N w of (b, w') \<Rightarrow> (b, (c, w'))))"
    using assms unfolding Do_def now_def net_keeps_def kept_world_def
    by (auto intro!: keeps_callR keeps_askR simp: case_prod_beta)
  show "keeps (\<lambda>s. J (snd s)) client" "keeps (\<lambda>s. J (snd s)) (modC f)" "keeps (\<lambda>s. J (snd s)) Unlock"
    unfolding client_def modC_def Unlock_def by (auto intro!: keeps_askR keeps_modS simp: case_prod_beta)
  show "keeps (\<lambda>s. J (snd s)) Lock" by (rule keepsI) (auto simp: Lock_def split: prod.splits if_splits)
qed

lemma locked_keeps: "keeps (\<lambda>s. J (snd s)) m \<Longrightarrow> keeps (\<lambda>s. J (snd s)) (locked m)"
  unfolding locked_def
proof (rule keeps_bindR)
  show "keeps (\<lambda>s. J (snd s)) Lock" by (rule keepsI) (auto simp: Lock_def split: prod.splits if_splits)
  assume m: "keeps (\<lambda>s. J (snd s)) m"
  show "keeps (\<lambda>s. J (snd s)) (\<lambda>s. case m s of (Blocked, s') \<Rightarrow> (Blocked, s') | (r, (c, w)) \<Rightarrow> (r, (c\<lparr>mu := False\<rparr>, w)))"
    for x :: unit
  proof (rule keepsI)
    fix s r s'
    assume J: "J (snd s)"
      and run: "(case m s of (Blocked, s') \<Rightarrow> (Blocked, s') | (r, (c, w)) \<Rightarrow> (r, (c\<lparr>mu := False\<rparr>, w))) = (r, s')"
    obtain q t where q: "m s = (q, t)" by (cases "m s")
    from keepsD [OF m J q] q run show "J (snd s')" by (cases q; cases t) auto
  qed
qed

lemma retried_keeps:
  assumes "net_keeps J N" "keeps (\<lambda>s. J (snd s)) f"
  shows "keeps (\<lambda>s. J (snd s)) (retryWithBackoff (sel N ctx) pihole_backoff f)"
  using assms(2)
proof (rule backoff.run_keeps)
  show "kept_by (\<lambda>s. J (snd s)) (pause_of (sel N ctx))"
    using assms(1) by (auto simp: kept_by_def pause_of_def sel_def net_keeps_def kept_world_def case_prod_beta)
qed

lemma api_operations_keep:
  assumes N: "net_keeps J N"
  shows "keeps (\<lambda>s. J (snd s)) (DownloadTeleporter N ctx)" "keeps (\<lambda>s. J (snd s)) (UploadTeleporter N ctx d)"
    "keeps (\<lambda>s. J (snd s)) (GetAdLists N ctx)" "keeps (\<lambda>s. J (snd s)) (PostAdList N ctx a)"
    "keeps (\<lambda>s. J (snd s)) (DeleteAdList N ctx a)" "keeps (\<lambda>s. J (snd s)) (RunGravity N ctx)"
proof -
  note calls = client_calls_keep [OF N] keeps_bindR keeps_ctxR keeps_if keeps_basic
  have "keeps (\<lambda>s. J (snd s)) (doAuth N)" unfolding doAuth_def Let_def by (intro calls)
  then have "keeps (\<lambda>s. J (snd s)) (Authenticate N)"
    unfolding Authenticate_def by (intro locked_keeps retried_keeps N)
  then have auth: "keeps (\<lambda>s. J (snd s)) (ensureAuth N)"
    unfolding ensureAuth_def Let_def by (intro calls)
  show "keeps (\<lambda>s. J (snd s)) (DownloadTeleporter N ctx)" "keeps (\<lambda>s. J (snd s)) (GetAdLists N ctx)"
    "keeps (\<lambda>s. J (snd s)) (PostAdList N ctx a)" "keeps (\<lambda>s. J (snd s)) (DeleteAdList N ctx a)"
    "keeps (\<lambda>s. J (snd s)) (RunGravity N ctx)"
    unfolding DownloadTeleporter_def GetAdLists_def PostAdList_def DeleteAdList_def RunGravity_def Let_def
    by (intro calls auth)+
  show "keeps (\<lambda>s. J (snd s)) (UploadTeleporter N ctx d)"
    unfolding UploadTeleporter_def doUpload_def Let_def by (intro calls auth retried_keeps N)
qed

lemma on_client_keeps:
  assumes "keeps (\<lambda>s. J (snd s)) m"
  shows "keeps (WC J Q) (on_client p m)"
proof (cases p)
  case (Some a)
  show ?thesis
  proof (rule keepsI)
    fix s r s'
    assume J: "WC J Q s" and run: "on_client p m s = (r, s')"
    obtain q c w where q: "m (heap s a, world s) = (q, (c, w))" by (metis prod.collapse)
    from keepsD [OF assms _ q] J have "J w" by (simp add: WC_def)
    with run Some q J show "WC J Q s'" by (auto simp: on_client_def WC_def)
  qed
qed (simp add: on_client_def keeps_basic)

section \<open>The synchronisation\<close>

lemma world_calls_keep:
  "kept_world J f \<Longrightarrow> keeps (WC J Q) (callW f)" "kept_world J g \<Longrightarrow> keeps (WC J Q) (askW g)"
  unfolding callW_def askW_def kept_world_def
  by (auto intro!: keeps_callR keeps_askR simp: case_prod_beta WC_def)

lemma own_state_keeps:
  "keeps (WC J Q) getCluster" "keeps (WC J Q) (closeClient p)" "keeps (WC J Q) ReadWriteAPIClient"
  "keeps (WC J Q) (asSecret x)" "keeps (WC J Q) (dropStale pods n)"
proof -
  show c: "keeps (WC J Q) (closeClient p)" for p
    unfolding closeClient_def by (auto intro!: keeps_modS keeps_basic simp: WC_def split: option.splits)
  show "keeps (WC J Q) ReadWriteAPIClient"
    unfolding ReadWriteAPIClient_def Let_def by (auto intro!: keeps_bindR keeps_basic split: option.splits)
  show "keeps (WC J Q) (asSecret x)" unfolding asSecret_def by (cases x) (auto intro: keeps_basic)
  show "keeps (WC J Q) (dropStale pods n)"
    unfolding dropStale_def
    by (auto intro!: keeps_bindR keeps_if keeps_whenR keeps_modS keeps_basic c simp: WC_def split: option.splits)
qed (rule returns_keeps [OF getCluster_returns])

lemma status_changes_keep:
  assumes "status_free Q"
  shows "keeps (WC J Q) (modStatus h)" "keeps (WC J Q) (modCluster (\<lambda>c. addPodSynced c n u))"
  using assms unfolding modStatus_def modCluster_def addPodSynced_def status_free_def
  by (auto intro!: keeps_modS simp: WC_def)

lemma reads_keepD:
  assumes "reads_keep J Q K"
  shows "keeps (WC J Q) (callW (k_get K kd ns n))" "keeps (WC J Q) (callW (k_list_pods K ns ls))"
    "keeps (WC J Q) (askW (map_order K ks))" "keeps (WC J Q) (rangeClients K)"
    "keeps (WC J Q) (getAPISecret K)" "keeps (WC J Q) (UpdateClusterStatusWithRetry K)"
    "keeps (WC J Q) (ReadOnlyAPIClients K)"
proof -
  show g: "keeps (WC J Q) (callW (k_get K kd ns n))" and l: "keeps (WC J Q) (callW (k_list_pods K ns ls))"
    and o: "keeps (WC J Q) (askW (map_order K ks))" for kd ns n ls ks
    using assms unfolding reads_keep_def by (auto intro!: world_calls_keep)
  show r: "keeps (WC J Q) (rangeClients K)"
    unfolding rangeClients_def by (intro keeps_bindR keeps_basic o)
  show "keeps (WC J Q) (getAPISecret K)"
    unfolding getAPISecret_def by (intro keeps_bindR keeps_option keeps_ctxR keeps_if keeps_basic own_state_keeps g)
  show "keeps (WC J Q) (ReadOnlyAPIClients K)"
    unfolding ReadOnlyAPIClients_def Let_def by (intro keeps_bindR keeps_if keeps_basic r)
  from assms obtain P where P: "retrier (retry_on_conflict K) P" "kept_by (WC J Q) P"
    and u: "J w \<Longrightarrow> Q c \<Longrightarrow> J (snd (k_status_update K c w)) \<and> (\<forall>d. fst (k_status_update K c w) = Inr d \<longrightarrow> Q d)" for c w
    unfolding reads_keep_def by metis
  show "keeps (WC J Q) (UpdateClusterStatusWithRetry K)"
    unfolding UpdateClusterStatusWithRetry_def
  proof (rule retrier.run_keeps [OF P(1) _ P(2)], rule keepsI)
    fix s r s'
    assume I: "WC J Q s"
      and run: "bindR getCluster (\<lambda>cl. bindR (callW (k_status_update K cl)) (\<lambda>cl. modCluster (\<lambda>_. cl))) s = (r, s')"
    obtain x w where x: "k_status_update K (cluster s) (world s) = (x, w)" by (meson surj_pair)
    with u [of "world s" "cluster s"] I have "J w" "\<And>d. x = Inr d \<Longrightarrow> Q d" by (auto simp: WC_def)
    with run x I show "WC J Q s'"
      by (cases x) (auto simp: getCluster_def askR_def bindR_def callW_def callR_def modCluster_def modS_def WC_def)
  qed
qed

lemma createClient_keeps: "reads_keep J Q K \<Longrightarrow> keeps (WC J Q) (createClient K p)"
  unfolding createClient_def Let_def
  by (intro keeps_bindR keeps_ctxR reads_keepD) (auto intro!: keeps_modS simp: WC_def)

lemma syncAPIClients_keeps_world:
  assumes "reads_keep J Q K"
  shows "keeps (WC J Q) (syncAPIClients K)"
  unfolding syncAPIClients_def refreshClient_def
  by (intro keeps_bindR keeps_ctxR keeps_forR keeps_if keeps_option keeps_basic own_state_keeps
      reads_keepD [OF assms] createClient_keeps [OF assms])

lemma syncAdLists_keeps_world:
  assumes K: "reads_keep J Q K" and N: "net_keeps J N"
  shows "keeps (WC J Q) (syncAdLists K N ctx)"
  unfolding syncAdLists_def syncRW_def syncRO_def sync_rw_def sync_ro_def post_missing_def delete_lists_def range_keys_def Let_def
  by (intro keeps_bindR keeps_ctxR keeps_forR keeps_if keeps_option keeps_whenR keeps_basic own_state_keeps
      reads_keepD [OF K] on_client_keeps api_operations_keep [OF N])

lemma performConfigSync_keeps_world:
  assumes K: "reads_keep J Q K" and N: "net_keeps J N"
  shows "keeps (WC J Q) (performConfigSync K N ctx)"
proof -
  have t: "kept_world J (time_now N)" and f: "status_free Q" using N K by (simp_all add: net_keeps_def reads_keep_def)
  have stamp: "keeps (WC J Q) (stampStatus K N g)" for g
    unfolding stampStatus_def
    by (intro keeps_bindR keeps_tryR keeps_basic status_changes_keep [OF f] world_calls_keep t reads_keepD [OF K])
  show ?thesis
    unfolding performConfigSync_def uploadTo_def adListStage_def Let_def
    by (intro keeps_bindR keeps_ctxR keeps_tryR keeps_forR keeps_if keeps_option keeps_sum keeps_whenR keeps_basic
        own_state_keeps reads_keepD [OF K] on_client_keeps api_operations_keep [OF N] syncAdLists_keeps_world [OF K N] stamp
        status_changes_keep [OF f])
qed

end
