(* ===== verification/Controller.thy ===== *)
theory Controller
  imports Status Deployment Quiet
begin

text \<open>
  \<open>internal/controller/piholecluster/piholecluster_controller.go\<close>: one reconciliation of a resource,
  from fetching it to its status, and the handling of the finalizer. The pointer \<open>cluster\<close> that the
  handlers pass on is the field \<open>cluster\<close> of the state.
\<close>

section \<open>The code\<close>

definition fetchCluster :: "'w kube \<Rightarrow> string \<Rightarrow> string \<Rightarrow> ('w rs, unit) prog" where
  "fetchCluster K ns name =
     bindR (tryR (callW (k_get_cluster K ns name))) (\<lambda>got.
     case got of
       Inl err \<Rightarrow>
         if IsNotFound err then fail (Wrapf ''PiHoleCluster (%w) not found, it may have been deleted'' [] err)
         else fail (Wrapf ''failed to get PiHoleCluster'' [] err)
     | Inr cl \<Rightarrow> modS (\<lambda>s. s\<lparr>currentClusterName := clName cl, cluster := cl\<rparr>))"

definition updateCluster :: "'w kube \<Rightarrow> ('w rs, unit) prog" where
  "updateCluster K =
     bindR getCluster (\<lambda>cl. bindR (callW (k_update_cluster K cl)) (\<lambda>cl. modCluster (\<lambda>_. cl)))"

text \<open>The result of a reconciliation is the field \<open>RequeueAfter\<close>.\<close>

definition addFinalizer :: "'w kube \<Rightarrow> ('w rs, duration) prog" where
  "addFinalizer K =
     bindR (modCluster (\<lambda>c. c\<lparr>clFinalizers := clFinalizers c @ [finalizer]\<rparr>)) (\<lambda>_.
     bindR (wrap ''adding finalizer'' (updateCluster K)) (\<lambda>_.
     ret (5 * second)))"

definition syncStage :: "'w kube \<Rightarrow> 'w net \<Rightarrow> ctx \<Rightarrow> ('w rs, unit) prog" where
  "syncStage K N ctx =
     bindR (wrap ''checking RO pod readiness'' (areROPodsReady K)) (\<lambda>ready.
     if \<not> ready then fail (Errorf ''ro pods not ready'' [])
     else
     bindR (wrap ''sync API clients'' (syncAPIClients K)) (\<lambda>_.
     wrap ''perform config sync'' (performConfigSync K N ctx)))"

definition replicaStage :: "'w kube \<Rightarrow> ('w rs, unit) prog" where
  "replicaStage K =
     bindR (wrap ''checking RW pod readiness'' (areRWPodsReady K)) (\<lambda>ready.
     if \<not> ready then fail (Errorf ''rw pods not ready'' [])
     else wrap ''ensureReadOnlySTS'' (ensureReadOnlySTS K))"

text \<open>A stage under a condition on the resource as it is when the stage is reached.\<close>

definition whenCluster :: "(PiHoleCluster \<Rightarrow> bool) \<Rightarrow> ('w rs, unit) prog \<Rightarrow> ('w rs, unit) prog" where
  "whenCluster b m = bindR getCluster (\<lambda>cl. whenR (b cl) m)"

definition ensureResources :: "'w kube \<Rightarrow> 'w net \<Rightarrow> ctx \<Rightarrow> ('w rs, unit) prog" where
  "ensureResources K N ctx =
     bindR (wrap ''ensureAPISecret'' (ensureAPISecret K)) (\<lambda>_.
     bindR (wrap ''ensurePiHolePVC'' (ensurePiHolePVC K)) (\<lambda>_.
     bindR (wrap ''ensureReadWriteSTS'' (ensureReadWriteSTS K)) (\<lambda>_.
     bindR (whenCluster (\<lambda>cl. 0 < sint (Replicas (clSpec cl))) (replicaStage K)) (\<lambda>_.
     bindR (whenCluster (\<lambda>cl. Sync (clSpec cl) \<noteq> None \<and> 0 < sint (Replicas (clSpec cl))) (syncStage K N ctx)) (\<lambda>_.
     bindR (whenCluster ingressEnabled (wrap ''ensureIngress'' (ensureIngress K))) (\<lambda>_.
     bindR (whenCluster podMonitorEnabled (wrap ''ensurePodMonitor'' (ensurePodMonitor K))) (\<lambda>_.
     wrap ''ensureDNSService'' (ensureDNSService K))))))))"

text \<open>The loop ranges over the map; an entry holds the pointer to its client.\<close>

definition closeAll :: "'w kube \<Rightarrow> ('w rs, unit) prog" where
  "closeAll K =
     bindR (rangeClients K) (\<lambda>names.
     forR names (\<lambda>name. bindR getS (\<lambda>s.
       case map_of (ApiClients s) name of
         None \<Rightarrow> panic ''nil pointer dereference''
       | Some pod \<Rightarrow> closeClient (enClient pod))))"

definition handleDelete :: "'w kube \<Rightarrow> ('w rs, duration) prog" where
  "handleDelete K =
     bindR (closeAll K) (\<lambda>_.
     bindR (modS (\<lambda>s. s\<lparr>ApiClients := []\<rparr>)) (\<lambda>_.
     bindR (modCluster (\<lambda>c. c\<lparr>clFinalizers := RemoveString (clFinalizers c) finalizer\<rparr>)) (\<lambda>_.
     bindR (wrap ''removing finalizer'' (updateCluster K)) (\<lambda>_.
     ret (5 * second)))))"

definition Reconcile :: "'w kube \<Rightarrow> 'w net \<Rightarrow> ctx \<Rightarrow> string \<Rightarrow> string \<Rightarrow> ('w rs, duration) prog" where
  "Reconcile K N ctx ns name =
     bindR (fetchCluster K ns name) (\<lambda>_.
     bindR getCluster (\<lambda>cl.
     if \<not> ContainsString (clFinalizers cl) finalizer then addFinalizer K
     else if clDeletionTimestamp cl \<noteq> None then handleDelete K
     else
     bindR (wrap ''ensure resources'' (ensureResources K N ctx)) (\<lambda>_.
     bindR (wrap ''resources ready check failed'' (resourcesReady K)) (\<lambda>ready.
     bindR (wrap ''update status'' (updateStatus K ready [])) (\<lambda>_.
     ret 0)))))"

section \<open>The same resource\<close>

text \<open>Everything the stages decide on: all but the status, the probes and the version.\<close>

definition same_resource :: "PiHoleCluster \<Rightarrow> PiHoleCluster \<Rightarrow> bool" where
  "same_resource c d \<longleftrightarrow> clName d = clName c \<and> clNamespace d = clNamespace c \<and> Config (clSpec d) = Config (clSpec c) \<and>
     Replicas (clSpec d) = Replicas (clSpec c) \<and> ReadOnlyVolume (clSpec d) = ReadOnlyVolume (clSpec c) \<and>
     Sync (clSpec d) = Sync (clSpec c) \<and> Ingress (clSpec d) = Ingress (clSpec c) \<and> Service (clSpec d) = Service (clSpec c) \<and>
     Persistence (clSpec d) = Persistence (clSpec c) \<and> podMonitorEnabled d = podMonitorEnabled c \<and>
     exporterEnabled d = exporterEnabled c"

lemma same_refl: "same_resource c c"
  by (simp add: same_resource_def)

lemma same_trans: "same_resource c d \<Longrightarrow> same_resource d e \<Longrightarrow> same_resource c e"
  by (simp add: same_resource_def)

lemma spec_kept_same: "spec_kept c d \<Longrightarrow> same_resource c d"
  using spec_keptD [of c d] by (simp add: same_resource_def)

lemma same_status: "status_free (same_resource c)"
  by (auto simp: status_free_def same_resource_def podMonitorEnabled_def exporterEnabled_def)

lemma same_keys:
  assumes "same_resource c d"
  shows "secret_key d = secret_key c" "env_key d = env_key c" "claim_key d = claim_key c" "sts_key d x = sts_key c x"
    "service_key d = service_key c" "ingress_key d = ingress_key c" "monitor_key d = monitor_key c"
  using assms by (simp_all add: same_resource_def keys)

text \<open>A stage writes only objects of \<open>F\<close>.\<close>

definition stage :: "('w \<Rightarrow> (okey \<rightharpoonup> kobj)) \<Rightarrow> okey set \<Rightarrow> 'w rs \<Rightarrow> 'w rs \<Rightarrow> bool" where
  "stage objs F s t \<longleftrightarrow> same_resource (cluster s) (cluster t) \<and> (\<forall>k. k \<notin> F \<longrightarrow> objs (world t) k = objs (world s) k)"

lemma stage_refl: "stage objs F s s"
  by (simp add: stage_def same_refl)

lemma stage_trans: "stage objs F s t \<Longrightarrow> stage objs F t u \<Longrightarrow> stage objs F s u"
  unfolding stage_def using same_trans by metis

lemma stage_mono: "stage objs F s t \<Longrightarrow> F \<subseteq> G \<Longrightarrow> stage objs G s t"
  by (auto simp: stage_def)

lemma writes_stage: "writes_only objs F s t \<Longrightarrow> stage objs F s t"
  by (simp add: writes_only_def stage_def spec_kept_same)

text \<open>The server holds what it makes of \<open>d\<close>, with the resource as the owner.\<close>

definition held :: "'w kube \<Rightarrow> ('w \<Rightarrow> (okey \<rightharpoonup> kobj)) \<Rightarrow> (kobj \<Rightarrow> kobj \<Rightarrow> bool) \<Rightarrow> kobj \<Rightarrow> 'w rs \<Rightarrow> bool" where
  "held K objs like d s \<longleftrightarrow> (\<exists>c d' x. same_resource (cluster s) c \<and> set_controller_ref K c d = Inr d' \<and> like d' x \<and>
     objs (world s) (key_of d) = Some x)"

lemma established_held: "established K objs like d s \<Longrightarrow> held K objs like d s"
  unfolding established_def held_def using same_refl by blast

lemma same_sym: "same_resource c d \<Longrightarrow> same_resource d c"
  by (simp add: same_resource_def)

lemma held_stage: "held K objs like d s \<Longrightarrow> stage objs F s t \<Longrightarrow> key_of d \<notin> F \<Longrightarrow> held K objs like d t"
  unfolding held_def stage_def using same_trans same_sym by metis

lemma whenCluster_run:
  "whenCluster b m s = (r, t) \<Longrightarrow> b (cluster s) \<and> m s = (r, t) \<or> \<not> b (cluster s) \<and> r = Ok () \<and> t = s"
  by (auto simp: whenCluster_def getCluster_def askR_def bindR_def whenR_def ret_def split: if_splits)

lemma desired_same:
  assumes "same_resource c d"
  shows "desired_service d = desired_service c" "desired_ingress d ing = desired_ingress c ing"
    "desired_pod_monitor d = desired_pod_monitor c" "ingressEnabled d = ingressEnabled c"
  using assms
  by (simp_all add: same_resource_def desired_service_def base_service_def desired_ingress_def desired_pod_monitor_def
      instance_labels_def ingressEnabled_def)

text \<open>The instance and its replicas, held by the server.\<close>

definition instance_held :: "'w kube \<Rightarrow> ('w \<Rightarrow> (okey \<rightharpoonup> kobj)) \<Rightarrow> (kobj \<Rightarrow> kobj \<Rightarrow> bool) \<Rightarrow> PiHoleCluster \<Rightarrow> 'w rs \<Rightarrow> bool" where
  "instance_held K objs like cl s \<longleftrightarrow> (\<exists>c d. same_resource cl c \<and> held K objs like (OStatefulSet d) s \<and>
     wired c (new_sts c (clName cl @ ''-rw'') ''readwrite'' 1) d \<and>
     psVolumes (stsPodSpec d) = [\<lparr>volName = ''pihole-data'', volSource = VolPVC (clName cl @ ''-data'')\<rparr>])"

definition replicas_held :: "'w kube \<Rightarrow> ('w \<Rightarrow> (okey \<rightharpoonup> kobj)) \<Rightarrow> (kobj \<Rightarrow> kobj \<Rightarrow> bool) \<Rightarrow> PiHoleCluster \<Rightarrow> 'w rs \<Rightarrow> bool" where
  "replicas_held K objs like cl s \<longleftrightarrow> (\<exists>c d v src. same_resource cl c \<and> held K objs like (OStatefulSet d) s \<and>
     wired c (new_sts c (clName cl @ ''-ro'') ''readonly'' (Replicas (clSpec cl))) d \<and>
     ReadOnlyVolume (clSpec cl) = Some v \<and> replica_volume K v src \<and>
     psVolumes (stsPodSpec d) = [\<lparr>volName = ''pihole-data'', volSource = src\<rparr>])"

text \<open>All that a successful reconciliation leaves behind.\<close>

definition deployed :: "'w kube \<Rightarrow> ('w \<Rightarrow> (okey \<rightharpoonup> kobj)) \<Rightarrow> (kobj \<Rightarrow> kobj \<Rightarrow> bool) \<Rightarrow> PiHoleCluster \<Rightarrow> 'w rs \<Rightarrow> bool" where
  "deployed K objs like c s \<longleftrightarrow> instance_held K objs like c s \<and> objs (world s) (claim_key c) \<noteq> None \<and>
     (0 < sint (Replicas (clSpec c)) \<longrightarrow> replicas_held K objs like c s) \<and>
     held K objs like (OService (desired_service c)) s \<and>
     (\<forall>ing. Ingress (clSpec c) = Some ing \<longrightarrow> ingEnabled ing \<longrightarrow> held K objs like (desired_ingress c ing) s) \<and>
     (podMonitorEnabled c \<longrightarrow> held K objs like (desired_pod_monitor c) s)"

lemma wired_key:
  assumes "wired c (new_sts c n role k) d"
  shows "key_of (OStatefulSet d) = (StatefulSetKind, clNamespace c, n)"
proof -
  have "sts_head d = sts_head (new_sts c n role k)" using assms by (simp add: wired_def)
  then show ?thesis by (simp add: key_of_sts new_sts_head mk_meta_def)
qed

lemma instance_stage:
  assumes "instance_held K objs like cl s" "stage objs F s t" "sts_key cl ''-rw'' \<notin> F"
  shows "instance_held K objs like cl t"
proof -
  from assms(1) obtain c d where c: "same_resource cl c" and h: "held K objs like (OStatefulSet d) s"
    and w: "wired c (new_sts c (clName cl @ ''-rw'') ''readwrite'' 1) d"
    and v: "psVolumes (stsPodSpec d) = [\<lparr>volName = ''pihole-data'', volSource = VolPVC (clName cl @ ''-data'')\<rparr>]"
    unfolding instance_held_def by blast
  have "key_of (OStatefulSet d) \<notin> F" using wired_key [OF w] c assms(3) by (simp add: sts_key_def same_resource_def)
  from held_stage [OF h assms(2) this] c w v show ?thesis unfolding instance_held_def by blast
qed

lemma replicas_stage:
  assumes "replicas_held K objs like cl s" "stage objs F s t" "sts_key cl ''-ro'' \<notin> F"
  shows "replicas_held K objs like cl t"
proof -
  from assms(1) obtain c d v src where c: "same_resource cl c" and h: "held K objs like (OStatefulSet d) s"
    and w: "wired c (new_sts c (clName cl @ ''-ro'') ''readonly'' (Replicas (clSpec cl))) d"
    and v: "ReadOnlyVolume (clSpec cl) = Some v" "replica_volume K v src"
      "psVolumes (stsPodSpec d) = [\<lparr>volName = ''pihole-data'', volSource = src\<rparr>]"
    unfolding replicas_held_def by blast
  have "key_of (OStatefulSet d) \<notin> F" using wired_key [OF w] c assms(3) by (simp add: sts_key_def same_resource_def)
  from held_stage [OF h assms(2) this] c w v show ?thesis unfolding replicas_held_def by blast
qed

section \<open>The world of the operator\<close>

text \<open>
  The interface the reconciliation relies on: an API server as in \<open>api_server\<close>, and no call but
  \<open>Create\<close> and \<open>Update\<close> of an object changes the objects it holds; it answers a status update with the status it
  was sent and the resource it has; it fills in the replicas of a stateful set; ranging over a map visits
  every key once; and \<open>meta.SetStatusCondition\<close> sets one condition.
\<close>

locale operator_world = api_server K objs like
  for K :: "'w kube" and objs :: "'w \<Rightarrow> (okey \<rightharpoonup> kobj)" and like :: "kobj \<Rightarrow> kobj \<Rightarrow> bool" +
  fixes N :: "'w net"
  assumes net_quiet: "net_keeps (\<lambda>w. objs w = f) N"
    and list_quiet: "kept_world (\<lambda>w. objs w = f) (k_list_pods K ns ls)"
    and order_quiet: "kept_world (\<lambda>w. objs w = f) (map_order K ks)"
    and status_quiet: "kept_world (\<lambda>w. objs w = f) (k_status_update K c)"
    and fetch_quiet: "kept_world (\<lambda>w. objs w = f) (k_get_cluster K ns n)"
    and update_quiet: "kept_world (\<lambda>w. objs w = f) (k_update_cluster K c)"
    and condition_quiet: "kept_world (\<lambda>w. objs w = f) (set_status_condition K x cs)"
    and status_echo: "k_status_update K c w = (Inr d, w') \<Longrightarrow> same_resource c d \<and> clStatus d = clStatus c"
    and sized: "sized_sets K"
    and ranges: "ranges_all K"
    and conditions: "condition_law K"

lemma kept_world_step: "kept_world J f \<Longrightarrow> J w \<Longrightarrow> f w = (x, w') \<Longrightarrow> J w'"
  unfolding kept_world_def by (metis snd_conv)

context operator_world
begin

lemma get_quiet: "kept_world (\<lambda>w. objs w = f) (k_get K kd ns n)"
proof -
  have "objs (snd (k_get K kd ns n w)) = objs w" for w
    using get_found get_failed by (cases "k_get K kd ns n w"; cases "fst (k_get K kd ns n w)") fastforce+
  then show ?thesis by (simp add: kept_world_def)
qed

lemma echoes: "echoes K"
  unfolding echoes_def using status_echo by (auto simp: same_resource_def)

lemma quiet_sync: "reads_keep (\<lambda>w. objs w = f) (same_resource c) K"
proof -
  have "kept_by (WC (\<lambda>w. objs w = f) (same_resource c)) (quiet_pause objs)"
    by (auto simp: kept_by_def quiet_pause_def WC_def)
  moreover have "objs (snd (k_status_update K d w)) = f \<and> (\<forall>e. fst (k_status_update K d w) = Inr e \<longrightarrow> same_resource c e)"
    if "objs w = f" "same_resource c d" for d w
    using status_quiet [of f d] that status_echo [of d w] same_trans unfolding kept_world_def by (metis prod.collapse)
  ultimately show ?thesis
    unfolding reads_keep_def using get_quiet list_quiet order_quiet same_status conflicts.retrier_axioms by blast
qed

text \<open>The stages that write no object.\<close>

lemma stage_keeps: "(\<And>f c. keeps (WC (\<lambda>w. objs w = f) (same_resource c)) m) \<Longrightarrow> m s = (r, s') \<Longrightarrow> stage objs {} s s'"
proof -
  assume "\<And>f c. keeps (WC (\<lambda>w. objs w = f) (same_resource c)) m" and run: "m s = (r, s')"
  from keepsD [OF this(1) _ run, of "objs (world s)" "cluster s"] show "stage objs {} s s'"
    by (simp add: WC_def stage_def same_refl)
qed

lemma sync_stages:
  "syncAPIClients K s = (r, s') \<Longrightarrow> stage objs {} s s'"
  "performConfigSync K N ctx s = (r, s') \<Longrightarrow> stage objs {} s s'"
  by (erule stage_keeps [rotated], rule syncAPIClients_keeps_world [OF quiet_sync])
     (erule stage_keeps [rotated], rule performConfigSync_keeps_world [OF quiet_sync net_quiet])

lemma updateStatus_stage: "updateStatus K b msg s = (r, s') \<Longrightarrow> stage objs {} s s'"
proof (erule stage_keeps [rotated])
  fix f c
  let ?I = "WC (\<lambda>w. objs w = f) (same_resource c)"
  have "keeps ?I (setStatusCondition K x)" for x
    unfolding setStatusCondition_def
    by (intro keeps_bindR own_state_keeps world_calls_keep condition_quiet status_changes_keep same_status)
  then show "keeps ?I (updateStatus K b msg)"
    unfolding updateStatus_def
    by (intro keeps_bindR keeps_whenR keeps_ctxR status_changes_keep same_status reads_keepD [OF quiet_sync])
qed

lemma resourcesReady_stage: "resourcesReady K s = (r, s') \<Longrightarrow> stage objs {} s s'"
  using resourcesReady_checks [of s] by (auto simp: checks_def stage_def same_refl)

lemma readiness_stage:
  "areRWPodsReady K s = (r, s') \<Longrightarrow> stage objs {} s s'" "areROPodsReady K s = (r, s') \<Longrightarrow> stage objs {} s s'"
proof (atomize (full), intro conjI impI)
  assume "areRWPodsReady K s = (r, s')"
  then show "stage objs {} s s'"
    by (erule_tac stage_keeps [rotated])
       (auto simp: areRWPodsReady_def intro!: keeps_bindR keeps_ctxR keeps_if keeps_basic own_state_keeps world_calls_keep list_quiet)
next
  assume "areROPodsReady K s = (r, s')"
  moreover have "keeps I (asStatefulSet x)" for I and x
    by (cases x) (simp_all add: asStatefulSet_def keeps_basic)
  ultimately show "stage objs {} s s'"
    by (erule_tac stage_keeps [rotated])
       (auto simp: areROPodsReady_def Let_def intro!: keeps_bindR keeps_tryR keeps_ctxR keeps_if keeps_sum keeps_option keeps_basic
         own_state_keeps world_calls_keep list_quiet get_quiet)
qed

text \<open>The sync stage and the replica stage, when they go through.\<close>

lemma syncStage_Ok:
  assumes "syncStage K N ctx s = (Ok (), s')"
  shows "stage objs {} s s' \<and> fst (areROPodsReady K s) = Ok True"
proof -
  from assms obtain b s1 where b: "areROPodsReady K s = (Ok b, s1)"
    and rest: "(if \<not> b then fail (Errorf ''ro pods not ready'' []) else bindR (wrap ''sync API clients'' (syncAPIClients K)) (\<lambda>_.
     wrap ''perform config sync'' (performConfigSync K N ctx))) s1 = (Ok (), s')"
    unfolding syncStage_def by (auto elim!: bindR_OkE ctxR_OkE)
  from rest have "b" by (cases b) simp_all
  with rest obtain s2 where "syncAPIClients K s1 = (Ok (), s2)" "performConfigSync K N ctx s2 = (Ok (), s')"
    by (auto elim!: bindR_OkE ctxR_OkE)
  from stage_trans [OF readiness_stage(2) [OF b] stage_trans [OF sync_stages(1) [OF this(1)] sync_stages(2) [OF this(2)]]]
  show ?thesis using b \<open>b\<close> by simp
qed

lemma replicaStage_Ok:
  assumes "replicaStage K s = (Ok (), s')"
  shows "fst (areRWPodsReady K s) = Ok True \<and> (\<exists>t. stage objs {} s t \<and> ensureReadOnlySTS K t = (Ok (), s'))"
proof -
  from assms obtain b s1 where b: "areRWPodsReady K s = (Ok b, s1)"
    and rest: "(if \<not> b then fail (Errorf ''rw pods not ready'' []) else wrap ''ensureReadOnlySTS'' (ensureReadOnlySTS K)) s1 = (Ok (), s')"
    unfolding replicaStage_def by (auto elim!: bindR_OkE ctxR_OkE)
  from rest have "b" by (cases b) simp_all
  with rest have "ensureReadOnlySTS K s1 = (Ok (), s')" by (auto elim!: ctxR_OkE)
  with readiness_stage(1) [OF b] b \<open>b\<close> show ?thesis by auto
qed

lemma rw_stage_Ok:
  assumes run: "ensureReadWriteSTS K t = (Ok (), u)" and same: "same_resource c (cluster t)"
  shows "stage objs {claim_key c, env_key c, sts_key c ''-rw''} t u" "instance_held K objs like c u"
    "objs (world u) (claim_key c) \<noteq> None"
proof -
  note k = same_keys [OF same]
  show "stage objs {claim_key c, env_key c, sts_key c ''-rw''} t u"
    using writes_stage [OF ensureReadWriteSTS_writes [OF run]] by (simp add: k)
  have n: "clName (cluster t) = clName c" using same by (simp add: same_resource_def)
  from ensureReadWriteSTS_Ok [OF run] obtain d where d: "established K objs like (OStatefulSet d) u"
    "wired (cluster t) (new_sts (cluster t) (clName c @ ''-rw'') ''readwrite'' 1) d"
    "psVolumes (stsPodSpec d) = [\<lparr>volName = ''pihole-data'', volSource = VolPVC (clName c @ ''-data'')\<rparr>]"
    "objs (world u) (claim_key c) \<noteq> None" unfolding n k by blast
  then show "instance_held K objs like c u" "objs (world u) (claim_key c) \<noteq> None"
    unfolding instance_held_def using same established_held by blast+
qed

lemma ro_stage_Ok:
  assumes run: "replicaStage K t = (Ok (), u)" and same: "same_resource c (cluster t)"
    and pos: "0 < sint (Replicas (clSpec c))"
  shows "stage objs {env_key c, sts_key c ''-ro''} t u" "replicas_held K objs like c u"
proof -
  from replicaStage_Ok [OF run] obtain t' where t': "stage objs {} t t'" "ensureReadOnlySTS K t' = (Ok (), u)" by blast
  have same': "same_resource c (cluster t')" using same t'(1) same_trans by (auto simp: stage_def)
  note k = same_keys [OF same']
  have w: "stage objs {env_key c, sts_key c ''-ro''} t' u"
    using writes_stage [OF ensureReadOnlySTS_writes [OF t'(2)]] by (simp add: k)
  show "stage objs {env_key c, sts_key c ''-ro''} t u"
    by (rule stage_trans [OF stage_mono [OF t'(1)] w]) simp
  have n: "clName (cluster t') = clName c" "Replicas (clSpec (cluster t')) = Replicas (clSpec c)"
    "ReadOnlyVolume (clSpec (cluster t')) = ReadOnlyVolume (clSpec c)"
    using same' by (simp_all add: same_resource_def)
  from ensureReadOnlySTS_Ok [OF t'(2)] pos obtain d v src where d: "established K objs like (OStatefulSet d) u"
    "wired (cluster t') (new_sts (cluster t') (clName c @ ''-ro'') ''readonly'' (Replicas (clSpec c))) d"
    "ReadOnlyVolume (clSpec c) = Some v" "replica_volume K v src"
    "psVolumes (stsPodSpec d) = [\<lparr>volName = ''pihole-data'', volSource = src\<rparr>]" unfolding n by blast
  then show "replicas_held K objs like c u"
    unfolding replicas_held_def using same' established_held by blast
qed

lemma extras_Ok:
  assumes same: "same_resource c (cluster t)"
  shows "whenCluster ingressEnabled (wrap m (ensureIngress K)) t = (Ok (), u) \<Longrightarrow> stage objs {ingress_key c} t u \<and>
      (\<forall>ing. Ingress (clSpec c) = Some ing \<longrightarrow> ingEnabled ing \<longrightarrow> held K objs like (desired_ingress c ing) u)"
    "whenCluster podMonitorEnabled (wrap m (ensurePodMonitor K)) t = (Ok (), u) \<Longrightarrow> stage objs {monitor_key c} t u \<and>
      (podMonitorEnabled c \<longrightarrow> held K objs like (desired_pod_monitor c) u)"
    "ensureDNSService K t = (Ok (), u) \<Longrightarrow> stage objs {service_key c} t u \<and> held K objs like (OService (desired_service c)) u"
proof -
  note k = same_keys [OF same] and d = desired_same [OF same]
  have i: "Ingress (clSpec (cluster t)) = Ingress (clSpec c)" "podMonitorEnabled (cluster t) = podMonitorEnabled c"
    using same by (simp_all add: same_resource_def)
  show "stage objs {service_key c} t u \<and> held K objs like (OService (desired_service c)) u"
    if "ensureDNSService K t = (Ok (), u)"
    using ensureDNSService_run [OF that] writes_stage established_held by (simp add: k d) blast
  show "stage objs {ingress_key c} t u \<and>
      (\<forall>ing. Ingress (clSpec c) = Some ing \<longrightarrow> ingEnabled ing \<longrightarrow> held K objs like (desired_ingress c ing) u)"
    if run: "whenCluster ingressEnabled (wrap m (ensureIngress K)) t = (Ok (), u)"
    using whenCluster_run [OF run]
  proof (elim disjE conjE)
    assume "wrap m (ensureIngress K) t = (Ok (), u)"
    then have "ensureIngress K t = (Ok (), u)" by (rule ctxR_OkE)
    from ensureIngress_run [OF this] show ?thesis using writes_stage established_held by (simp add: k d i) blast
  next
    assume "\<not> ingressEnabled (cluster t)" "u = t"
    then show ?thesis by (auto simp: stage_refl ingressEnabled_def i split: option.splits)
  qed
  show "stage objs {monitor_key c} t u \<and> (podMonitorEnabled c \<longrightarrow> held K objs like (desired_pod_monitor c) u)"
    if run: "whenCluster podMonitorEnabled (wrap m (ensurePodMonitor K)) t = (Ok (), u)"
    using whenCluster_run [OF run]
  proof (elim disjE conjE)
    assume "wrap m (ensurePodMonitor K) t = (Ok (), u)"
    then have "ensurePodMonitor K t = (Ok (), u)" by (rule ctxR_OkE)
    from ensurePodMonitor_run [OF this] show ?thesis using writes_stage established_held by (simp add: k d i) blast
  next
    assume "\<not> podMonitorEnabled (cluster t)" "u = t"
    then show ?thesis by (auto simp: i stage_refl)
  qed
qed

lemma ensureResources_Ok:
  assumes run: "ensureResources K N ctx s = (Ok (), s')"
  defines "c \<equiv> cluster s"
  shows "stage objs (owned_keys c) s s' \<and> deployed K objs like c s'"
proof -
  from run obtain a s1 b s2 s3 s4 s5 s6 s7 where
    1: "ensureAPISecret K s = (Ok a, s1)" and 2: "ensurePiHolePVC K s1 = (Ok b, s2)"
    and 3: "ensureReadWriteSTS K s2 = (Ok (), s3)"
    and 4: "whenCluster (\<lambda>cl. 0 < sint (Replicas (clSpec cl))) (replicaStage K) s3 = (Ok (), s4)"
    and 5: "whenCluster (\<lambda>cl. Sync (clSpec cl) \<noteq> None \<and> 0 < sint (Replicas (clSpec cl))) (syncStage K N ctx) s4 = (Ok (), s5)"
    and 6: "whenCluster ingressEnabled (wrap ''ensureIngress'' (ensureIngress K)) s5 = (Ok (), s6)"
    and 7: "whenCluster podMonitorEnabled (wrap ''ensurePodMonitor'' (ensurePodMonitor K)) s6 = (Ok (), s7)"
    and 8: "ensureDNSService K s7 = (Ok (), s')"
    unfolding ensureResources_def by (auto elim!: bindR_OkE ctxR_OkE)
  let ?G = "owned_keys c"
  note mono = stage_mono [where G = ?G]
  have st1: "stage objs ?G s s1"
    by (rule mono [OF writes_stage [OF ensureAPISecret_run [OF 1, THEN conjunct1]]]) (simp add: owned_keys_def c_def)
  have same: "same_resource c (cluster t)" if "stage objs F s t" for F t using that by (simp add: stage_def c_def)
  have "stage objs {claim_key (cluster s1)} s1 s2"
    by (rule writes_stage [OF ensurePiHolePVC_writes [OF 2, THEN conjunct1]])
  then have st2: "stage objs ?G s s2"
    using stage_trans [OF st1 mono] by (simp add: same_keys [OF same [OF st1]] owned_keys_def)
  note rw = rw_stage_Ok [OF 3 same [OF st2]]
  have st3: "stage objs ?G s s3" using stage_trans [OF st2 mono [OF rw(1)]] by (simp add: owned_keys_def)
  have r3: "Replicas (clSpec (cluster s3)) = Replicas (clSpec c)" "Sync (clSpec (cluster s3)) = Sync (clSpec c)"
    using same [OF st3] by (simp_all add: same_resource_def)
  have ro: "stage objs {env_key c, sts_key c ''-ro''} s3 s4 \<and> (0 < sint (Replicas (clSpec c)) \<longrightarrow> replicas_held K objs like c s4)"
    using whenCluster_run [OF 4] ro_stage_Ok [OF _ same [OF st3]] by (auto simp: r3 stage_refl)
  have st4: "stage objs ?G s s4" using stage_trans [OF st3 mono [OF conjunct1 [OF ro]]] by (simp add: owned_keys_def)
  have sy: "stage objs {} s4 s5" using whenCluster_run [OF 5] syncStage_Ok by (auto simp: stage_refl)
  have st5: "stage objs ?G s s5" using stage_trans [OF st4 mono [OF sy]] by simp
  note ig = extras_Ok(1) [OF same [OF st5] 6]
  have st6: "stage objs ?G s s6" using stage_trans [OF st5 mono [OF conjunct1 [OF ig]]] by (simp add: owned_keys_def)
  note mo = extras_Ok(2) [OF same [OF st6] 7]
  have st7: "stage objs ?G s s7" using stage_trans [OF st6 mono [OF conjunct1 [OF mo]]] by (simp add: owned_keys_def)
  note dns = extras_Ok(3) [OF same [OF st7] 8]
  have st8: "stage objs ?G s s'" using stage_trans [OF st7 mono [OF conjunct1 [OF dns]]] by (simp add: owned_keys_def)
  let ?L = "{ingress_key c, monitor_key c, service_key c}"
  have l5: "stage objs ?L s5 s6" "stage objs ?L s6 s7" "stage objs ?L s7 s'"
    using ig mo dns by (auto elim: stage_mono)
  have late: "stage objs ?L s4 s'"
    using stage_trans [OF stage_mono [OF sy] stage_trans [OF l5(1) stage_trans [OF l5(2,3)]]] by simp
  have later: "stage objs (insert (env_key c) (insert (sts_key c ''-ro'') ?L)) s3 s'"
    by (rule stage_trans [OF stage_mono [OF conjunct1 [OF ro]] stage_mono [OF late]]) auto
  have "instance_held K objs like c s'"
    by (rule instance_stage [OF rw(2) later]) (simp add: keys)
  moreover have "objs (world s') (claim_key c) \<noteq> None"
    using rw(3) later by (simp add: stage_def keys)
  moreover have "0 < sint (Replicas (clSpec c)) \<longrightarrow> replicas_held K objs like c s'"
    using ro replicas_stage [OF _ late] by (auto simp: keys)
  moreover have "held K objs like (desired_ingress c ing) s'" if "Ingress (clSpec c) = Some ing" "ingEnabled ing" for ing
  proof (rule held_stage)
    show "held K objs like (desired_ingress c ing) s6" using ig that by blast
    show "stage objs {monitor_key c, service_key c} s6 s'"
      by (rule stage_trans [OF stage_mono [OF conjunct1 [OF mo]] stage_mono [OF conjunct1 [OF dns]]]) auto
  qed (simp add: keys)
  moreover have "held K objs like (desired_pod_monitor c) s'" if "podMonitorEnabled c"
  proof (rule held_stage)
    show "held K objs like (desired_pod_monitor c) s7" using mo that by blast
    show "stage objs {service_key c} s7 s'" using dns by blast
  qed (simp add: keys)
  ultimately show ?thesis using st8 dns unfolding deployed_def by blast
qed

end

end
