(* ===== verification/Reconciling.thy ===== *)
theory Reconciling
  imports Controller
begin

text \<open>
  The properties of a whole reconciliation: it comes back and keeps the registry of API clients well
  formed, what it leaves behind when it succeeds, and how the deletion of a resource goes.
\<close>

section \<open>A reconciliation comes back\<close>

text \<open>A resource the operator can handle: the block \<open>readOnlyVolume\<close> is there, sizes can be parsed, and
  ad-lists are synchronised only with a block \<open>config\<close>.\<close>

definition fit :: "'w kube \<Rightarrow> PiHoleCluster \<Rightarrow> bool" where
  "fit K c \<longleftrightarrow> deployable K c \<and>
     (\<forall>sy. Sync (clSpec c) = Some sy \<longrightarrow> synAdLists sy \<longrightarrow> Config (clSpec c) \<noteq> None)"

text \<open>The registry is well formed, and the resource is still the one that was fetched.\<close>

definition run_inv :: "PiHoleCluster \<Rightarrow> 'w rs \<Rightarrow> bool" where
  "run_inv c s \<longleftrightarrow> reg_ok s \<and> same_resource c (cluster s)"

lemma reg_ok_outer: "reg_ok (s\<lparr>upVars := v, world := w\<rparr>) = reg_ok s" "reg_ok (s\<lparr>cluster := c\<rparr>) = reg_ok s"
  by (simp_all add: reg_ok_def)

lemma run_inv_closed: "probe_closed (run_inv c)"
  unfolding probe_closed_def outer_def run_inv_def
  using spec_kept_same same_trans by (auto simp: reg_ok_outer)

lemma returns_whenCluster:
  assumes "\<And>d. same_resource c d \<Longrightarrow> b d = b c" "b c \<Longrightarrow> returns (run_inv c) m"
  shows "returns (run_inv c) (whenCluster b m)"
  unfolding whenCluster_def
  by (rule returns_on_cluster [where P = "same_resource c"])
     (auto simp: run_inv_def [abs_def] assms(1) intro!: returns_whenR assms(2) [unfolded run_inv_def [abs_def]])

context operator_world
begin

lemma sync_calls_return:
  assumes "fit K c" "Sync (clSpec c) \<noteq> None"
  shows "returns (run_inv c) (syncAPIClients K)" "returns (run_inv c) (performConfigSync K N ctx)"
proof -
  have "run_inv c s' \<and> settled r" if I: "run_inv c s" and run: "syncAPIClients K s = (r, s')" for s r s'
    using syncAPIClients_registry [OF typed ranges _ run] sync_stages(1) [OF run] I same_trans
    by (auto simp: run_inv_def stage_def)
  then show "returns (run_inv c) (syncAPIClients K)" by (intro returnsI keepsI) blast+
  have "run_inv c s' \<and> settled r" if I: "run_inv c s" and run: "performConfigSync K N ctx s = (r, s')" for s r s'
  proof -
    from I have same: "same_resource c (cluster s)" and ok: "reg_ok s" by (simp_all add: run_inv_def)
    from assms same obtain sy where "Sync (clSpec (cluster s)) = Some sy" "synAdLists sy \<longrightarrow> Config (clSpec (cluster s)) \<noteq> None"
      by (auto simp: fit_def same_resource_def)
    from performConfigSync_registry [OF ranges echoes world_retry ok this run] sync_stages(2) [OF run] same same_trans
    show ?thesis by (auto simp: run_inv_def stage_def)
  qed
  then show "returns (run_inv c) (performConfigSync K N ctx)" by (intro returnsI keepsI) blast+
qed

lemma ensureResources_returns:
  assumes "fit K c"
  shows "returns (run_inv c) (ensureResources K N ctx)"
proof -
  note I = run_inv_closed [of c]
  note O = probe_closedD [OF I]
  have dep: "deployable K (cluster s)" "parsable K (cluster s)" if "run_inv c s" for s
    using that assms by (auto simp: run_inv_def fit_def same_resource_def deployable_def parsable_def pvc_params_def)
  note ops = single_upserts_return [OF O(1)] ensurePiHolePVC_returns [OF O(2) dep(2)]
    ensureReadWriteSTS_returns [OF I dep(2)] ensureReadOnlySTS_returns [OF I dep(1)]
    readiness_returns(1) [OF O(2)] readiness_returns(2) [OF O(2) typed sized]
  have ro: "returns (run_inv c) (replicaStage K)"
    unfolding replicaStage_def by (intro returns_bindR returns_ctxR returns_if returns_basic ops)
  have sy: "returns (run_inv c) (syncStage K N ctx)" if "Sync (clSpec c) \<noteq> None"
    unfolding syncStage_def
    by (intro returns_bindR returns_ctxR returns_if returns_basic ops sync_calls_return [OF assms that])
  show ?thesis
    unfolding ensureResources_def
    by (intro returns_bindR returns_ctxR ops returns_whenCluster ro sy)
       (auto simp: same_resource_def ingressEnabled_def)
qed

lemma updateStatus_returns: "returns (run_inv c) (updateStatus K b msg)"
proof -
  have w: "worldless (reg_ok :: 'w rs \<Rightarrow> bool)" by (rule reg_ok_worldless)
  have m: "returns reg_ok (modStatus f :: ('w rs, unit) prog)" for f
    unfolding modStatus_def modCluster_def by (rule returns_modS) (simp add: reg_ok_outer)
  have "returns reg_ok (setStatusCondition K x)" for x
    unfolding setStatusCondition_def by (intro returns_bindR getCluster_returns worldless_calls w m)
  then have R: "returns reg_ok (updateStatus K b msg)"
    unfolding updateStatus_def
    by (intro returns_bindR returns_ctxR returns_whenR m UpdateStatus_returns [OF w _ world_retry]) (simp_all add: reg_ok_outer)
  have "run_inv c s' \<and> settled r" if I: "run_inv c s" and run: "updateStatus K b msg s = (r, s')" for s r s'
    using keepsD [OF returns_keeps [OF R] _ run] returnsD [OF R _ run] updateStatus_stage [OF run] I same_trans
    by (auto simp: run_inv_def stage_def)
  then show ?thesis by (intro returnsI keepsI) blast+
qed

end

section \<open>The steps before the resources\<close>

lemma fetch_run:
  "k_get_cluster K ns name (world s) = (Inr cl, w) \<Longrightarrow>
     fetchCluster K ns name s = (Ok (), s\<lparr>world := w, currentClusterName := clName cl, cluster := cl\<rparr>)"
  "k_get_cluster K ns name (world s) = (Inl e, w) \<Longrightarrow> \<exists>e'. fetchCluster K ns name s = (Err e', s\<lparr>world := w\<rparr>)"
  by (simp_all add: fetchCluster_def callW_def callR_def tryR_def bindR_def modS_def fail_def)

lemma updateCluster_run:
  "k_update_cluster K (cluster s) (world s) = (Inr d, w) \<Longrightarrow> updateCluster K s = (Ok (), s\<lparr>world := w, cluster := d\<rparr>)"
  "k_update_cluster K (cluster s) (world s) = (Inl e, w) \<Longrightarrow> updateCluster K s = (Err e, s\<lparr>world := w\<rparr>)"
  by (simp_all add: updateCluster_def getCluster_def askR_def callW_def callR_def bindR_def modCluster_def modS_def)

text \<open>The outcome of \<open>addFinalizer\<close> and \<open>handleDelete\<close>: the answer of the server to the update.\<close>

definition updated :: "(gerror + PiHoleCluster) \<times> 'w \<Rightarrow> string \<Rightarrow> 'w rs \<Rightarrow> duration res \<times> 'w rs" where
  "updated out msg t = (case out of
      (Inr d, w) \<Rightarrow> (Ok (5 * second), t\<lparr>world := w, cluster := d\<rparr>)
    | (Inl e, w) \<Rightarrow> (Err (Wrapf msg [] e), t\<lparr>world := w\<rparr>))"

lemma updated_run:
  assumes "cluster t = c" "world t = w"
  shows "bindR (wrap msg (updateCluster K)) (\<lambda>_. ret (5 * second)) t = updated (k_update_cluster K c w) msg t"
proof (cases "k_update_cluster K c w")
  case (Pair x w')
  with assms updateCluster_run [of K t] show ?thesis
    by (cases x) (auto simp: bindR_def ctxR_def ret_def updated_def)
qed

lemma addFinalizer_run:
  "addFinalizer K s = (let c = (cluster s)\<lparr>clFinalizers := clFinalizers (cluster s) @ [finalizer]\<rparr>
     in updated (k_update_cluster K c (world s)) ''adding finalizer'' (s\<lparr>cluster := c\<rparr>))"
proof -
  let ?c = "(cluster s)\<lparr>clFinalizers := clFinalizers (cluster s) @ [finalizer]\<rparr>"
  have "addFinalizer K s = bindR (wrap ''adding finalizer'' (updateCluster K)) (\<lambda>_. ret (5 * second)) (s\<lparr>cluster := ?c\<rparr>)"
    by (simp add: addFinalizer_def modCluster_def modS_def bindR_eq)
  then show ?thesis by (simp add: updated_run Let_def)
qed

text \<open>Closing all clients: the map names every entry once.\<close>

definition pointer :: "(string \<times> ApiClientEntry) list \<Rightarrow> string \<Rightarrow> nat" where
  "pointer M n = the (enClient (the (map_of M n)))"

lemma close_loop:
  assumes "\<And>n. n \<in> set names \<Longrightarrow> \<exists>e a. map_of (ApiClients s) n = Some e \<and> enClient e = Some a"
  shows "forR names (\<lambda>name. bindR getS (\<lambda>s. case map_of (ApiClients s) name of
       None \<Rightarrow> panic ''nil pointer dereference'' | Some pod \<Rightarrow> closeClient (enClient pod))) s =
     (Ok (), s\<lparr>idleClosed := idleClosed s @ map (pointer (ApiClients s)) names\<rparr>)"
  using assms
proof (induction names arbitrary: s)
  case (Cons n names)
  from Cons.prems [of n] obtain e a where e: "map_of (ApiClients s) n = Some e" "enClient e = Some a" by auto
  let ?t = "s\<lparr>idleClosed := idleClosed s @ [a]\<rparr>"
  have "bindR getS (\<lambda>s. case map_of (ApiClients s) n of
       None \<Rightarrow> panic ''nil pointer dereference'' | Some pod \<Rightarrow> closeClient (enClient pod)) s = (Ok (), ?t)"
    using e by (simp add: bindR_def getS_def closeClient_def modS_def)
  moreover have "pointer (ApiClients s) n = a" using e by (simp add: pointer_def)
  ultimately show ?case using Cons.IH [of ?t] Cons.prems by (simp add: bindR_eq)
qed (simp add: ret_def)

lemma reg_ok_pointer:
  assumes "reg_ok s" "map_of (ApiClients s) n = Some e"
  shows "\<exists>a. enClient e = Some a"
  using assms reg_invD(1) unfolding reg_ok_def entry_ok_def by metis

lemma closeAll_run:
  assumes "ranges_all K" "reg_ok s"
  obtains names w where "mset names = mset (mkeys (ApiClients s))"
    and "closeAll K s = (Ok (), s\<lparr>world := w, idleClosed := idleClosed s @ map (pointer (ApiClients s)) names\<rparr>)"
proof -
  obtain names w where r: "rangeClients K s = (Ok names, s\<lparr>world := w\<rparr>)" and m: "mset names = mset (mkeys (ApiClients s))"
    using rangeClients_run [OF assms(1)] by metis
  have "\<exists>e a. map_of (ApiClients (s\<lparr>world := w\<rparr>)) n = Some e \<and> enClient e = Some a" if "n \<in> set names" for n
  proof -
    from that mset_eq_setD [OF m] obtain e where "map_of (ApiClients s) n = Some e"
      by (metis (no_types, lifting) domIff dom_map_of_conv_image_fst image_set option.exhaust)
    with reg_ok_pointer [OF assms(2)] show ?thesis by auto
  qed
  from close_loop [OF this] r have "closeAll K s =
      (Ok (), s\<lparr>world := w, idleClosed := idleClosed s @ map (pointer (ApiClients s)) names\<rparr>)"
    by (simp add: closeAll_def bindR_eq)
  with m that show thesis by blast
qed

text \<open>After that no client is open, so the empty map is a well-formed registry.\<close>

lemma closed_registry:
  assumes "reg_ok s" "mset names = mset (mkeys (ApiClients s))"
  shows "reg_inv (map_of []) (heap s) (nextAddr s) (set (idleClosed s @ map (pointer (ApiClients s)) names))"
proof (rule reg_invI)
  fix a
  assume a: "a < nextAddr s" "a \<notin> set (idleClosed s @ map (pointer (ApiClients s)) names)"
  then obtain n e where n: "map_of (ApiClients s) n = Some e" "enClient e = Some a"
    using reg_invD(3) [of _ _ _ _ a] assms(1) unfolding reg_ok_def by fastforce
  then have "n \<in> set names" using mset_eq_setD [OF assms(2)] map_of_Some_key by fastforce
  moreover have "pointer (ApiClients s) n = a" using n by (simp add: pointer_def)
  ultimately have "a \<in> set (map (pointer (ApiClients s)) names)" by force
  with a(2) show "\<exists>n e. map_of [] n = Some e \<and> enClient e = Some a" by simp
qed simp_all

lemma handleDelete_run:
  assumes "ranges_all K" "reg_ok s"
  obtains names w c where "mset names = mset (mkeys (ApiClients s))"
    and "c = (cluster s)\<lparr>clFinalizers := RemoveString (clFinalizers (cluster s)) finalizer\<rparr>"
    and "handleDelete K s = updated (k_update_cluster K c w) ''removing finalizer''
      (s\<lparr>world := w, idleClosed := idleClosed s @ map (pointer (ApiClients s)) names, ApiClients := [], cluster := c\<rparr>)"
proof -
  from closeAll_run [OF assms] obtain names w where n: "mset names = mset (mkeys (ApiClients s))"
    and r: "closeAll K s = (Ok (), s\<lparr>world := w, idleClosed := idleClosed s @ map (pointer (ApiClients s)) names\<rparr>)" by blast
  let ?c = "(cluster s)\<lparr>clFinalizers := RemoveString (clFinalizers (cluster s)) finalizer\<rparr>"
  let ?t = "s\<lparr>world := w, idleClosed := idleClosed s @ map (pointer (ApiClients s)) names, ApiClients := [], cluster := ?c\<rparr>"
  have "handleDelete K s = bindR (wrap ''removing finalizer'' (updateCluster K)) (\<lambda>_. ret (5 * second)) ?t"
    using r by (simp add: handleDelete_def modCluster_def modS_def bindR_eq)
  also have "\<dots> = updated (k_update_cluster K ?c w) ''removing finalizer'' ?t" by (rule updated_run) simp_all
  finally show thesis by (rule that [OF n refl])
qed

text \<open>The state in which the stages run, and a reconciliation by what was fetched.\<close>

definition fetched :: "PiHoleCluster \<Rightarrow> 'w \<Rightarrow> 'w rs \<Rightarrow> 'w rs" where
  "fetched cl w s = s\<lparr>world := w, currentClusterName := clName cl, cluster := cl\<rparr>"

lemma fetched_simps [simp]:
  "cluster (fetched cl w s) = cl" "world (fetched cl w s) = w" "ApiClients (fetched cl w s) = ApiClients s"
  "reg_ok (fetched cl w s) = reg_ok s" "idleClosed (fetched cl w s) = idleClosed s" "nextAddr (fetched cl w s) = nextAddr s"
  by (simp_all add: fetched_def reg_ok_def)

definition resourceStages :: "'w kube \<Rightarrow> 'w net \<Rightarrow> ctx \<Rightarrow> ('w rs, duration) prog" where
  "resourceStages K N ctx =
     bindR (wrap ''ensure resources'' (ensureResources K N ctx)) (\<lambda>_.
     bindR (wrap ''resources ready check failed'' (resourcesReady K)) (\<lambda>ready.
     bindR (wrap ''update status'' (updateStatus K ready [])) (\<lambda>_.
     ret 0)))"

lemma Reconcile_run:
  "k_get_cluster K ns name (world s) = (Inl e, w) \<Longrightarrow> \<exists>e'. Reconcile K N ctx ns name s = (Err e', s\<lparr>world := w\<rparr>)"
  "k_get_cluster K ns name (world s) = (Inr cl, w) \<Longrightarrow> Reconcile K N ctx ns name s =
     (if finalizer \<notin> set (clFinalizers cl) then addFinalizer K
      else if clDeletionTimestamp cl \<noteq> None then handleDelete K
      else resourceStages K N ctx) (fetched cl w s)"
proof -
  show "\<exists>e'. Reconcile K N ctx ns name s = (Err e', s\<lparr>world := w\<rparr>)" if "k_get_cluster K ns name (world s) = (Inl e, w)"
  proof -
    from fetch_run(2) [OF that] obtain e' where "fetchCluster K ns name s = (Err e', s\<lparr>world := w\<rparr>)" ..
    then have "Reconcile K N ctx ns name s = (Err e', s\<lparr>world := w\<rparr>)" unfolding Reconcile_def by (rule bindR_eq)
    then show ?thesis ..
  qed
  assume "k_get_cluster K ns name (world s) = (Inr cl, w)"
  note f = fetch_run(1) [OF this, folded fetched_def]
  have g: "getCluster (fetched cl w s) = (Ok cl, fetched cl w s)" by (simp add: getCluster_def askR_def)
  show "Reconcile K N ctx ns name s =
     (if finalizer \<notin> set (clFinalizers cl) then addFinalizer K
      else if clDeletionTimestamp cl \<noteq> None then handleDelete K
      else resourceStages K N ctx) (fetched cl w s)"
    by (simp add: Reconcile_def bindR_eq(1) [where m = "fetchCluster K ns name", OF f]
        bindR_eq(1) [where m = getCluster, OF g] resourceStages_def ContainsString_iff)
qed

context operator_world
begin

lemma resourceStages_returns: "fit K c \<Longrightarrow> returns (run_inv c) (resourceStages K N ctx)"
  unfolding resourceStages_def
  by (intro returns_bindR returns_ctxR ensureResources_returns resourcesReady_returns [OF api_server_axioms]
      updateStatus_returns returns_basic probe_closedD(2) [OF run_inv_closed])

lemma Reconcile_returns:
  assumes ok: "reg_ok s" and "\<And>cl w. k_get_cluster K ns name (world s) = (Inr cl, w) \<Longrightarrow> fit K cl"
    and run: "Reconcile K N ctx ns name s = (r, s')"
  shows "settled r \<and> reg_ok s'"
proof (cases "k_get_cluster K ns name (world s)")
  case (Pair x w)
  show ?thesis
  proof (cases x)
    case (Inl e)
    with Pair have "k_get_cluster K ns name (world s) = (Inl e, w)" by simp
    from Reconcile_run(1) [OF this, of N ctx] run ok show ?thesis by (auto simp: reg_ok_world)
  next
    case (Inr cl)
    let ?t = "fetched cl w s"
    from Pair Inr have got: "k_get_cluster K ns name (world s) = (Inr cl, w)" by simp
    have upd: "settled q \<and> reg_ok u" if "updated out msg v = (q, u)" "reg_ok v" for out msg v q u
      using that by (auto simp: updated_def reg_ok_def split: prod.splits sum.splits)
    note R = Reconcile_run(2) [OF got, of N ctx, unfolded run, symmetric]
    show ?thesis
    proof (cases "finalizer \<in> set (clFinalizers cl) \<and> clDeletionTimestamp cl = None")
      case True
      with R have "resourceStages K N ctx ?t = (r, s')" by simp
      moreover have "run_inv cl ?t" using ok by (simp add: run_inv_def same_refl)
      moreover note resourceStages_returns [OF assms(2) [OF got], of ctx]
      ultimately show ?thesis using returnsD keepsD [OF returns_keeps] unfolding run_inv_def by metis
    next
      case False
      show ?thesis
      proof (cases "finalizer \<in> set (clFinalizers cl)")
        case True
        with False R have "handleDelete K ?t = (r, s')" by simp
        moreover have ok': "reg_ok ?t" using ok by simp
        from handleDelete_run [OF ranges this] obtain names u c where n: "mset names = mset (mkeys (ApiClients ?t))"
          and h: "handleDelete K ?t = updated (k_update_cluster K c u) ''removing finalizer''
            (?t\<lparr>world := u, idleClosed := idleClosed ?t @ map (pointer (ApiClients ?t)) names, ApiClients := [], cluster := c\<rparr>)"
          by metis
        moreover have "reg_ok (?t\<lparr>world := u, idleClosed := idleClosed ?t @ map (pointer (ApiClients ?t)) names, ApiClients := [],
            cluster := c\<rparr>)"
          using closed_registry [OF ok' n] by (simp add: reg_ok_def)
        ultimately show ?thesis using upd by metis
      next
        case False
        with R have "addFinalizer K ?t = (r, s')" by simp
        from upd [OF this [unfolded addFinalizer_run Let_def]] ok show ?thesis by (simp add: reg_ok_outer)
      qed
    qed
  qed
qed

end

end
