(* ===== verification/Steady.thy ===== *)
theory Steady
  imports Reconciling
begin

text \<open>
  A property of the world that every call of the operator but the update of the resource keeps is kept by
  the stages of a reconciliation, as \<open>Quiet\<close> shows for the synchronisation.
\<close>

section \<open>Calls that write objects\<close>

definition writes_keep :: "('w \<Rightarrow> bool) \<Rightarrow> (PiHoleCluster \<Rightarrow> bool) \<Rightarrow> 'w kube \<Rightarrow> bool" where
  "writes_keep J Q K \<longleftrightarrow> reads_keep J Q K \<and> (\<forall>d. kept_world J (k_create K d)) \<and> (\<forall>d. kept_world J (k_update K d)) \<and>
     (\<forall>x cs. kept_world J (set_status_condition K x cs)) \<and> (\<forall>c d. Q c \<longrightarrow> spec_kept c d \<longrightarrow> Q d)"

lemma keeps_as: "keeps I (asConfigMap x)" "keeps I (asPVC x)" "keeps I (asStatefulSet x)" "keeps I (mustParse K q)"
  "keeps I (pureR y)"
  by (cases x; simp add: asConfigMap_def asPVC_def asStatefulSet_def keeps_basic)+
     (auto simp: mustParse_def pureR_def intro: keeps_basic split: option.splits sum.splits)

lemma writes_keepD:
  assumes "writes_keep J Q K"
  shows "reads_keep J Q K" "keeps (WC J Q) (callW (k_create K d))" "keeps (WC J Q) (callW (k_update K d))"
    "keeps (WC J Q) (askW (set_status_condition K x cs))" "status_free Q" "\<And>c d. Q c \<Longrightarrow> spec_kept c d \<Longrightarrow> Q d"
proof -
  have W: "reads_keep J Q K" "kept_world J (k_create K d)" "kept_world J (k_update K d)"
    "kept_world J (set_status_condition K x cs)" "\<And>c d. Q c \<Longrightarrow> spec_kept c d \<Longrightarrow> Q d"
    using assms unfolding writes_keep_def by blast+
  show "reads_keep J Q K" "\<And>c d. Q c \<Longrightarrow> spec_kept c d \<Longrightarrow> Q d" using W by blast+
  show "status_free Q" using W(1) by (simp add: reads_keep_def)
  show "keeps (WC J Q) (callW (k_create K d))" "keeps (WC J Q) (callW (k_update K d))"
    "keeps (WC J Q) (askW (set_status_condition K x cs))"
    using W by (simp_all add: world_calls_keep)
qed

lemma upsert_keeps:
  assumes W: "writes_keep J Q K" and c: "\<And>f x d. c = Some f \<Longrightarrow> keeps (WC J Q) (f x d)"
  shows "keeps (WC J Q) (UpsertResource K d n c)"
proof -
  note R = writes_keepD(1) [OF W]
  have vars: "keeps (WC J Q) getVars" "keeps (WC J Q) (setVars x y)" for x y
    unfolding getVars_def setVars_def by (auto intro!: keeps_askR keeps_modS simp: WC_def)
  have parts: "keeps (WC J Q) (controllerRef K x)" "keeps (WC J Q) (getObject K kd m)" for x kd m
    unfolding controllerRef_def getObject_def
    by (intro keeps_bindR own_state_keeps keeps_as reads_keepD [OF R])+
  have "keeps (WC J Q) (refreshAndUpdate K n)"
    unfolding refreshAndUpdate_def
    by (auto intro!: keeps_bindR keeps_ctxR vars parts writes_keepD [OF W] split: prod.splits)
  moreover from R obtain P where P: "retrier (retry_on_conflict K) P" "kept_by (WC J Q) P" unfolding reads_keep_def by blast
  ultimately have "keeps (WC J Q) (retry_on_conflict K (refreshAndUpdate K n))"
    using retrier.run_keeps [OF P(1) _ P(2)] by blast
  then show ?thesis
    unfolding UpsertResource_def using c
    by (cases c) (auto intro!: keeps_bindR keeps_ctxR keeps_tryR keeps_if keeps_sum keeps_basic vars parts writes_keepD [OF W]
        split: prod.splits)
qed

lemma withPassword_keeps:
  assumes "writes_keep J Q K"
  shows "keeps (WC J Q) (withPassword K d)"
proof -
  have m: "keeps (WC J Q) (modCluster f)" if "\<And>c. spec_kept c (f c)" for f
    unfolding modCluster_def using writes_keepD(6) [OF assms _ that] by (auto intro!: keeps_modS simp: WC_def)
  show ?thesis
    unfolding withPassword_def Let_def
    by (intro keeps_bindR own_state_keeps reads_keepD [OF writes_keepD(1) [OF assms]] keeps_basic m defaultProbes_kept
        addExporter_kept) (rule prod.collapse [symmetric])
qed

lemma ensure_keeps:
  assumes W: "writes_keep J Q K"
  shows "keeps (WC J Q) (ensureAPISecret K)" "keeps (WC J Q) (ensurePiHolePVC K)" "keeps (WC J Q) (ensurePiHoleEnvCM K)"
    "keeps (WC J Q) (ensureReadWriteSTS K)" "keeps (WC J Q) (ensureReadOnlySTS K)" "keeps (WC J Q) (ensureIngress K)"
    "keeps (WC J Q) (ensurePodMonitor K)" "keeps (WC J Q) (ensureDNSService K)"
proof -
  note R = reads_keepD [OF writes_keepD(1) [OF W]]
  note U = upsert_keeps [OF W]
  note step = keeps_bindR keeps_ctxR keeps_if keeps_option keeps_basic own_state_keeps R keeps_as
  have plain: "keeps (WC J Q) (UpsertResource K d n None)" for d n by (rule U) simp
  have "keeps (WC J Q) (pvcCustomizer K x d)" for x d
    unfolding pvcCustomizer_def by (intro step writes_keepD(3) [OF W])
  then show pvc: "keeps (WC J Q) (ensurePiHolePVC K)"
    unfolding ensurePiHolePVC_def by (intro step U) auto
  show "keeps (WC J Q) (ensureAPISecret K)" "keeps (WC J Q) (ensureIngress K)" "keeps (WC J Q) (ensurePodMonitor K)"
    "keeps (WC J Q) (ensureDNSService K)" and env: "keeps (WC J Q) (ensurePiHoleEnvCM K)"
    unfolding ensureAPISecret_def ensureIngress_def ensurePodMonitor_def ensureDNSService_def ensurePiHoleEnvCM_def
    by (intro step plain)+
  have vol: "keeps (WC J Q) (readOnlyVolume K)" unfolding readOnlyVolume_def by (intro step)
  show "keeps (WC J Q) (ensureReadWriteSTS K)" "keeps (WC J Q) (ensureReadOnlySTS K)"
    unfolding ensureReadWriteSTS_def ensureReadOnlySTS_def Let_def
    by (intro step plain withPassword_keeps [OF W] pvc env vol)+
qed

lemma checks_keep:
  assumes W: "writes_keep J Q K"
  shows "keeps (WC J Q) (areRWPodsReady K)" "keeps (WC J Q) (areROPodsReady K)" "keeps (WC J Q) (resourcesReady K)"
    "keeps (WC J Q) (updateStatus K b msg)"
proof -
  note R = reads_keepD [OF writes_keepD(1) [OF W]]
  note step = keeps_bindR keeps_ctxR keeps_tryR keeps_whenR keeps_if keeps_option keeps_sum keeps_basic own_state_keeps R keeps_as
    status_changes_keep [OF writes_keepD(5) [OF W]] writes_keepD(4) [OF W]
  show "keeps (WC J Q) (areRWPodsReady K)" "keeps (WC J Q) (areROPodsReady K)" "keeps (WC J Q) (updateStatus K b msg)"
    unfolding areRWPodsReady_def areROPodsReady_def updateStatus_def setStatusCondition_def Let_def
    by (intro step)+
  have m: "keeps (WC J Q) (mustExist K kd n)" for kd n unfolding mustExist_def by (intro step)
  show "keeps (WC J Q) (resourcesReady K)"
    unfolding resourcesReady_def readOnlyReady_def existsWhen_def by (intro step m)
qed

lemma ensureResources_keeps:
  assumes W: "writes_keep J Q K" and N: "net_keeps J N"
  shows "keeps (WC J Q) (ensureResources K N ctx)"
  unfolding ensureResources_def whenCluster_def replicaStage_def syncStage_def
  by (intro keeps_bindR keeps_ctxR keeps_whenR keeps_if keeps_basic own_state_keeps ensure_keeps [OF W] checks_keep [OF W]
      syncAPIClients_keeps_world performConfigSync_keeps_world N writes_keepD(1) [OF W])

end
