(* ===== verification/Estate.thy ===== *)
theory Estate
  imports Reconciling RefServer
begin

text \<open>
  A reference world for the whole operator: Pi-hole servers, the objects of the API server, the custom
  resource (the pods, by the labels asked for, are a parameter), with servers that meet every interface the development states.
\<close>

section \<open>The world\<close>

record estate =
  esFarm :: farm
  esCellar :: cellar
  esResource :: "PiHoleCluster option"

text \<open>A call that only concerns one part of the world.\<close>

definition on_farm :: "(farm \<Rightarrow> 'a \<times> farm) \<Rightarrow> estate \<Rightarrow> 'a \<times> estate" where
  "on_farm f e = (case f (esFarm e) of (x, w) \<Rightarrow> (x, e\<lparr>esFarm := w\<rparr>))"

text \<open>The API server fills in the number of replicas of a stateful set, and all of them are ready at once.\<close>

fun sized :: "kobj \<Rightarrow> kobj" where
  "sized (OStatefulSet d) = OStatefulSet (let k = (case stsReplicas d of None \<Rightarrow> 1 | Some k \<Rightarrow> k) in
     d\<lparr>stsReplicas := Some k, stsReadyReplicas := k\<rparr>)"
| "sized x = x"

definition on_objs :: "(cellar \<Rightarrow> (gerror + kobj) \<times> cellar) \<Rightarrow> estate \<Rightarrow> (gerror + kobj) \<times> estate" where
  "on_objs f e = (case f (esCellar e) of (x, w) \<Rightarrow> (map_sum id sized x, e\<lparr>esCellar := w\<rparr>))"

definition estate_objs :: "estate \<Rightarrow> (okey \<rightharpoonup> kobj)" where
  "estate_objs e k = map_option sized (cellar_objs (esCellar e) k)"

definition grown :: "kobj \<Rightarrow> kobj \<Rightarrow> bool" where
  "grown d x \<longleftrightarrow> stamp (sized d) = stamp (sized x)"

definition estate_net :: "estate net" where
  "estate_net = \<lparr>http_do = (\<lambda>t b r. on_farm (http_do farm_net t b r)), url_err = url_err farm_net,
     dec_auth = dec_auth farm_net, dec_lists = dec_lists farm_net, time_now = on_farm (time_now farm_net),
     wait = (\<lambda>x d. on_farm (wait farm_net x d)), boundary = on_farm (boundary farm_net)\<rparr>"

text \<open>The resource is found under its name; an update replaces it, and removes it when it is being deleted
  and has no finalizer left; an update of the status changes only that, and is refused when the rest of
  the resource is not as the server has it.\<close>

definition estate_fetch :: "string \<Rightarrow> string \<Rightarrow> estate \<Rightarrow> (gerror + PiHoleCluster) \<times> estate" where
  "estate_fetch ns n e = (case esResource e of
      None \<Rightarrow> (Inl (ApiStatus NotFound n), e)
    | Some c \<Rightarrow> (if clNamespace c = ns \<and> clName c = n then Inr c else Inl (ApiStatus NotFound n), e))"

definition estate_update :: "PiHoleCluster \<Rightarrow> estate \<Rightarrow> (gerror + PiHoleCluster) \<times> estate" where
  "estate_update c e = (case esResource e of
      None \<Rightarrow> (Inl (ApiStatus NotFound (clName c)), e)
    | Some d \<Rightarrow> if clNamespace d = clNamespace c \<and> clName d = clName c
        then (Inr c, e\<lparr>esResource := if clDeletionTimestamp c \<noteq> None \<and> clFinalizers c = [] then None else Some c\<rparr>)
        else (Inl (ApiStatus NotFound (clName c)), e))"

definition estate_status :: "PiHoleCluster \<Rightarrow> estate \<Rightarrow> (gerror + PiHoleCluster) \<times> estate" where
  "estate_status c e = (case esResource e of
      None \<Rightarrow> (Inl (ApiStatus NotFound (clName c)), e)
    | Some d \<Rightarrow> if same_resource c d
        then (Inr (d\<lparr>clStatus := clStatus c\<rparr>), e\<lparr>esResource := Some (d\<lparr>clStatus := clStatus c\<rparr>)\<rparr>)
        else (Inl (ApiStatus Conflict (clName c)), e))"

definition estate_kube :: "(smap \<Rightarrow> Pod list) \<Rightarrow> estate kube" where
  "estate_kube pods = (let C = cellar_kube [] zero_cluster in \<lparr>
     k_get = (\<lambda>kd ns n. on_objs (k_get C kd ns n)), k_list_pods = (\<lambda>ns ls e. (Inr (pods ls), e)),
     k_create = (\<lambda>x. on_objs (k_create C x)), k_update = (\<lambda>x. on_objs (k_update C x)),
     k_get_cluster = estate_fetch, k_update_cluster = estate_update, k_status_update = estate_status,
     set_controller_ref = set_controller_ref C, retry_on_conflict = conflict_retry 4,
     set_status_condition = (\<lambda>c cs e. (filter (\<lambda>d. cndType d \<noteq> cndType c) cs @ [c], e)),
     parse_quantity = (\<lambda>q. Some q), map_order = (\<lambda>ks e. (ks, e))\<rparr>)"

lemma sized_simps [simp]: "sized (sized x) = sized x" "key_of (sized x) = key_of x" "stamp (sized x) = sized (stamp x)"
  by (cases x; simp add: key_of_def stamp_def Let_def split: option.split)+

lemma estate_calls:
  "k_get (estate_kube pods) = (\<lambda>kd ns n. on_objs (k_get (cellar_kube [] zero_cluster) kd ns n))"
  "k_create (estate_kube pods) = (\<lambda>x. on_objs (k_create (cellar_kube [] zero_cluster) x))"
  "k_update (estate_kube pods) = (\<lambda>x. on_objs (k_update (cellar_kube [] zero_cluster) x))"
  "k_list_pods (estate_kube pods) = (\<lambda>ns ls e. (Inr (pods ls), e))"
  "k_get_cluster (estate_kube pods) = estate_fetch" "k_update_cluster (estate_kube pods) = estate_update"
  "k_status_update (estate_kube pods) = estate_status"
  "set_controller_ref (estate_kube pods) = set_controller_ref (cellar_kube [] zero_cluster)"
  "retry_on_conflict (estate_kube pods) = conflict_retry 4" "parse_quantity (estate_kube pods) = (\<lambda>q. Some q)"
  "map_order (estate_kube pods) = (\<lambda>ks e. (ks, e))"
  "set_status_condition (estate_kube pods) = (\<lambda>c cs e. (filter (\<lambda>d. cndType d \<noteq> cndType c) cs @ [c], e))"
  by (simp_all add: estate_kube_def Let_def)

section \<open>It meets the interfaces\<close>

lemma on_objs_Inr: "on_objs f e = (Inr x, e') \<Longrightarrow> \<exists>y w. f (esCellar e) = (Inr y, w) \<and> x = sized y \<and> e' = e\<lparr>esCellar := w\<rparr>"
  by (cases "f (esCellar e)"; cases "fst (f (esCellar e))") (auto simp: on_objs_def)

lemma on_objs_Inl: "on_objs f e = (Inl x, e') \<Longrightarrow> \<exists>w. f (esCellar e) = (Inl x, w) \<and> e' = e\<lparr>esCellar := w\<rparr>"
  by (cases "f (esCellar e)"; cases "fst (f (esCellar e))") (auto simp: on_objs_def)

lemma estate_objs_same: "cellar_objs (esCellar e') = cellar_objs (esCellar e) \<Longrightarrow> estate_objs e' = estate_objs e"
  by (simp add: estate_objs_def fun_eq_iff)

lemma estate_objs_write: "cellar_objs (esCellar e') = (cellar_objs (esCellar e))(k \<mapsto> y) \<Longrightarrow>
    estate_objs e' = (estate_objs e)(k \<mapsto> sized y)"
  by (simp add: estate_objs_def fun_eq_iff)

lemma estate_api: "api_server (estate_kube pods) estate_objs grown"
proof (rule api_server.intro)
  note C = cellar.api_server_axioms [of "[]" zero_cluster]
  show "retrier (retry_on_conflict (estate_kube pods)) (quiet_pause estate_objs)"
    by (simp add: estate_calls conflict.retrier_axioms)
  fix kd ns n k c d d' x and w w' :: estate and e
  show "k_get (estate_kube pods) kd ns n w = (Inr x, w') \<Longrightarrow> estate_objs w' = estate_objs w \<and> estate_objs w (kd, ns, n) = Some x"
    "k_get (estate_kube pods) kd ns n w = (Inl e, w') \<Longrightarrow>
      estate_objs w' = estate_objs w \<and> (IsNotFound e \<longrightarrow> estate_objs w (kd, ns, n) = None)"
    by (auto simp: estate_calls estate_objs_def dest!: on_objs_Inr on_objs_Inl api_server.get_found [OF C]
        api_server.get_failed [OF C] intro!: estate_objs_same)
  have written: "estate_objs w' = (estate_objs w)(key_of d \<mapsto> x) \<and> grown d x \<and> key_of x = key_of d"
    if "cellar_objs v = (cellar_objs (esCellar w))(key_of d \<mapsto> y) \<and> stamped d y \<and> key_of y = key_of d"
      "x = sized y" "w' = w\<lparr>esCellar := v\<rparr>" for v y
    using that estate_objs_write [of "w\<lparr>esCellar := v\<rparr>" w "key_of d" y] by (simp add: grown_def stamped_def)
  show "k_create (estate_kube pods) d w = (Inr x, w') \<Longrightarrow>
      estate_objs w' = (estate_objs w)(key_of d \<mapsto> x) \<and> grown d x \<and> key_of x = key_of d"
    "k_update (estate_kube pods) d w = (Inr x, w') \<Longrightarrow>
      estate_objs w' = (estate_objs w)(key_of d \<mapsto> x) \<and> grown d x \<and> key_of x = key_of d"
    unfolding estate_calls
    using written api_server.create_ok [OF C] api_server.update_ok [OF C] by (blast dest: on_objs_Inr)+
  show "k_create (estate_kube pods) d w = (Inl e, w') \<Longrightarrow> estate_objs w' = estate_objs w"
    "k_update (estate_kube pods) d w = (Inl e, w') \<Longrightarrow> estate_objs w' = estate_objs w"
    unfolding estate_calls
    by (auto dest!: on_objs_Inl api_server.create_failed [OF C] api_server.update_failed [OF C] intro!: estate_objs_same)
  show "estate_objs w k = Some x \<Longrightarrow> key_of x = k"
    using cellar_key [of "esCellar w" k] by (auto simp: estate_objs_def)
  show "grown d d" by (simp add: grown_def)
  assume "set_controller_ref (estate_kube pods) c d = Inr d'"
  then have "set_controller_ref (cellar_kube [] zero_cluster) c d = Inr d'" by (simp add: estate_calls)
  from api_server.ref_key [OF C this] api_server.ref_meta [OF C this] api_server.ref_again [OF C this]
  show "key_of d' = key_of d" "\<exists>f. d' = upd_meta f d" "set_controller_ref (estate_kube pods) c d' = Inr d'"
    by (simp_all add: estate_calls)
qed

interpretation estate: operator_world "estate_kube pods" estate_objs grown estate_net for pods
proof (rule operator_world.intro [OF estate_api], rule operator_world_axioms.intro)
  fix f c ns n ls ks x cs d and w w' :: estate
  have farm: "estate_objs (snd (on_farm g w)) = estate_objs w" for g :: "farm \<Rightarrow> 'x \<times> farm" and w
    by (simp add: on_farm_def estate_objs_def fun_eq_iff split: prod.split)
  show "net_keeps (\<lambda>w. estate_objs w = f) estate_net"
    by (simp add: net_keeps_def kept_world_def estate_net_def farm)
  show "kept_world (\<lambda>w. estate_objs w = f) (k_list_pods (estate_kube pods) ns ls)"
    "kept_world (\<lambda>w. estate_objs w = f) (map_order (estate_kube pods) ks)"
    "kept_world (\<lambda>w. estate_objs w = f) (set_status_condition (estate_kube pods) x cs)"
    by (simp_all add: kept_world_def estate_calls)
  have res: "estate_objs (e\<lparr>esResource := r\<rparr>) = estate_objs e" for e r by (simp add: estate_objs_def fun_eq_iff)
  show "kept_world (\<lambda>w. estate_objs w = f) (k_status_update (estate_kube pods) c)"
    "kept_world (\<lambda>w. estate_objs w = f) (k_get_cluster (estate_kube pods) ns n)"
    "kept_world (\<lambda>w. estate_objs w = f) (k_update_cluster (estate_kube pods) c)"
    by (auto simp: kept_world_def estate_calls estate_status_def estate_fetch_def estate_update_def res split: option.splits)
  show "k_status_update (estate_kube pods) c w = (Inr d, w') \<Longrightarrow> same_resource c d \<and> clStatus d = clStatus c"
    using same_status unfolding status_free_def
    by (auto simp: estate_calls estate_status_def split: option.splits if_splits)
  show "sized_sets (estate_kube pods)"
    unfolding sized_sets_def estate_calls
  proof (intro allI impI)
    fix kd ns n w ss w'
    assume "on_objs (k_get (cellar_kube [] zero_cluster) kd ns n) w = (Inr (OStatefulSet ss), w')"
    from on_objs_Inr [OF this] obtain y where "OStatefulSet ss = sized y" by blast
    then show "stsReplicas ss \<noteq> None" by (cases y) (auto simp: Let_def split: if_splits)
  qed
  show "ranges_all (estate_kube pods)" by (simp add: ranges_all_def estate_calls)
  show "condition_law (estate_kube pods)" by (auto simp: condition_law_def estate_calls says_def)
qed

interpretation willing_estate: willing_server "estate_kube pods" estate_objs grown for pods
proof (rule willing_server.intro [OF estate_api], rule willing_server_axioms.intro)
  fix kd ns n x c d and w :: estate
  show "estate_objs w (kd, ns, n) = Some x \<Longrightarrow> fst (k_get (estate_kube pods) kd ns n w) = Inr x"
    "estate_objs w (kd, ns, n) = None \<Longrightarrow> \<exists>e. fst (k_get (estate_kube pods) kd ns n w) = Inl e \<and> IsNotFound e"
    "estate_objs w (key_of d) = None \<Longrightarrow> \<exists>x. fst (k_create (estate_kube pods) d w) = Inr x"
    "estate_objs w (key_of d) \<noteq> None \<Longrightarrow> \<exists>x. fst (k_update (estate_kube pods) d w) = Inr x"
    "\<exists>d'. set_controller_ref (estate_kube pods) c d = Inr d'"
    by (auto simp: estate_calls estate_objs_def on_objs_def cellar_kube_def)
  fix f :: "(estate rs, unit) prog" and s s'
  show "f s = (Ok (), s') \<Longrightarrow> retry_on_conflict (estate_kube pods) f s = (Ok (), s')"
    by (simp add: estate_calls numeral_eq_Suc)
qed

lemma estate_reliable: "reliable (estate_kube pods) estate_objs"
  unfolding reliable_def
  using willing_estate.get_hit by (metis Inl_Inr_False option.exhaust)

end
