(* ===== verification/Lifecycle.thy ===== *)
theory Lifecycle
  imports Steady Estate
begin

text \<open>
  The operator over time: reconciliations of any resources in any order, restarts of the process and
  changes made by others in between. The finalizer ties the API clients the process holds to a resource
  that still exists.
\<close>

section \<open>Steps\<close>

text \<open>The resource that is fetched was admitted: it is one the operator can handle.\<close>

definition admitted :: "'w kube \<Rightarrow> string \<Rightarrow> string \<Rightarrow> 'w rs \<Rightarrow> bool" where
  "admitted K ns n s \<longleftrightarrow> (\<forall>cl w. k_get_cluster K ns n (world s) = (Inr cl, w) \<longrightarrow> fit K cl)"

inductive op_step :: "'w kube \<Rightarrow> 'w net \<Rightarrow> ('w \<Rightarrow> 'w \<Rightarrow> bool) \<Rightarrow> 'w rs \<Rightarrow> 'w rs \<Rightarrow> bool"
  for K :: "'w kube" and N :: "'w net" and env :: "'w \<Rightarrow> 'w \<Rightarrow> bool" where
  reconciled: "Reconcile K N ctx ns n s = (r, s') \<Longrightarrow> admitted K ns n s \<Longrightarrow> op_step K N env s s'"
| elsewhere: "env (world s) w \<Longrightarrow> op_step K N env s (s\<lparr>world := w\<rparr>)"
| restarted: "op_step K N env s (new_rs c (world s))"

inductive_cases op_stepE: "op_step K N env s s'"

inductive reachable :: "'w kube \<Rightarrow> 'w net \<Rightarrow> ('w \<Rightarrow> 'w \<Rightarrow> bool) \<Rightarrow> 'w rs \<Rightarrow> bool"
  for K :: "'w kube" and N :: "'w net" and env :: "'w \<Rightarrow> 'w \<Rightarrow> bool" where
  started: "reachable K N env (new_rs c w)"
| stepped: "reachable K N env s \<Longrightarrow> op_step K N env s s' \<Longrightarrow> reachable K N env s'"

lemma reachable_invariant [consumes 1, case_names start reconcile others]:
  assumes "reachable K N env s" and "\<And>c w. P (new_rs c w)"
    and "\<And>s ctx ns n r s'. P s \<Longrightarrow> Reconcile K N ctx ns n s = (r, s') \<Longrightarrow> admitted K ns n s \<Longrightarrow> P s'"
    and "\<And>s w. P s \<Longrightarrow> env (world s) w \<Longrightarrow> P (s\<lparr>world := w\<rparr>)"
  shows "P s"
  using assms(1)
proof induction
  case (stepped s s')
  from stepped.hyps(2) stepped.IH assms(2-4) show ?case by (blast elim: op_stepE)
qed (rule assms(2))

section \<open>The server of the resources\<close>

text \<open>
  \<open>stored w (ns, n)\<close> is the resource the server holds. An update puts it there, unless it is being deleted
  and has no finalizer left: then it is gone. No other call touches the finalizers. Others
  (\<open>spares\<close>) neither take the finalizer of the operator away nor remove a resource that has it.
\<close>

type_synonym rkey = "string \<times> string"

definition finalizers_of :: "('w \<Rightarrow> rkey \<rightharpoonup> PiHoleCluster) \<Rightarrow> 'w \<Rightarrow> rkey \<rightharpoonup> string list" where
  "finalizers_of stored w k = map_option clFinalizers (stored w k)"

definition guarded :: "('w \<Rightarrow> rkey \<rightharpoonup> PiHoleCluster) \<Rightarrow> 'w \<Rightarrow> bool" where
  "guarded stored w \<longleftrightarrow> (\<exists>k fs. finalizers_of stored w k = Some fs \<and> finalizer \<in> set fs)"

definition spares :: "('w \<Rightarrow> rkey \<rightharpoonup> PiHoleCluster) \<Rightarrow> ('w \<Rightarrow> 'w \<Rightarrow> bool) \<Rightarrow> bool" where
  "spares stored env \<longleftrightarrow> (\<forall>w w' k fs. env w w' \<longrightarrow> finalizers_of stored w k = Some fs \<longrightarrow> finalizer \<in> set fs \<longrightarrow>
     (\<exists>gs. finalizers_of stored w' k = Some gs \<and> finalizer \<in> set gs))"

definition calm :: "('w \<Rightarrow> 'a) \<Rightarrow> 'w rs \<Rightarrow> 'w rs \<Rightarrow> bool" where
  "calm f s t \<longleftrightarrow> (\<exists>w. t = s\<lparr>world := w\<rparr> \<and> f w = f (world s))"

locale resource_server = operator_world K objs like N
  for K :: "'w kube" and objs :: "'w \<Rightarrow> (okey \<rightharpoonup> kobj)" and like :: "kobj \<Rightarrow> kobj \<Rightarrow> bool" and N :: "'w net" +
  fixes stored :: "'w \<Rightarrow> rkey \<rightharpoonup> PiHoleCluster"
  assumes fetch_stored: "k_get_cluster K ns n w = (Inr c, w') \<Longrightarrow> stored w (ns, n) = Some c \<and> clNamespace c = ns \<and> clName c = n"
    and fetch_keeps: "finalizers_of stored (snd (k_get_cluster K ns n w)) = finalizers_of stored w"
    and update_stored: "k_update_cluster K c w = (Inr d, w') \<Longrightarrow> finalizers_of stored w' =
      (finalizers_of stored w)((clNamespace c, clName c) :=
         if clDeletionTimestamp c \<noteq> None \<and> clFinalizers c = [] then None else Some (clFinalizers c))"
    and update_rejected: "k_update_cluster K c w = (Inl e, w') \<Longrightarrow> finalizers_of stored w' = finalizers_of stored w"
    and net_keeps_stored: "net_keeps (\<lambda>w. finalizers_of stored w = f) N"
    and objects_keep_stored: "kept_world (\<lambda>w. finalizers_of stored w = f) (k_get K kd ns n)"
      "kept_world (\<lambda>w. finalizers_of stored w = f) (k_create K y)" "kept_world (\<lambda>w. finalizers_of stored w = f) (k_update K y)"
    and rest_keeps_stored: "kept_world (\<lambda>w. finalizers_of stored w = f) (k_list_pods K ns ls)"
      "kept_world (\<lambda>w. finalizers_of stored w = f) (map_order K ks)"
      "kept_world (\<lambda>w. finalizers_of stored w = f) (k_status_update K c)"
      "kept_world (\<lambda>w. finalizers_of stored w = f) (set_status_condition K x cs)"
    and calm_retry: "retrier (retry_on_conflict K) (calm (finalizers_of stored))"

context resource_server
begin

text \<open>The stages of a reconciliation leave the finalizers alone.\<close>

lemma stages_keep_finalizers: "writes_keep (\<lambda>w. finalizers_of stored w = f) (\<lambda>_. True) K"
proof -
  have "kept_by (WC (\<lambda>w. finalizers_of stored w = f) (\<lambda>_. True)) (calm (finalizers_of stored))"
    by (auto simp: kept_by_def WC_def calm_def)
  then show ?thesis
    unfolding writes_keep_def reads_keep_def
    using objects_keep_stored rest_keeps_stored calm_retry by (auto simp: status_free_def kept_world_def)
qed

lemma resourceStages_finalizers:
  assumes "resourceStages K N ctx s = (r, s')"
  shows "finalizers_of stored (world s') = finalizers_of stored (world s)"
proof -
  let ?I = "WC (\<lambda>w. finalizers_of stored w = finalizers_of stored (world s)) (\<lambda>_. True)"
  have "keeps ?I (resourceStages K N ctx)"
    unfolding resourceStages_def
    by (intro keeps_bindR keeps_ctxR keeps_basic ensureResources_keeps checks_keep stages_keep_finalizers net_keeps_stored)
  from keepsD [OF this _ assms] show ?thesis by (simp add: WC_def)
qed

lemma closeAll_finalizers:
  assumes "closeAll K s = (r, s')"
  shows "finalizers_of stored (world s') = finalizers_of stored (world s) \<and> cluster s' = cluster s \<and> ApiClients s' = ApiClients s"
proof -
  let ?I = "\<lambda>t. finalizers_of stored (world t) = finalizers_of stored (world s) \<and> cluster t = cluster s \<and> ApiClients t = ApiClients s"
  have "keeps ?I (rangeClients K)"
    unfolding rangeClients_def askW_def
    using rest_keeps_stored(2) by (auto intro!: keeps_bindR keeps_basic keeps_askR simp: kept_world_def split: prod.splits)
       (metis snd_conv)
  then have "keeps ?I (closeAll K)"
    unfolding closeAll_def closeClient_def by (auto intro!: keeps_bindR keeps_forR keeps_basic keeps_modS split: option.splits)
  from keepsD [OF this _ assms] show ?thesis by simp
qed

lemma guarded_cong: "finalizers_of stored w' = finalizers_of stored w \<Longrightarrow> guarded stored w' = guarded stored w"
  by (simp add: guarded_def)

text \<open>A reconciliation keeps the tie between the clients and the finalizer.\<close>

definition tied :: "'w rs \<Rightarrow> bool" where
  "tied s \<longleftrightarrow> reg_ok s \<and> (ApiClients s \<noteq> [] \<longrightarrow> guarded stored (world s))"

lemma updated_finalizers:
  assumes "updated (k_update_cluster K c (world t)) msg t = (r, s')" "finalizer \<in> set (clFinalizers c)"
    and "ApiClients t \<noteq> [] \<longrightarrow> guarded stored (world t)"
  shows "ApiClients s' \<noteq> [] \<longrightarrow> guarded stored (world s')"
proof (cases "k_update_cluster K c (world t)")
  case (Pair x w)
  show ?thesis
  proof (cases x)
    case (Inl e)
    with Pair have "k_update_cluster K c (world t) = (Inl e, w)" by simp
    from guarded_cong [OF update_rejected [OF this]] assms(1,3) Pair Inl show ?thesis by (auto simp: updated_def)
  next
    case (Inr d)
    with Pair have "k_update_cluster K c (world t) = (Inr d, w)" by simp
    from update_stored [OF this] assms(2) have "guarded stored w" by (auto simp: guarded_def)
    with assms(1) Pair Inr show ?thesis by (auto simp: updated_def)
  qed
qed

lemma handleDelete_clients:
  assumes "handleDelete K s = (r, s')" "ApiClients s \<noteq> [] \<longrightarrow> guarded stored (world s)"
  shows "ApiClients s' \<noteq> [] \<longrightarrow> guarded stored (world s')"
proof -
  obtain q t where q: "closeAll K s = (q, t)" by (meson surj_pair)
  note C = closeAll_finalizers [OF q]
  show ?thesis
  proof (cases q)
    case (Ok u)
    let ?c = "(cluster t)\<lparr>clFinalizers := RemoveString (clFinalizers (cluster t)) finalizer\<rparr>"
    let ?t = "t\<lparr>ApiClients := [], cluster := ?c\<rparr>"
    have "handleDelete K s = bindR (wrap ''removing finalizer'' (updateCluster K)) (\<lambda>_. ret (5 * second)) ?t"
      using q Ok by (simp add: handleDelete_def modCluster_def modS_def bindR_eq)
    also have "\<dots> = updated (k_update_cluster K ?c (world t)) ''removing finalizer'' ?t" by (rule updated_run) simp_all
    finally have "ApiClients s' = []" using assms(1) by (auto simp: updated_def split: prod.splits sum.splits)
    then show ?thesis by simp
  qed (use q assms C guarded_cong [OF conjunct1 [OF C]] in \<open>auto simp: handleDelete_def bindR_def\<close>)
qed

lemma reconcile_tied:
  assumes "tied s" "Reconcile K N ctx ns n s = (r, s')" "admitted K ns n s"
  shows "tied s'"
proof -
  have ok: "reg_ok s'"
    using Reconcile_returns [OF _ _ assms(2)] assms(1,3) unfolding tied_def admitted_def by blast
  obtain x w where g: "k_get_cluster K ns n (world s) = (x, w)" by (meson surj_pair)
  have f: "finalizers_of stored w = finalizers_of stored (world s)" using fetch_keeps [of ns n "world s"] g by simp
  have pre: "ApiClients s \<noteq> [] \<longrightarrow> guarded stored w" using assms(1) guarded_cong [OF f] by (simp add: tied_def)
  have "ApiClients s' \<noteq> [] \<longrightarrow> guarded stored (world s')"
  proof (cases x)
    case (Inl e)
    with g have "k_get_cluster K ns n (world s) = (Inl e, w)" by simp
    from Reconcile_run(1) [OF this, of N ctx] assms(2) pre show ?thesis by auto
  next
    case (Inr cl)
    with g have got: "k_get_cluster K ns n (world s) = (Inr cl, w)" by simp
    from fetch_stored [OF got] f have st: "finalizers_of stored w (ns, n) = Some (clFinalizers cl)"
      by (metis finalizers_of_def option.simps(9))
    let ?t = "fetched cl w s"
    note R = Reconcile_run(2) [OF got, of N ctx, unfolded assms(2), symmetric]
    consider "finalizer \<notin> set (clFinalizers cl)"
      | "finalizer \<in> set (clFinalizers cl)" "clDeletionTimestamp cl \<noteq> None"
      | "finalizer \<in> set (clFinalizers cl)" "clDeletionTimestamp cl = None" by blast
    then show ?thesis
    proof cases
      case 1
      let ?c = "cl\<lparr>clFinalizers := clFinalizers cl @ [finalizer]\<rparr>"
      from 1 R have "updated (k_update_cluster K ?c (world (?t\<lparr>cluster := ?c\<rparr>))) ''adding finalizer'' (?t\<lparr>cluster := ?c\<rparr>) = (r, s')"
        by (simp add: addFinalizer_run Let_def)
      from updated_finalizers [OF this] pre show ?thesis by simp
    next
      case 2
      with R have "handleDelete K ?t = (r, s')" by simp
      from handleDelete_clients [OF this] pre show ?thesis by simp
    next
      case 3
      with R have "resourceStages K N ctx ?t = (r, s')" by simp
      from resourceStages_finalizers [OF this] st 3(1) show ?thesis by (auto simp: guarded_def)
    qed
  qed
  with ok show ?thesis by (simp add: tied_def)
qed

lemma reachable_tied:
  assumes "reachable K N env s" "spares stored env"
  shows "tied s"
  using assms(1)
proof (induction rule: reachable_invariant)
  case (start c w)
  show ?case by (simp add: tied_def) (simp add: new_rs_def)
next
  case (reconcile s ctx ns n r s')
  then show ?case by (rule reconcile_tied)
next
  case (others s w)
  have "guarded stored w" if "guarded stored (world s)"
    using that others(2) assms(2) unfolding guarded_def spares_def by metis
  with others(1) show ?case by (simp add: tied_def reg_ok_world)
qed

end

section \<open>The reference world\<close>

definition estate_stored :: "estate \<Rightarrow> rkey \<rightharpoonup> PiHoleCluster" where
  "estate_stored e k = (case esResource e of
      None \<Rightarrow> None
    | Some c \<Rightarrow> if (clNamespace c, clName c) = k then Some c else None)"

lemma estate_finalizers: "finalizers_of estate_stored e = (case esResource e of
    None \<Rightarrow> Map.empty | Some c \<Rightarrow> [(clNamespace c, clName c) \<mapsto> clFinalizers c])"
  by (auto simp: finalizers_of_def estate_stored_def fun_eq_iff split: option.split)

interpretation estate_life: resource_server "estate_kube pods" estate_objs grown estate_net estate_stored for pods
proof (rule resource_server.intro [OF estate.operator_world_axioms], rule resource_server_axioms.intro)
  fix ns n c d kd f y ls ks x cs and w w' :: estate and e
  show "k_get_cluster (estate_kube pods) ns n w = (Inr c, w') \<Longrightarrow> estate_stored w (ns, n) = Some c \<and> clNamespace c = ns \<and> clName c = n"
    by (auto simp: estate_calls estate_fetch_def estate_stored_def split: option.splits if_splits)
  show "finalizers_of estate_stored (snd (k_get_cluster (estate_kube pods) ns n w)) = finalizers_of estate_stored w"
    by (auto simp: estate_calls estate_fetch_def split: option.splits)
  show "k_update_cluster (estate_kube pods) c w = (Inr d, w') \<Longrightarrow> finalizers_of estate_stored w' =
      (finalizers_of estate_stored w)((clNamespace c, clName c) :=
         if clDeletionTimestamp c \<noteq> None \<and> clFinalizers c = [] then None else Some (clFinalizers c))"
    by (auto simp: estate_calls estate_update_def estate_finalizers split: option.splits if_splits)
  show "k_update_cluster (estate_kube pods) c w = (Inl e, w') \<Longrightarrow> finalizers_of estate_stored w' = finalizers_of estate_stored w"
    by (auto simp: estate_calls estate_update_def split: option.splits if_splits)
  have other: "finalizers_of estate_stored (e\<lparr>esFarm := u\<rparr>) = finalizers_of estate_stored e"
    "finalizers_of estate_stored (e\<lparr>esCellar := v\<rparr>) = finalizers_of estate_stored e" for e u v
    by (simp_all add: estate_finalizers)
  have farm: "finalizers_of estate_stored (snd (on_farm g e)) = finalizers_of estate_stored e" for g :: "farm \<Rightarrow> 'x \<times> farm" and e
    by (simp add: on_farm_def other split: prod.split)
  have objs: "finalizers_of estate_stored (snd (on_objs g e)) = finalizers_of estate_stored e" for g e
    by (simp add: on_objs_def other split: prod.split)
  show "net_keeps (\<lambda>w. finalizers_of estate_stored w = f) estate_net"
    by (simp add: net_keeps_def kept_world_def estate_net_def farm)
  show "kept_world (\<lambda>w. finalizers_of estate_stored w = f) (k_get (estate_kube pods) kd ns n)"
    "kept_world (\<lambda>w. finalizers_of estate_stored w = f) (k_create (estate_kube pods) y)"
    "kept_world (\<lambda>w. finalizers_of estate_stored w = f) (k_update (estate_kube pods) y)"
    by (simp_all add: kept_world_def estate_calls objs)
  show "kept_world (\<lambda>w. finalizers_of estate_stored w = f) (k_list_pods (estate_kube pods) ns ls)"
    "kept_world (\<lambda>w. finalizers_of estate_stored w = f) (map_order (estate_kube pods) ks)"
    "kept_world (\<lambda>w. finalizers_of estate_stored w = f) (set_status_condition (estate_kube pods) x cs)"
    by (simp_all add: kept_world_def estate_calls)
  show "kept_world (\<lambda>w. finalizers_of estate_stored w = f) (k_status_update (estate_kube pods) c)"
    by (auto simp: kept_world_def estate_calls estate_status_def estate_finalizers split: option.splits)
  show "retrier (retry_on_conflict (estate_kube pods)) (calm (finalizers_of estate_stored))"
    by (simp add: estate_calls conflict.retrier_axioms)
qed

end
