(* ===== verification/Liveness.thy ===== *)
theory Liveness
  imports Lifecycle
begin

text \<open>
  When a whole reconciliation succeeds: on a server that is willing, accepts the status and, where there
  are replicas to create, reports the read-write pod ready, every stage goes through.
\<close>

section \<open>Programs that succeed\<close>

definition succeeds :: "('s \<Rightarrow> bool) \<Rightarrow> ('s, 'a) prog \<Rightarrow> bool" where
  "succeeds I m \<longleftrightarrow> (\<forall>s. I s \<longrightarrow> (\<exists>x s'. m s = (Ok x, s') \<and> I s'))"

lemma succeedsI: "(\<And>s. I s \<Longrightarrow> \<exists>x s'. m s = (Ok x, s') \<and> I s') \<Longrightarrow> succeeds I m"
  by (simp add: succeeds_def)

lemma succeedsE:
  assumes "succeeds I m" "I s"
  obtains x s' where "m s = (Ok x, s')" "I s'"
  using assms unfolding succeeds_def by blast

lemma succeeds_bindR: "succeeds I m \<Longrightarrow> (\<And>x. succeeds I (k x)) \<Longrightarrow> succeeds I (bindR m k)"
  unfolding succeeds_def by (metis bindR_eq(1))

lemma succeeds_wrap: "succeeds I m \<Longrightarrow> succeeds I (ctxR f m)"
  unfolding succeeds_def by (metis ctxR_eq(1))

lemma succeeds_void: "succeeds I (void m) \<Longrightarrow> succeeds I m"
proof (rule succeedsI)
  fix s
  assume v: "succeeds I (void m)" and "I s"
  then obtain x s' where run: "void m s = (Ok x, s')" "I s'" by (rule succeedsE)
  from void_run [where m = m, OF run(1)] obtain q where "m s = (q, s')" ..
  with run show "\<exists>x s'. m s = (Ok x, s') \<and> I s'" by (cases q) (auto simp: void_def bindR_def)
qed

lemma succeeds_whenCluster:
  assumes "\<And>s. I s \<Longrightarrow> b (cluster s) \<Longrightarrow> \<exists>x s'. m s = (Ok x, s') \<and> I s'"
  shows "succeeds I (whenCluster b m)"
  unfolding succeeds_def whenCluster_def
  using assms by (simp add: getCluster_def askR_def bindR_def whenR_def ret_def)

section \<open>The stages\<close>

text \<open>What is asked of the resource \<open>cl\<close> and of the server.\<close>

definition rw_ready :: "'w kube \<Rightarrow> PiHoleCluster \<Rightarrow> bool" where
  "rw_ready K cl \<longleftrightarrow> (\<forall>w. \<exists>pods w'. k_list_pods K (clNamespace cl) (sts_labels cl ''readwrite'') w = (Inr pods, w') \<and>
     list_ex IsPodReady pods)"

definition accepts_status :: "('w \<Rightarrow> bool) \<Rightarrow> 'w kube \<Rightarrow> 'w net \<Rightarrow> PiHoleCluster \<Rightarrow> bool" where
  "accepts_status J K N cl \<longleftrightarrow> writes_keep J (same_resource cl) K \<and> net_keeps J N \<and>
     (\<forall>w c. J w \<longrightarrow> same_resource cl c \<longrightarrow> (\<exists>d. fst (k_status_update K c w) = Inr d))"

text \<open>The state between two stages.\<close>

definition underway :: "'w kube \<Rightarrow> ('w \<Rightarrow> (okey \<rightharpoonup> kobj)) \<Rightarrow> PiHoleCluster \<Rightarrow> 'w rs \<Rightarrow> bool" where
  "underway K objs cl s \<longleftrightarrow> provided K objs s \<and> same_resource cl (cluster s)"

lemma password_same:
  assumes "same_resource c d"
  shows "password_secret d = password_secret c" "password_key d = password_key c" "has_secret_ref d = has_secret_ref c"
    "pvc_params d = pvc_params c" "deployable K d = deployable K c"
proof -
  from assms have e: "clName d = clName c" "Config (clSpec d) = Config (clSpec c)" "Persistence (clSpec d) = Persistence (clSpec c)"
    "ReadOnlyVolume (clSpec d) = ReadOnlyVolume (clSpec c)" by (simp_all add: same_resource_def)
  show "password_secret d = password_secret c" "password_key d = password_key c" "has_secret_ref d = has_secret_ref c"
    "pvc_params d = pvc_params c" "deployable K d = deployable K c"
    by (simp_all only: password_secret_def password_key_def has_secret_ref_def pvc_params_def deployable_def parsable_def e)
qed

lemma provided_stage:
  assumes "stage objs F s t" "\<forall>k \<in> F. fst k \<noteq> SecretKind" "underway K objs cl s"
  shows "underway K objs cl t"
proof -
  have same: "same_resource (cluster s) (cluster t)" using assms(1) by (simp add: stage_def)
  have o: "objs (world t) (SecretKind, ns, n) = objs (world s) (SecretKind, ns, n)" for ns n
    using assms(1,2) unfolding stage_def by (metis fst_conv)
  have "clNamespace (cluster t) = clNamespace (cluster s)" using same by (simp add: same_resource_def)
  with assms(3) same_trans [OF _ same] show ?thesis
    by (simp add: underway_def provided_def password_ready_def password_same [OF same] o)
qed

locale willing_world = operator_world K objs like N + willing_server K objs like
  for K :: "'w kube" and objs :: "'w \<Rightarrow> (okey \<rightharpoonup> kobj)" and like :: "kobj \<Rightarrow> kobj \<Rightarrow> bool" and N :: "'w net"
begin

lemma operations_underway:
  "succeeds (underway K objs cl) (ensurePiHolePVC K)" "succeeds (underway K objs cl) (ensureReadWriteSTS K)"
  "succeeds (underway K objs cl) (ensureReadOnlySTS K)" "succeeds (underway K objs cl) (ensureIngress K)"
  "succeeds (underway K objs cl) (ensurePodMonitor K)" "succeeds (underway K objs cl) (ensureDNSService K)"
proof -
  have one: "succeeds (underway K objs cl) m" if m: "m \<in> set (tl (operations K))" for m
  proof (rule succeedsI)
    fix s
    assume u: "underway K objs cl s"
    from operation_goes_through m have "\<forall>s. provided K objs s \<longrightarrow> (\<exists>s'. m s = (Ok (), s') \<and> provided K objs s')"
      unfolding list_all_iff by blast
    with u obtain s' where s': "m s = (Ok (), s')" "provided K objs s'" unfolding underway_def by blast
    have "m \<in> set (operations K)" using m by (simp add: operations_def)
    with operation_writes s'(1) have "writes_only objs (owned_keys (cluster s)) s s'" unfolding list_all_iff by blast
    then have "same_resource (cluster s) (cluster s')" using writes_stage by (auto simp: stage_def)
    with u s' same_trans show "\<exists>x s'. m s = (Ok x, s') \<and> underway K objs cl s'" unfolding underway_def by blast
  qed
  have mem: "void (ensurePiHolePVC K) \<in> set (tl (operations K))" "ensureReadWriteSTS K \<in> set (tl (operations K))"
    "ensureReadOnlySTS K \<in> set (tl (operations K))" "ensureIngress K \<in> set (tl (operations K))"
    "ensurePodMonitor K \<in> set (tl (operations K))" "ensureDNSService K \<in> set (tl (operations K))"
    by (simp_all add: operations_def)
  show "succeeds (underway K objs cl) (ensurePiHolePVC K)" by (rule succeeds_void [OF one [OF mem(1)]])
  show "succeeds (underway K objs cl) (ensureReadWriteSTS K)" "succeeds (underway K objs cl) (ensureReadOnlySTS K)"
    "succeeds (underway K objs cl) (ensureIngress K)" "succeeds (underway K objs cl) (ensurePodMonitor K)"
    "succeeds (underway K objs cl) (ensureDNSService K)"
    using one mem by blast+
qed

lemma replicaStage_succeeds:
  assumes "rw_ready K cl"
  shows "succeeds (underway K objs cl) (replicaStage K)"
proof (rule succeedsI)
  fix s
  assume u: "underway K objs cl s"
  then have c: "clName (cluster s) = clName cl" "clNamespace (cluster s) = clNamespace cl"
    by (simp_all add: underway_def same_resource_def)
  then have l: "sts_labels (cluster s) ''readwrite'' = sts_labels cl ''readwrite''"
    by (simp add: sts_labels_def instance_labels_def)
  from assms obtain pods w where "k_list_pods K (clNamespace cl) (sts_labels cl ''readwrite'') (world s) = (Inr pods, w)"
    "list_ex IsPodReady pods" unfolding rw_ready_def by blast
  then have run: "areRWPodsReady K s = (Ok True, s\<lparr>world := w\<rparr>)"
    by (cases pods) (auto simp: areRWPodsReady_def getCluster_def askR_def bindR_def ctxR_def callW_def callR_def ret_def c l)
  have "underway K objs cl (s\<lparr>world := w\<rparr>)"
    by (rule provided_stage [OF readiness_stage(1) [OF run] _ u]) simp
  from succeedsE [OF operations_underway(3) this] obtain x s' where
    "ensureReadOnlySTS K (s\<lparr>world := w\<rparr>) = (Ok x, s')" "underway K objs cl s'" by blast
  with run show "\<exists>x s'. replicaStage K s = (Ok x, s') \<and> underway K objs cl s'"
    by (simp add: replicaStage_def bindR_def ctxR_def)
qed

lemma ensureResources_succeeds:
  assumes "Config (clSpec cl) = Some cfg"
    and "apSecretRef (cfgAPIPassword cfg) = None \<and> apPassword (cfgAPIPassword cfg) \<noteq> [] \<or> password_ready objs cl (world s)"
    and "deployable K cl" "cluster s = cl"
    and "0 < sint (Replicas (clSpec cl)) \<Longrightarrow> Sync (clSpec cl) = None \<and> rw_ready K cl"
  shows "\<exists>s'. ensureResources K N ctx s = (Ok (), s')"
proof -
  from secret_succeeds [of s cfg] assms(1,2,4) obtain a t where
    t: "ensureAPISecret K s = (Ok a, t)" "cluster t = cl" "password_ready objs cl (world t)" by auto
  then have u: "underway K objs cl t" using assms(3) by (simp add: underway_def provided_def same_refl)
  have same: "Replicas (clSpec (cluster v)) = Replicas (clSpec cl)" "Sync (clSpec (cluster v)) = Sync (clSpec cl)"
    if "underway K objs cl v" for v
    using that by (simp_all add: underway_def same_resource_def)
  note ops = operations_underway [of cl] and ro = replicaStage_succeeds [of cl]
  have ro: "\<exists>x s'. replicaStage K v = (Ok x, s') \<and> underway K objs cl s'"
    if "underway K objs cl v" "0 < sint (Replicas (clSpec (cluster v)))" for v
    using that(1) assms(5) replicaStage_succeeds [of cl] that(2) unfolding same(1) [OF that(1)] succeeds_def by blast
  have no: False if "underway K objs cl v" "Sync (clSpec (cluster v)) \<noteq> None \<and> 0 < sint (Replicas (clSpec (cluster v)))" for v
    using that assms(5) same [OF that(1)] by auto
  have "succeeds (underway K objs cl)
     (bindR (wrap ''ensurePiHolePVC'' (ensurePiHolePVC K)) (\<lambda>_.
     bindR (wrap ''ensureReadWriteSTS'' (ensureReadWriteSTS K)) (\<lambda>_.
     bindR (whenCluster (\<lambda>cl. 0 < sint (Replicas (clSpec cl))) (replicaStage K)) (\<lambda>_.
     bindR (whenCluster (\<lambda>cl. Sync (clSpec cl) \<noteq> None \<and> 0 < sint (Replicas (clSpec cl))) (syncStage K N ctx)) (\<lambda>_.
     bindR (whenCluster ingressEnabled (wrap ''ensureIngress'' (ensureIngress K))) (\<lambda>_.
     bindR (whenCluster podMonitorEnabled (wrap ''ensurePodMonitor'' (ensurePodMonitor K))) (\<lambda>_.
     wrap ''ensureDNSService'' (ensureDNSService K))))))))" (is "succeeds _ ?rest")
    by (intro succeeds_bindR succeeds_wrap ops succeeds_whenCluster)
       (use ro no succeeds_wrap [OF ops(4), unfolded succeeds_def] succeeds_wrap [OF ops(5), unfolded succeeds_def] in \<open>blast+\<close>)
  from succeedsE [OF this u] obtain x s' where "?rest t = (Ok x, s')" by blast
  with t(1) show ?thesis by (simp add: ensureResources_def bindR_def ctxR_def)
qed

text \<open>The check finds what a deployment leaves behind, so it answers.\<close>

lemma mustExist_succeeds:
  assumes "objs (world s) (kd, clNamespace (cluster s), n) = Some x"
  shows "\<exists>w. mustExist K kd n s = (Ok x, s\<lparr>world := w\<rparr>) \<and> objs w = objs (world s)"
  using read_held [OF assms] by (auto simp: mustExist_def getCluster_def askR_def bindR_def ctxR_def)

lemma deployed_exists:
  assumes "deployed K objs like cl s" "Ingress (clSpec c) = Ingress (clSpec cl)" "same_resource cl c"
  shows "objs (world s) (sts_key c ''-rw'') \<noteq> None" "0 < sint (Replicas (clSpec c)) \<Longrightarrow> objs (world s) (sts_key c ''-ro'') \<noteq> None"
    "objs (world s) (claim_key c) \<noteq> None" "objs (world s) (service_key c) \<noteq> None"
    "ingressEnabled c \<Longrightarrow> objs (world s) (ingress_key c) \<noteq> None" "podMonitorEnabled c \<Longrightarrow> objs (world s) (monitor_key c) \<noteq> None"
proof -
  note k = same_keys [OF assms(3)]
  have r: "Replicas (clSpec c) = Replicas (clSpec cl)" "podMonitorEnabled c = podMonitorEnabled cl"
    using assms(3) by (simp_all add: same_resource_def)
  have h: "objs (world s) (key_of d) \<noteq> None" if "held K objs like d s" for d using that by (auto simp: held_def)
  have i: "instance_held K objs like cl s" and ro: "0 < sint (Replicas (clSpec cl)) \<Longrightarrow> replicas_held K objs like cl s"
    and rest: "objs (world s) (claim_key cl) \<noteq> None" "held K objs like (OService (desired_service cl)) s"
      "\<And>ing. Ingress (clSpec cl) = Some ing \<Longrightarrow> ingEnabled ing \<Longrightarrow> held K objs like (desired_ingress cl ing) s"
      "podMonitorEnabled cl \<Longrightarrow> held K objs like (desired_pod_monitor cl) s"
    using assms(1) unfolding deployed_def by blast+
  have key: "key_of (OStatefulSet d) = sts_key cl suf"
    if "same_resource cl e" "wired e (new_sts e (clName cl @ suf) role n) d" for e suf role n d
    using wired_key [OF that(2)] that(1) by (simp add: sts_key_def same_resource_def)
  show "objs (world s) (sts_key c ''-rw'') \<noteq> None"
    using i h key unfolding instance_held_def k by metis
  show "objs (world s) (sts_key c ''-ro'') \<noteq> None" if "0 < sint (Replicas (clSpec c))"
    using ro that h key unfolding replicas_held_def k r by metis
  show "objs (world s) (claim_key c) \<noteq> None" "objs (world s) (service_key c) \<noteq> None"
    using rest(1) h [OF rest(2)] by (simp_all add: k)
  show "objs (world s) (ingress_key c) \<noteq> None" if "ingressEnabled c"
    using that h [OF rest(3)] assms(2) by (auto simp: k ingressEnabled_def split: option.splits)
  show "objs (world s) (monitor_key c) \<noteq> None" if "podMonitorEnabled c"
    using that h [OF rest(4)] by (simp add: k r)
qed

lemma existsWhen_succeeds:
  assumes "b \<Longrightarrow> objs (world s) (kd, clNamespace (cluster s), n) \<noteq> None"
  shows "\<exists>w. existsWhen K b kd n s = (Ok (), s\<lparr>world := w\<rparr>) \<and> objs w = objs (world s)"
proof (cases b)
  case True
  with assms obtain x where "objs (world s) (kd, clNamespace (cluster s), n) = Some x" by blast
  from mustExist_succeeds [OF this] True show ?thesis by (auto simp: existsWhen_def whenR_def bindR_def ret_def)
next
  case False
  then show ?thesis by (intro exI [of _ "world s"]) (simp add: existsWhen_def whenR_def ret_def)
qed

text \<open>A read of an object of a known kind, followed by the rest.\<close>

definition answers :: "'w rs \<Rightarrow> (PiHoleCluster \<Rightarrow> ('w rs, bool) prog) \<Rightarrow> bool" where
  "answers s m \<longleftrightarrow> (\<forall>w. objs w = objs (world s) \<longrightarrow> (\<exists>b s'. m (cluster s) (s\<lparr>world := w\<rparr>) = (Ok b, s')))"

lemma answers_sts:
  assumes "objs (world s) (StatefulSetKind, clNamespace (cluster s), n) \<noteq> None" "\<And>x. answers s (k x)"
  shows "answers s (\<lambda>c. bindR (mustExist K StatefulSetKind n) (\<lambda>x. bindR (asStatefulSet x) (\<lambda>d. k d c)))"
  unfolding answers_def
proof (intro allI impI)
  fix w
  assume w: "objs w = objs (world s)"
  from assms(1) obtain x where x: "objs (world (s\<lparr>world := w\<rparr>)) (StatefulSetKind, clNamespace (cluster (s\<lparr>world := w\<rparr>)), n) = Some x"
    using w by auto
  from mustExist_succeeds [OF this] obtain v where v: "mustExist K StatefulSetKind n (s\<lparr>world := w\<rparr>) = (Ok x, s\<lparr>world := v\<rparr>)"
    "objs v = objs (world s)" using w by auto
  from stored_key [OF x] obtain d where "x = OStatefulSet d" by (cases x) (auto simp: key_of_def)
  with v assms(2) [of d] show "\<exists>b s'. bindR (mustExist K StatefulSetKind n) (\<lambda>x. bindR (asStatefulSet x) (\<lambda>d. k d (cluster s)))
      (s\<lparr>world := w\<rparr>) = (Ok b, s')"
    by (simp add: bindR_def asStatefulSet_def ret_def answers_def)
qed

lemma answers_claim:
  assumes "objs (world s) (PVCKind, clNamespace (cluster s), n) \<noteq> None" "\<And>x. answers s (k x)"
  shows "answers s (\<lambda>c. bindR (mustExist K PVCKind n) (\<lambda>x. bindR (asPVC x) (\<lambda>d. k d c)))"
  unfolding answers_def
proof (intro allI impI)
  fix w
  assume w: "objs w = objs (world s)"
  from assms(1) obtain x where x: "objs (world (s\<lparr>world := w\<rparr>)) (PVCKind, clNamespace (cluster (s\<lparr>world := w\<rparr>)), n) = Some x"
    using w by auto
  from mustExist_succeeds [OF this] obtain v where v: "mustExist K PVCKind n (s\<lparr>world := w\<rparr>) = (Ok x, s\<lparr>world := v\<rparr>)"
    "objs v = objs (world s)" using w by auto
  from stored_key [OF x] obtain d where "x = OPVC d" by (cases x) (auto simp: key_of_def)
  with v assms(2) [of d] show "\<exists>b s'. bindR (mustExist K PVCKind n) (\<lambda>x. bindR (asPVC x) (\<lambda>d. k d (cluster s)))
      (s\<lparr>world := w\<rparr>) = (Ok b, s')"
    by (simp add: bindR_def asPVC_def ret_def answers_def)
qed

lemma answers_basic:
  "answers s (\<lambda>_. ret b)" "answers s m \<Longrightarrow> answers s (\<lambda>c. if x then ret b else m c)"
  by (simp_all add: answers_def ret_def)

lemma answers_exists:
  assumes "b \<Longrightarrow> objs (world s) (kd, clNamespace (cluster s), n) \<noteq> None" "answers s m"
  shows "answers s (\<lambda>c. bindR (existsWhen K b kd n) (\<lambda>_. m c))"
  unfolding answers_def
proof (intro allI impI)
  fix w
  assume w: "objs w = objs (world s)"
  with existsWhen_succeeds [of b "s\<lparr>world := w\<rparr>" kd n] assms(1) obtain v where
    "existsWhen K b kd n (s\<lparr>world := w\<rparr>) = (Ok (), s\<lparr>world := v\<rparr>)" "objs v = objs (world s)" by auto
  with assms(2) show "\<exists>b' s'. bindR (existsWhen K b kd n) (\<lambda>_. m (cluster s)) (s\<lparr>world := w\<rparr>) = (Ok b', s')"
    by (simp add: bindR_def answers_def)
qed

lemma resourcesReady_succeeds:
  assumes "deployed K objs like cl s" "same_resource cl (cluster s)"
  shows "\<exists>b s'. resourcesReady K s = (Ok b, s')"
proof -
  let ?c = "cluster s"
  have "Ingress (clSpec ?c) = Ingress (clSpec cl)" using assms(2) by (simp add: same_resource_def)
  note E = deployed_exists [OF assms(1) this assms(2), unfolded keys]
  have ro: "answers s (\<lambda>c. bindR (readOnlyReady K ?c) (\<lambda>b. k b c))" if k: "\<And>b. answers s (k b)" for k
  proof (cases "Sync (clSpec ?c) \<noteq> None \<and> 0 < sint (Replicas (clSpec ?c))")
    case True
    have assoc: "bindR (bindR m h) k' = bindR m (\<lambda>x. bindR (h x) k')" for m :: "('w rs, kobj) prog"
      and h :: "kobj \<Rightarrow> ('w rs, bool) prog" and k' :: "bool \<Rightarrow> ('w rs, bool) prog"
      by (rule ext) (simp add: bindR_def split: prod.splits res.splits)
    have assoc': "bindR (bindR m h) k' = bindR m (\<lambda>x. bindR (h x) k')" for m :: "('w rs, StatefulSet) prog"
      and h :: "StatefulSet \<Rightarrow> ('w rs, bool) prog" and k' :: "bool \<Rightarrow> ('w rs, bool) prog"
      by (rule ext) (simp add: bindR_def split: prod.splits res.splits)
    have "bindR (ret z) h = h z" for z and h :: "bool \<Rightarrow> ('w rs, bool) prog" by (rule ext) (simp add: bindR_def ret_def)
    with True answers_sts [OF E(2), of "\<lambda>d. k (stsReadyReplicas d = Replicas (clSpec ?c))"] k show ?thesis
      by (simp add: readOnlyReady_def assoc assoc')
  next
    case False
    then have "bindR (readOnlyReady K ?c) h = h True" for h :: "bool \<Rightarrow> ('w rs, bool) prog"
      by (auto simp: readOnlyReady_def bindR_def ret_def fun_eq_iff)
    with k show ?thesis by simp
  qed
  have "answers s (\<lambda>_. resourcesReady K)" (is ?A)
  proof -
    have step: "resourcesReady K (s\<lparr>world := w\<rparr>) = bindR (mustExist K StatefulSetKind (clName ?c @ ''-rw'')) (\<lambda>x. bindR (asStatefulSet x) (\<lambda>rwSTS.
       if stsReadyReplicas rwSTS \<noteq> 1 then ret False
       else bindR (readOnlyReady K ?c) (\<lambda>ro. if \<not> ro then ret False
       else bindR (mustExist K PVCKind (clName ?c @ ''-data'')) (\<lambda>y. bindR (asPVC y) (\<lambda>pvc.
       if pvcPhase pvc \<noteq> ''Bound'' then ret False
       else bindR (existsWhen K True ServiceKind (clName ?c @ ''-dns'')) (\<lambda>_.
       bindR (existsWhen K (ingressEnabled ?c) IngressKind (clName ?c)) (\<lambda>_.
       bindR (existsWhen K (podMonitorEnabled ?c) PodMonitorKind (clName ?c)) (\<lambda>_. ret True)))))))) (s\<lparr>world := w\<rparr>)" for w
      by (simp add: resourcesReady_def getCluster_def askR_def bindR_eq)
    have "answers s (\<lambda>c. bindR (mustExist K StatefulSetKind (clName ?c @ ''-rw'')) (\<lambda>x. bindR (asStatefulSet x) (\<lambda>rwSTS.
       if stsReadyReplicas rwSTS \<noteq> 1 then ret False
       else bindR (readOnlyReady K ?c) (\<lambda>ro. if \<not> ro then ret False
       else bindR (mustExist K PVCKind (clName ?c @ ''-data'')) (\<lambda>y. bindR (asPVC y) (\<lambda>pvc.
       if pvcPhase pvc \<noteq> ''Bound'' then ret False
       else bindR (existsWhen K True ServiceKind (clName ?c @ ''-dns'')) (\<lambda>_.
       bindR (existsWhen K (ingressEnabled ?c) IngressKind (clName ?c)) (\<lambda>_.
       bindR (existsWhen K (podMonitorEnabled ?c) PodMonitorKind (clName ?c)) (\<lambda>_. ret True)))))))))"
      by (rule answers_sts answers_claim answers_exists answers_basic ro E | assumption)+
    then show ?A unfolding answers_def step .
  qed
  then have "\<exists>b s'. resourcesReady K (s\<lparr>world := world s\<rparr>) = (Ok b, s')" unfolding answers_def by blast
  then show ?thesis by simp
qed

text \<open>The status is written.\<close>

lemma updateStatus_succeeds:
  assumes "accepts_status J K N cl" "J (world s)" "same_resource cl (cluster s)"
  shows "\<exists>s'. updateStatus K b msg s = (Ok (), s')"
proof -
  let ?I = "WC J (same_resource cl)"
  have W: "writes_keep J (same_resource cl) K" using assms(1) by (simp add: accepts_status_def)
  have m: "succeeds ?I (modStatus f)" for f
    using same_status [of cl]
    by (intro succeedsI) (simp add: modStatus_def modCluster_def modS_def WC_def status_free_def)
  have c: "succeeds ?I (setStatusCondition K x)" for x
  proof (rule succeedsI)
    fix t
    assume I: "?I t"
    obtain r t' where run: "setStatusCondition K x t = (r, t')" by (meson surj_pair)
    have "keeps ?I (setStatusCondition K x)"
      unfolding setStatusCondition_def
      by (intro keeps_bindR own_state_keeps writes_keepD(4) [OF W] status_changes_keep same_status)
    from keepsD [OF this I run] setStatusCondition_run [OF conditions run] run
    show "\<exists>y t'. setStatusCondition K x t = (Ok y, t') \<and> ?I t'" by auto
  qed
  have skip: "succeeds ?I (whenR q p)" if "succeeds ?I p" for q and p :: "('w rs, unit) prog"
    using that by (simp add: whenR_def succeeds_def ret_def)
  have u: "\<exists>y t'. UpdateClusterStatusWithRetry K t = (Ok y, t')" if I: "?I t" for t
  proof -
    from I assms(1) obtain d where "fst (k_status_update K (cluster t) (world t)) = Inr d" by (auto simp: accepts_status_def WC_def)
    then obtain w where "k_status_update K (cluster t) (world t) = (Inr d, w)" by (metis prod.collapse)
    then have one: "bindR getCluster (\<lambda>cl. bindR (callW (k_status_update K cl)) (\<lambda>cl. modCluster (\<lambda>_. cl))) t =
        (Ok (), t\<lparr>world := w, cluster := d\<rparr>)" (is "?f t = _")
      by (simp add: getCluster_def askR_def bindR_def callW_def callR_def modCluster_def modS_def)
    from retry_first [where f = ?f, OF one] show ?thesis unfolding UpdateClusterStatusWithRetry_def by blast
  qed
  obtain t where t: "modStatus (\<lambda>st. st\<lparr>ResourcesReady := b, LastError := msg\<rparr>) s = (Ok (), t)" "?I t"
    using succeedsE [OF m, of s] assms(2,3) by (metis WC_def old.unit.exhaust)
  let ?x = "condition typePiHoleClusterReady ''True'' ''ResourcesReady''
      (''All resources are healthy. Ready='' @ (if b then ''true'' else ''false''))"
    and ?y = "condition typePiHoleClusterNotReady ''False'' ''MissingResources'' msg"
  obtain t1 where t1: "setStatusCondition K ?x t = (Ok (), t1)" "?I t1" by (rule succeedsE [OF c t(2)]) simp
  obtain t2 where t2: "whenR (\<not> b) (setStatusCondition K ?y) t1 = (Ok (), t2)" "?I t2"
    by (rule succeedsE [OF skip [OF c] t1(2)]) simp
  from u [OF t2(2)] obtain t3 where t3: "UpdateClusterStatusWithRetry K t2 = (Ok (), t3)" by auto
  have "updateStatus K b msg s = (Ok (), t3)"
    unfolding updateStatus_def
    using t(1) t1(1) t2(1) t3 by (cases b) (simp_all add: bindR_def ctxR_def)
  then show ?thesis ..
qed

text \<open>A whole reconciliation.\<close>

lemma reconcile_after:
  assumes got: "k_get_cluster K ns name (world s) = (Inr cl, w)"
    and fin: "finalizer \<in> set (clFinalizers cl)" "clDeletionTimestamp cl = None"
    and e: "ensureResources K N ctx (fetched cl w s) = (Ok (), s1)"
    and st: "accepts_status J K N cl" "J w"
  shows "\<exists>s'. Reconcile K N ctx ns name s = (Ok 0, s')"
proof -
  let ?t = "fetched cl w s"
  note D = ensureResources_Ok [OF e]
  then have same: "same_resource cl (cluster s1)" by (simp add: stage_def)
  have "keeps (WC J (same_resource cl)) (ensureResources K N ctx)"
    using st(1) by (intro ensureResources_keeps) (simp_all add: accepts_status_def)
  from keepsD [OF this _ e] st(2) have I: "WC J (same_resource cl) s1" by (simp add: WC_def same_refl)
  from D same obtain b s2 where r: "resourcesReady K s1 = (Ok b, s2)" using resourcesReady_succeeds [of cl s1] by auto
  have "keeps (WC J (same_resource cl)) (resourcesReady K)"
    using st(1) by (intro checks_keep) (simp add: accepts_status_def)
  from keepsD [OF this I r] updateStatus_succeeds [OF st(1), of s2 b "[]"] obtain s3 where
    u: "updateStatus K b [] s2 = (Ok (), s3)" by (auto simp: WC_def)
  have "resourceStages K N ctx ?t = (Ok 0, s3)"
    using e r u by (simp add: resourceStages_def bindR_def ctxR_def ret_def)
  then show ?thesis unfolding Reconcile_run(2) [OF got] using fin by simp
qed

lemma reconcile_goes_through:
  assumes got: "k_get_cluster K ns name (world s) = (Inr cl, w)"
    and fin: "finalizer \<in> set (clFinalizers cl)" "clDeletionTimestamp cl = None"
    and pw: "Config (clSpec cl) = Some cfg"
      "apSecretRef (cfgAPIPassword cfg) = None \<and> apPassword (cfgAPIPassword cfg) \<noteq> [] \<or> password_ready objs cl w"
    and dep: "deployable K cl" "0 < sint (Replicas (clSpec cl)) \<Longrightarrow> Sync (clSpec cl) = None \<and> rw_ready K cl"
    and st: "accepts_status J K N cl" "J w"
  shows "\<exists>s'. Reconcile K N ctx ns name s = (Ok 0, s')"
proof -
  from ensureResources_succeeds [of cl cfg "fetched cl w s" ctx] pw dep obtain s1 where
    "ensureResources K N ctx (fetched cl w s) = (Ok (), s1)" by auto
  from reconcile_after [OF got fin this st] show ?thesis .
qed

end

interpretation estate_willing: willing_world "estate_kube pods" estate_objs grown estate_net for pods
  by (rule willing_world.intro [OF estate.operator_world_axioms willing_estate.willing_server_axioms])

end
