(* ===== verification/Operator.thy ===== *)
theory Operator
  imports Liveness
begin

text \<open>
  The properties of a whole reconciliation and of the operator over time, with runs in the reference
  world.
\<close>

section \<open>A successful reconciliation\<close>

lemma all_up_same: "same_resource c d \<Longrightarrow> all_up d f = all_up c f"
  by (simp add: all_up_def replicas_up_def same_keys) (simp add: same_resource_def ingressEnabled_def)

lemma five_seconds: "(5 * second :: duration) \<noteq> 0"
  by (simp add: second_def)

context operator_world
begin

lemma resourceStages_Ok:
  assumes "resourceStages K N ctx s = (Ok v, s')"
  defines "c \<equiv> cluster s"
  shows "stage objs (owned_keys c) s s' \<and> deployed K objs like c s' \<and>
    (reliable K objs \<longrightarrow> (ResourcesReady (clStatus (cluster s')) \<longleftrightarrow> all_up c (objs (world s'))))"
proof -
  from assms(1) obtain s1 b s2 where e: "ensureResources K N ctx s = (Ok (), s1)" and r: "resourcesReady K s1 = (Ok b, s2)"
    and u: "updateStatus K b [] s2 = (Ok (), s')"
    unfolding resourceStages_def by (auto elim!: bindR_OkE ctxR_OkE)
  note E = ensureResources_Ok [OF e, folded c_def]
  have q: "stage objs {} s1 s'" by (rule stage_trans [OF resourcesReady_stage [OF r] updateStatus_stage [OF u]])
  have st: "stage objs (owned_keys c) s s'" using stage_trans [OF conjunct1 [OF E] stage_mono [OF q]] by simp
  have o: "objs (world s') = objs (world s1)" using q by (auto simp: stage_def fun_eq_iff)
  have h: "held K objs like d s'" if "held K objs like d s1" for d using held_stage [OF that q] by simp
  have "deployed K objs like c s'"
    using E instance_stage [OF _ q] replicas_stage [OF _ q] h o unfolding deployed_def by simp
  moreover have "ResourcesReady (clStatus (cluster s')) \<longleftrightarrow> all_up c (objs (world s'))" if rel: "reliable K objs"
  proof -
    have "ResourcesReady (clStatus (cluster s')) = b"
      using updateStatus_run [OF conditions echoes world_retry u] by blast
    moreover have "b \<longleftrightarrow> all_up (cluster s1) (objs (world s1))"
      using resourcesReady_checks [of s1] rel r by (auto simp: checks_def)
    moreover have "all_up (cluster s1) f = all_up c f" for f
      using all_up_same E unfolding stage_def c_def by blast
    ultimately show ?thesis using o by simp
  qed
  ultimately show ?thesis using st by blast
qed

end

text \<open>A reconciliation that does not ask to be repeated went through the stages.\<close>

lemma Reconcile_zero:
  assumes "k_get_cluster K ns name (world s) = (Inr cl, w)" "Reconcile K N ctx ns name s = (Ok 0, s')"
  shows "finalizer \<in> set (clFinalizers cl)" "clDeletionTimestamp cl = None"
    "resourceStages K N ctx (fetched cl w s) = (Ok 0, s')"
proof -
  note R = Reconcile_run(2) [OF assms(1), of N ctx, unfolded assms(2), symmetric]
  have no: "updated out msg t \<noteq> (Ok 0, s')" for out msg and t :: "'a rs"
    using five_seconds by (auto simp: updated_def split: prod.splits sum.splits)
  show f: "finalizer \<in> set (clFinalizers cl)"
  proof (rule ccontr)
    assume "\<not> ?thesis"
    with R no show False by (simp add: addFinalizer_run Let_def)
  qed
  show d: "clDeletionTimestamp cl = None"
  proof (rule ccontr)
    assume "\<not> ?thesis"
    with R f have "handleDelete K (fetched cl w s) = (Ok 0, s')" by simp
    then show False using five_seconds unfolding handleDelete_def by (auto elim!: bindR_OkE)
  qed
  show "resourceStages K N ctx (fetched cl w s) = (Ok 0, s')" using R f d by simp
qed



text \<open>C6: a reconciliation always comes back with a value or an error, never a panic or a deadlock, and it
  keeps the registry of API clients well formed, for every resource that is admitted: with a block
  \<open>readOnlyVolume\<close>, sizes that can be parsed, and a block \<open>config\<close> if ad-lists are synchronised.\<close>

theorem reconcile_returns:
  assumes "operator_world K objs like N" "reg_ok s" "admitted K ns name s" "Reconcile K N ctx ns name s = (r, s')"
  shows "settled r \<and> reg_ok s'"
  using operator_world.Reconcile_returns [OF assms(1,2) _ assms(4)] assms(3) unfolding admitted_def by blast

section \<open>The finalizer\<close>

context operator_world
begin

text \<open>Neither the deletion nor the finalizer touches an object.\<close>

lemma bookkeeping_objs:
  "handleDelete K s = (r, s') \<Longrightarrow> objs (world s') = objs (world s)"
  "addFinalizer K s = (r, s') \<Longrightarrow> objs (world s') = objs (world s)"
proof -
  let ?I = "\<lambda>f. WC (\<lambda>w. objs w = f) (\<lambda>_. True)"
  have m: "keeps (?I f) (modCluster g)" "keeps (?I f) (modS (\<lambda>s. s\<lparr>ApiClients := M\<rparr>))" for f g M
    unfolding modCluster_def by (auto intro!: keeps_modS simp: WC_def)
  have u: "keeps (?I f) (updateCluster K)" for f
    unfolding updateCluster_def by (intro keeps_bindR own_state_keeps world_calls_keep update_quiet m)
  have c: "keeps (?I f) (closeAll K)" for f
    unfolding closeAll_def rangeClients_def
    by (intro keeps_bindR keeps_forR keeps_option keeps_basic own_state_keeps world_calls_keep order_quiet)
  have "keeps (?I f) (handleDelete K)" "keeps (?I f) (addFinalizer K)" for f
    unfolding handleDelete_def addFinalizer_def by (intro keeps_bindR keeps_ctxR keeps_basic m u c)+
  from keepsD [OF this(1), of "objs (world s)" s r s'] keepsD [OF this(2), of "objs (world s)" s r s']
  show "handleDelete K s = (r, s') \<Longrightarrow> objs (world s') = objs (world s)"
    "addFinalizer K s = (r, s') \<Longrightarrow> objs (world s') = objs (world s)"
    by (simp_all add: WC_def)
qed

lemma deletion_run:
  assumes "reg_ok s" "handleDelete K s = (r, s')"
  shows "ApiClients s' = [] \<and> {a. a < nextAddr s'} \<subseteq> set (idleClosed s') \<and>
    (\<exists>u out. k_update_cluster K ((cluster s)\<lparr>clFinalizers := filter (\<lambda>v. v \<noteq> finalizer) (clFinalizers (cluster s))\<rparr>) u = (out, world s') \<and>
      (case out of Inr d \<Rightarrow> r = Ok (5 * second) \<and> cluster s' = d | Inl e \<Rightarrow> r = Err (Wrapf ''removing finalizer'' [] e)))"
proof -
  obtain names w c where n: "mset names = mset (mkeys (ApiClients s))"
    and c: "c = (cluster s)\<lparr>clFinalizers := RemoveString (clFinalizers (cluster s)) finalizer\<rparr>"
    and run: "handleDelete K s = updated (k_update_cluster K c w) ''removing finalizer''
      (s\<lparr>world := w, idleClosed := idleClosed s @ map (pointer (ApiClients s)) names, ApiClients := [], cluster := c\<rparr>)" by (rule handleDelete_run [OF ranges assms(1)])
  have "\<forall>a < nextAddr s. a \<in> set (idleClosed s @ map (pointer (ApiClients s)) names)"
    using closed_registry [OF assms(1) n] unfolding reg_inv_def by simp
  then have sub: "{a. a < nextAddr s} \<subseteq> set (idleClosed s @ map (pointer (ApiClients s)) names)" by blast
  have c': "c = (cluster s)\<lparr>clFinalizers := filter (\<lambda>v. v \<noteq> finalizer) (clFinalizers (cluster s))\<rparr>"
    by (simp add: c RemoveString_filter)
  obtain out v where o: "k_update_cluster K c w = (out, v)" by (meson surj_pair)
  with run assms(2) sub have "ApiClients s' = [] \<and> {a. a < nextAddr s'} \<subseteq> set (idleClosed s') \<and> world s' = v \<and>
      (case out of Inr d \<Rightarrow> r = Ok (5 * second) \<and> cluster s' = d | Inl e \<Rightarrow> r = Err (Wrapf ''removing finalizer'' [] e))"
    by (cases out) (simp_all add: updated_def)
  with o show ?thesis unfolding c' by blast
qed

lemma deletion_reconciled:
  assumes "reg_ok s" "k_get_cluster K ns name (world s) = (Inr cl, w)"
    and "finalizer \<in> set (clFinalizers cl)" "clDeletionTimestamp cl \<noteq> None"
    and "Reconcile K N ctx ns name s = (r, s')"
  shows "ApiClients s' = [] \<and> {a. a < nextAddr s'} \<subseteq> set (idleClosed s') \<and> objs (world s') = objs w \<and>
    (\<exists>u out. k_update_cluster K (cl\<lparr>clFinalizers := filter (\<lambda>v. v \<noteq> finalizer) (clFinalizers cl)\<rparr>) u = (out, world s') \<and>
      (case out of Inr d \<Rightarrow> r = Ok (5 * second) \<and> cluster s' = d | Inl e \<Rightarrow> r = Err (Wrapf ''removing finalizer'' [] e)))"
proof -
  from Reconcile_run(2) [OF assms(2), of N ctx] assms(3-5) have run: "handleDelete K (fetched cl w s) = (r, s')" by simp
  have "reg_ok (fetched cl w s)" using assms(1) by simp
  from deletion_run [OF this run] bookkeeping_objs(1) [OF run] show ?thesis by simp
qed

end

text \<open>C10: the reconciliation of a resource that is being deleted closes every API client of the process,
  those of other resources included, empties the registry, and sends the resource without the finalizer;
  it succeeds exactly when the server accepts that, and touches no object of the resource.\<close>

theorem deletion_closes_every_client:
  assumes "operator_world K objs like N" "reg_ok s" "k_get_cluster K ns name (world s) = (Inr cl, w)"
    and "finalizer \<in> set (clFinalizers cl)" "clDeletionTimestamp cl \<noteq> None"
    and "Reconcile K N ctx ns name s = (r, s')"
  shows "ApiClients s' = [] \<and> {a. a < nextAddr s'} \<subseteq> set (idleClosed s') \<and> objs (world s') = objs w \<and>
    (\<exists>u out. k_update_cluster K (cl\<lparr>clFinalizers := filter (\<lambda>v. v \<noteq> finalizer) (clFinalizers cl)\<rparr>) u = (out, world s') \<and>
      (case out of Inr d \<Rightarrow> r = Ok (5 * second) \<and> cluster s' = d | Inl e \<Rightarrow> r = Err (Wrapf ''removing finalizer'' [] e)))"
  by (rule operator_world.deletion_reconciled [OF assms])

text \<open>C30: the finalizer comes before anything else. A resource without it gets it, also when it is being
  deleted and other finalizers still hold it, although the API server forbids adding a finalizer to such a
  resource; nothing is deployed and no API client is touched in this round.\<close>

theorem finalizer_comes_first:
  assumes "operator_world K objs like N" "k_get_cluster K ns name (world s) = (Inr cl, w)"
    and "finalizer \<notin> set (clFinalizers cl)" "Reconcile K N ctx ns name s = (r, s')"
  shows "(\<exists>out. k_update_cluster K (cl\<lparr>clFinalizers := clFinalizers cl @ [finalizer]\<rparr>) w = (out, world s') \<and>
      (case out of Inr d \<Rightarrow> r = Ok (5 * second) \<and> cluster s' = d | Inl e \<Rightarrow> r = Err (Wrapf ''adding finalizer'' [] e))) \<and>
    objs (world s') = objs w \<and> ApiClients s' = ApiClients s"
proof -
  from Reconcile_run(2) [OF assms(2), of N ctx] assms(3,4) have run: "addFinalizer K (fetched cl w s) = (r, s')" by simp
  obtain out v where o: "k_update_cluster K (cl\<lparr>clFinalizers := clFinalizers cl @ [finalizer]\<rparr>) w = (out, v)" by (meson surj_pair)
  with run have "world s' = v \<and> ApiClients s' = ApiClients s \<and>
      (case out of Inr d \<Rightarrow> r = Ok (5 * second) \<and> cluster s' = d | Inl e \<Rightarrow> r = Err (Wrapf ''adding finalizer'' [] e))"
    by (cases out) (auto simp: addFinalizer_run updated_def)
  with o operator_world.bookkeeping_objs(2) [OF assms(1) run] show ?thesis by simp
qed

text \<open>Once the resource is gone its reconciliation is an error that changes nothing, so the operator
  asks for it again and again, and the API clients it holds stay as they are.\<close>

theorem vanished_resource_is_an_error:
  assumes "k_get_cluster K ns name (world s) = (Inl (ApiStatus NotFound m), w)"
  shows "\<exists>e. Reconcile K N ctx ns name s = (Err e, s\<lparr>world := w\<rparr>)"
  by (rule Reconcile_run(1) [OF assms])


section \<open>The order of the stages\<close>

text \<open>The objects of the instance alone.\<close>

definition instance_keys :: "PiHoleCluster \<Rightarrow> okey set" where
  "instance_keys cl = {secret_key cl, claim_key cl, env_key cl, sts_key cl ''-rw''}"

text \<open>An operation that comes back, writes at most the objects \<open>G\<close> and leaves the API clients alone.\<close>

definition orderly :: "('w \<Rightarrow> (okey \<rightharpoonup> kobj)) \<Rightarrow> PiHoleCluster \<Rightarrow> okey set \<Rightarrow> ('w rs, 'a) prog \<Rightarrow> bool" where
  "orderly objs c G p \<longleftrightarrow> (\<forall>s q t. same_resource c (cluster s) \<longrightarrow> p s = (q, t) \<longrightarrow>
     settled q \<and> stage objs G s t \<and> ApiClients t = ApiClients s)"

definition clients_at :: "(string \<times> ApiClientEntry) list \<Rightarrow> PiHoleCluster \<Rightarrow> 'w rs \<Rightarrow> bool" where
  "clients_at M c s \<longleftrightarrow> ApiClients s = M \<and> same_resource c (cluster s)"

lemma clients_at_closed: "probe_closed (clients_at M c)"
  using spec_kept_same same_trans by (auto simp: probe_closed_def outer_def clients_at_def)

lemma orderlyI:
  assumes "\<And>M. returns (clients_at M c) p"
    and "\<And>s q t. same_resource c (cluster s) \<Longrightarrow> p s = (q, t) \<Longrightarrow> stage objs G s t"
  shows "orderly objs c G p"
  unfolding orderly_def
proof (intro allI impI)
  fix s q t
  assume same: "same_resource c (cluster s)" and run: "p s = (q, t)"
  then have I: "clients_at (ApiClients s) c s" by (simp add: clients_at_def)
  show "settled q \<and> stage objs G s t \<and> ApiClients t = ApiClients s"
    using returnsD [OF assms(1) I run] keepsD [OF returns_keeps [OF assms(1)] I run] assms(2) [OF same run]
    by (simp add: clients_at_def)
qed

text \<open>A program that stops with an error after writing at most the objects \<open>G\<close>.\<close>

definition stops :: "('w \<Rightarrow> (okey \<rightharpoonup> kobj)) \<Rightarrow> PiHoleCluster \<Rightarrow> okey set \<Rightarrow> ('w rs, 'a) prog \<Rightarrow> bool" where
  "stops objs c G m \<longleftrightarrow> (\<forall>s r s'. same_resource c (cluster s) \<longrightarrow> m s = (r, s') \<longrightarrow>
     (\<exists>e. r = Err e) \<and> stage objs G s s' \<and> ApiClients s' = ApiClients s)"

lemma stops_after:
  assumes "orderly objs c G p" "\<And>x. stops objs c G (k x)"
  shows "stops objs c G (bindR (ctxR f p) k)"
  unfolding stops_def
proof (intro allI impI)
  fix s r s'
  assume same: "same_resource c (cluster s)" and run: "bindR (ctxR f p) k s = (r, s')"
  obtain q t where q: "p s = (q, t)" by (meson surj_pair)
  with assms(1) same have o: "settled q" "stage objs G s t" "ApiClients t = ApiClients s" unfolding orderly_def by blast+
  then have "same_resource c (cluster t)" using same same_trans by (auto simp: stage_def)
  with q o run assms(2) stage_trans [OF o(2)]
  show "(\<exists>e. r = Err e) \<and> stage objs G s s' \<and> ApiClients s' = ApiClients s"
    by (cases q) (fastforce simp: bindR_def ctxR_def stops_def)+
qed

definition never_ready :: "'w kube \<Rightarrow> PiHoleCluster \<Rightarrow> bool" where
  "never_ready K c \<longleftrightarrow> (\<forall>w pods. fst (k_list_pods K (clNamespace c) (sts_labels c ''readwrite'') w) = Inr pods \<longrightarrow>
     \<not> list_ex IsPodReady pods)"

context operator_world
begin

lemma instance_orderly:
  assumes "deployable K c"
  shows "orderly objs c (instance_keys c) (ensureAPISecret K)" "orderly objs c (instance_keys c) (ensurePiHolePVC K)"
    "orderly objs c (instance_keys c) (ensureReadWriteSTS K)"
proof -
  note I = clients_at_closed [of _ c]
  note O = probe_closedD [OF I]
  have par: "parsable K (cluster u)" if "clients_at M c u" for u :: "'w rs" and M
    using that assms password_same(4) [of c "cluster u"]
    by (auto simp: deployable_def parsable_def same_resource_def clients_at_def)
  have w: "stage objs (instance_keys c) s t" if "writes_only objs F s t" "F \<subseteq> instance_keys c" for F s t
    using stage_mono [OF writes_stage [OF that(1)] that(2)] .
  show "orderly objs c (instance_keys c) (ensureAPISecret K)"
    by (rule orderlyI [OF single_upserts_return(1) [OF O(1)]], rule w [OF conjunct1 [OF ensureAPISecret_run]], assumption)
       (simp add: instance_keys_def same_keys)
  show "orderly objs c (instance_keys c) (ensurePiHolePVC K)"
    by (rule orderlyI [OF ensurePiHolePVC_returns [OF O(2) par]], assumption, rule w [OF conjunct1 [OF ensurePiHolePVC_writes]], assumption)
       (simp add: instance_keys_def same_keys)
  show "orderly objs c (instance_keys c) (ensureReadWriteSTS K)"
    by (rule orderlyI [OF ensureReadWriteSTS_returns [OF I par]], assumption, rule w [OF ensureReadWriteSTS_writes], assumption)
       (simp add: instance_keys_def same_keys)
qed

text \<open>While no read-write pod is ready the replica stage is refused, and so is all that follows.\<close>

lemma replicaStage_refused:
  assumes "same_resource c (cluster s)" "replicaStage K s = (r, s')" "never_ready K c"
  shows "(\<exists>e. r = Err e) \<and> stage objs {} s s' \<and> ApiClients s' = ApiClients s"
proof -
  have c: "clNamespace (cluster s) = clNamespace c" "sts_labels (cluster s) ''readwrite'' = sts_labels c ''readwrite''"
    using assms(1) by (simp_all add: same_resource_def sts_labels_def instance_labels_def)
  obtain x w where l: "k_list_pods K (clNamespace c) (sts_labels c ''readwrite'') (world s) = (x, w)" by (meson surj_pair)
  have o: "objs w = objs (world s)"
    using list_quiet [of "objs (world s)" "clNamespace c" "sts_labels c ''readwrite''"] l by (simp add: kept_world_def) (metis snd_conv)
  have q: "\<not> list_ex IsPodReady pods" if "x = Inr pods" for pods using assms(3) l that by (metis fst_conv never_ready_def)
  have "areRWPodsReady K s = (case x of Inl e \<Rightarrow> (Err (Wrapf ''list RW pods'' [] e), s\<lparr>world := w\<rparr>)
      | Inr pods \<Rightarrow> (Ok False, s\<lparr>world := w\<rparr>))"
    using l q by (auto simp: areRWPodsReady_def getCluster_def askR_def bindR_def ctxR_def callW_def callR_def ret_def c
        split: sum.splits)
  with assms(2) o show ?thesis
    by (cases x) (auto simp: replicaStage_def bindR_def ctxR_def fail_def stage_def same_refl)
qed

lemma stops_at_replicas:
  assumes "never_ready K c" "0 < sint (Replicas (clSpec c))"
  shows "stops objs c G (bindR (whenCluster (\<lambda>cl. 0 < sint (Replicas (clSpec cl))) (replicaStage K)) k)"
  unfolding stops_def
proof (intro allI impI)
  fix s r s'
  assume same: "same_resource c (cluster s)"
    and run: "bindR (whenCluster (\<lambda>cl. 0 < sint (Replicas (clSpec cl))) (replicaStage K)) k s = (r, s')"
  obtain q t where q: "replicaStage K s = (q, t)" by (meson surj_pair)
  note R = replicaStage_refused [OF same q assms(1)]
  have "0 < sint (Replicas (clSpec (cluster s)))" using same assms(2) by (simp add: same_resource_def)
  then have "whenCluster (\<lambda>cl. 0 < sint (Replicas (clSpec cl))) (replicaStage K) s = (q, t)"
    using q by (simp add: whenCluster_def getCluster_def askR_def bindR_def whenR_def)
  with run R have "(\<exists>e. r = Err e) \<and> s' = t" by (auto simp: bindR_def)
  with R stage_mono [of objs "{}" s t G] show "(\<exists>e. r = Err e) \<and> stage objs G s s' \<and> ApiClients s' = ApiClients s" by auto
qed

lemma ensureResources_stops:
  assumes "deployable K c" "never_ready K c" "0 < sint (Replicas (clSpec c))"
  shows "stops objs c (instance_keys c) (ensureResources K N ctx)"
  unfolding ensureResources_def by (intro stops_after instance_orderly assms stops_at_replicas)

lemma reconcile_waits:
  assumes "deployable K cl" "never_ready K cl" "0 < sint (Replicas (clSpec cl))"
    and "k_get_cluster K ns name (world s) = (Inr cl, w)" "finalizer \<in> set (clFinalizers cl)" "clDeletionTimestamp cl = None"
    and "Reconcile K N ctx ns name s = (r, s')"
  shows "(\<exists>e. r = Err e) \<and> (\<forall>k. k \<notin> instance_keys cl \<longrightarrow> objs (world s') k = objs w k) \<and> ApiClients s' = ApiClients s"
proof -
  let ?t = "fetched cl w s"
  from Reconcile_run(2) [OF assms(4), of N ctx] assms(5-7) have run: "resourceStages K N ctx ?t = (r, s')" by simp
  obtain q u where q: "ensureResources K N ctx ?t = (q, u)" by (meson surj_pair)
  have "same_resource cl (cluster ?t)" by (simp add: same_refl)
  with ensureResources_stops [OF assms(1-3)] q have *: "\<exists>e. q = Err e" "stage objs (instance_keys cl) ?t u" "ApiClients u = ApiClients ?t"
    unfolding stops_def by blast+
  from run q *(1) have "\<exists>e. r = Err e" "s' = u" by (auto simp: resourceStages_def bindR_def ctxR_def)
  with *(2,3) show ?thesis by (simp add: stage_def)
qed

end


section \<open>Runs in the reference world\<close>

text \<open>The cluster of \<open>Deployment\<close> with the finalizer, and a world that holds it and nothing else.\<close>

definition live_site :: PiHoleCluster where
  "live_site = site\<lparr>clFinalizers := [finalizer]\<rparr>"

definition estate_of :: "PiHoleCluster option \<Rightarrow> estate" where
  "estate_of c = \<lparr>esFarm = [], esCellar = [], esResource = c\<rparr>"

definition operator_at :: "PiHoleCluster option \<Rightarrow> estate rs" where
  "operator_at c = new_rs zero_cluster (estate_of c)"

lemma operator_at_simps [simp]: "world (operator_at c) = estate_of c" "reg_ok (operator_at c)" "ApiClients (operator_at c) = []"
  by (simp_all add: operator_at_def new_rs_def) (simp add: operator_at_def flip: new_rs_def)

lemma site_names: "clNamespace site = ''dns''" "clName site = ''pi''" "clDeletionTimestamp site = None"
  by (simp_all add: site_def some_cluster_def zero_cluster_def)

lemma live_fetch:
  assumes "clNamespace c = ''dns''" "clName c = ''pi''"
  shows "k_get_cluster (estate_kube pods) ''dns'' ''pi'' (world (operator_at (Some c))) = (Inr c, estate_of (Some c))"
  using assms by (simp add: estate_calls estate_fetch_def estate_of_def)

lemma live_given: "Config (clSpec live_site) = Some \<lparr>cfgAPIPassword = \<lparr>apPassword = ''pw'', apSecretRef = None\<rparr>, cfgEnvVars = [(''A'', ''1'')],
     cfgAdLists = []\<rparr>" "deployable (estate_kube pods) live_site" "Sync (clSpec live_site) = None"
  "0 < sint (Replicas (clSpec live_site))" "finalizer \<in> set (clFinalizers live_site)" "clDeletionTimestamp live_site = None"
  "clNamespace live_site = ''dns''" "clName live_site = ''pi''"
  by (simp_all add: live_site_def site_def site_spec_def zero_spec_def deployable_def parsable_def estate_calls some_cluster_def
      zero_cluster_def)

lemma pods_ready: "rw_ready (estate_kube (\<lambda>_. [ready_pod])) c" "never_ready (estate_kube (\<lambda>_. [])) c"
  by (simp_all add: rw_ready_def never_ready_def estate_calls ready_pod_def IsPodReady_iff)

text \<open>The world accepts the status of the resource it holds.\<close>

lemma estate_accepts:
  "accepts_status (\<lambda>e. \<exists>d. esResource e = Some d \<and> same_resource c d) (estate_kube pods) estate_net c"
proof -
  let ?J = "\<lambda>e. \<exists>d. esResource e = Some d \<and> same_resource c d" and ?K = "estate_kube pods"
  have farm: "esResource (snd (on_farm g e)) = esResource e" for g :: "farm \<Rightarrow> 'x \<times> farm" and e
    by (simp add: on_farm_def split: prod.split)
  have objs: "esResource (snd (on_objs g e)) = esResource e" for g e
    by (simp add: on_objs_def split: prod.split)
  have calls: "kept_world ?J (k_get ?K kd ns n)" "kept_world ?J (k_create ?K y)" "kept_world ?J (k_update ?K y)"
    "kept_world ?J (k_list_pods ?K ns ls)" "kept_world ?J (map_order ?K ks)" "kept_world ?J (set_status_condition ?K x cs)"
    for kd ns n y ls ks x cs
    by (simp_all add: kept_world_def estate_calls objs)
  have st: "?J (snd (k_status_update ?K d e)) \<and> (\<forall>d'. fst (k_status_update ?K d e) = Inr d' \<longrightarrow> same_resource c d') \<and>
      (\<exists>d'. fst (k_status_update ?K d e) = Inr d')" if J: "?J e" and d: "same_resource c d" for e d
  proof -
    from J obtain b where b: "esResource e = Some b" "same_resource c b" by blast
    then have "same_resource d b" using same_trans [OF same_sym [OF d]] by blast
    moreover have "same_resource c (b\<lparr>clStatus := x\<rparr>)" for x using b(2) same_status [of c] by (simp add: status_free_def)
    ultimately show ?thesis using b by (simp add: estate_calls estate_status_def)
  qed
  have "retrier (retry_on_conflict ?K) (calm esResource)" by (simp add: estate_calls conflict.retrier_axioms)
  moreover have "kept_by (WC ?J (same_resource c)) (calm esResource)" by (auto simp: kept_by_def WC_def calm_def)
  ultimately have "writes_keep ?J (same_resource c) ?K"
    unfolding writes_keep_def reads_keep_def
    using calls st same_status spec_kept_same same_trans by blast
  moreover have "net_keeps ?J estate_net" by (simp add: net_keeps_def kept_world_def estate_net_def farm)
  ultimately show ?thesis unfolding accepts_status_def using st by blast
qed

lemma live_run: "\<exists>s'. Reconcile (estate_kube (\<lambda>_. [ready_pod])) estate_net Background ''dns'' ''pi'' (operator_at (Some live_site)) = (Ok 0, s')"
  by (rule estate_willing.reconcile_goes_through [OF live_fetch [OF live_given(7,8)] live_given(5,6,1) _ live_given(2) _ estate_accepts])
     (simp_all add: live_given pods_ready estate_of_def same_refl)



lemma live_fit: "fit (estate_kube pods) live_site"
  by (simp add: fit_def live_given)

lemma live_admitted: "clNamespace c = ''dns'' \<Longrightarrow> clName c = ''pi'' \<Longrightarrow> fit (estate_kube pods) c \<Longrightarrow>
    admitted (estate_kube pods) ''dns'' ''pi'' (operator_at (Some c))"
  using live_fetch [of c pods] by (simp add: admitted_def)

theorem reconcile_returns_witness:
  "settled (fst (Reconcile (estate_kube (\<lambda>_. [])) estate_net Background ''dns'' ''pi'' (operator_at (Some live_site))))"
proof -
  obtain r s' where run: "Reconcile (estate_kube (\<lambda>_. [])) estate_net Background ''dns'' ''pi'' (operator_at (Some live_site)) = (r, s')"
    by (meson surj_pair)
  from reconcile_returns [OF estate.operator_world_axioms _ live_admitted [OF live_given(7,8) live_fit] run] run show ?thesis by simp
qed

definition dying_site :: PiHoleCluster where
  "dying_site = live_site\<lparr>clDeletionTimestamp := Some 1\<rparr>"

text \<open>The operator with one client, of the pod of some other resource.\<close>

definition busy_operator :: "PiHoleCluster option \<Rightarrow> estate rs" where
  "busy_operator c = (operator_at c)\<lparr>ApiClients := [(''other-rw-0'', \<lparr>enClient = Some 0, enIP = ''10.0.0.9''\<rparr>)],
     heap := (\<lambda>_. NewAPIClient (base_url ''10.0.0.9'') ''pw'' (10 * second) True), nextAddr := 1\<rparr>"

lemma busy_simps [simp]: "world (busy_operator c) = estate_of c" "reg_ok (busy_operator c)" "nextAddr (busy_operator c) = 1"
  by (auto simp: busy_operator_def reg_ok_def reg_inv_def entry_ok_def NewAPIClient_def split: if_splits)

lemma dying_facts: "clNamespace dying_site = ''dns''" "clName dying_site = ''pi''" "finalizer \<in> set (clFinalizers dying_site)"
  "clDeletionTimestamp dying_site \<noteq> None"
  by (simp_all add: dying_site_def live_given)

theorem deletion_closes_every_client_witness:
  "\<exists>r s'. Reconcile (estate_kube (\<lambda>_. [])) estate_net Background ''dns'' ''pi'' (busy_operator (Some dying_site)) = (r, s') \<and>
     ApiClients s' = [] \<and> nextAddr (busy_operator (Some dying_site)) = 1"
proof -
  let ?s = "busy_operator (Some dying_site)"
  obtain r s' where run: "Reconcile (estate_kube (\<lambda>_. [])) estate_net Background ''dns'' ''pi'' ?s = (r, s')" by (meson surj_pair)
  have "k_get_cluster (estate_kube (\<lambda>_. [])) ''dns'' ''pi'' (world ?s) = (Inr dying_site, estate_of (Some dying_site))"
    using live_fetch [of dying_site "\<lambda>_. []"] dying_facts by simp
  from deletion_closes_every_client [OF estate.operator_world_axioms _ this dying_facts(3,4) run] run show ?thesis by auto
qed

definition foreign_site :: PiHoleCluster where
  "foreign_site = dying_site\<lparr>clFinalizers := [''other/finalizer'']\<rparr>"

theorem finalizer_comes_first_witness:
  "\<exists>s'. Reconcile (estate_kube (\<lambda>_. [])) estate_net Background ''dns'' ''pi'' (busy_operator (Some foreign_site)) = (Ok (5 * second), s') \<and>
     esResource (world s') = Some (foreign_site\<lparr>clFinalizers := [''other/finalizer'', finalizer]\<rparr>) \<and>
     clDeletionTimestamp foreign_site \<noteq> None"
proof -
  let ?s = "busy_operator (Some foreign_site)" and ?c = "foreign_site\<lparr>clFinalizers := [''other/finalizer'', finalizer]\<rparr>"
  have f: "clNamespace foreign_site = ''dns''" "clName foreign_site = ''pi''" "clFinalizers foreign_site = [''other/finalizer'']"
    "clDeletionTimestamp foreign_site \<noteq> None"
    using dying_facts by (simp_all add: foreign_site_def)
  obtain r s' where run: "Reconcile (estate_kube (\<lambda>_. [])) estate_net Background ''dns'' ''pi'' ?s = (r, s')" by (meson surj_pair)
  have got: "k_get_cluster (estate_kube (\<lambda>_. [])) ''dns'' ''pi'' (world ?s) = (Inr foreign_site, estate_of (Some foreign_site))"
    using live_fetch [OF f(1,2)] by simp
  have no: "finalizer \<notin> set (clFinalizers foreign_site)" by (simp add: f finalizer_def)
  have u: "k_update_cluster (estate_kube (\<lambda>_. [])) ?c (estate_of (Some foreign_site)) = (Inr ?c, estate_of (Some ?c))"
    using f by (simp add: estate_calls estate_update_def estate_of_def)
  have "r = Ok (5 * second)" "world s' = estate_of (Some ?c)"
    using finalizer_comes_first [OF estate.operator_world_axioms got no run] f u by auto
  with run f show ?thesis by (auto simp: estate_of_def)
qed

theorem vanished_resource_is_an_error_witness:
  "\<exists>e. Reconcile (estate_kube (\<lambda>_. [])) estate_net Background ''dns'' ''pi'' (busy_operator None) = (Err e, busy_operator None)"
proof -
  have "k_get_cluster (estate_kube (\<lambda>_. [])) ''dns'' ''pi'' (world (busy_operator None)) = (Inl (ApiStatus NotFound ''pi''), estate_of None)"
    by (simp add: estate_calls estate_fetch_def estate_of_def)
  from vanished_resource_is_an_error [OF this, of estate_net Background] show ?thesis
    by (simp add: busy_operator_def operator_at_def new_rs_def)
qed

text \<open>Two reconciliations, with the deletion of the resource by a user in between.\<close>

definition user :: "estate \<Rightarrow> estate \<Rightarrow> bool" where
  "user e f \<longleftrightarrow> f = e\<lparr>esResource := map_option (\<lambda>c. c\<lparr>clDeletionTimestamp := Some 1\<rparr>) (esResource e)\<rparr>"

lemma user_spares: "spares estate_stored user"
  by (auto simp: spares_def user_def estate_finalizers split: option.splits if_splits)

lemma dying_run: "esResource (world (snd (Reconcile (estate_kube (\<lambda>_. [])) estate_net Background ''dns'' ''pi''
    (operator_at (Some dying_site))))) = None"
  by code_simp



end
