(* ===== verification/Convergence.thy ===== *)
theory Convergence
  imports Operator
begin

text \<open>
  From the resource to the Pi-hole servers: a reconciliation that succeeds, and finds a replica that was not
  brought up to date before, leaves the ad-lists of the resource on every instance of the cluster.
\<close>

section \<open>The name of the current cluster\<close>

text \<open>The synchronisation keeps what its own writes keep: closing, dropping and making a client, the calls of a
  client, and changes of the cluster object.\<close>

lemma registry_keeps:
  assumes "typed_get K" and w: "worldless I"
    and own: "\<And>s cs. I s \<Longrightarrow> I (s\<lparr>idleClosed := cs\<rparr>)" "\<And>s M. I s \<Longrightarrow> I (s\<lparr>ApiClients := M\<rparr>)"
      "\<And>s c M. I s \<Longrightarrow> I (s\<lparr>heap := (heap s)(nextAddr s := c), nextAddr := Suc (nextAddr s), ApiClients := M\<rparr>)"
  shows "keeps I (syncAPIClients K)"
proof -
  note W = returns_keeps [OF worldless_calls(1) [OF w]] returns_keeps [OF worldless_calls(2) [OF w]]
  note step = keeps_bindR keeps_ctxR keeps_forR keeps_if keeps_option keeps_whenR keeps_basic W
    returns_keeps [OF getCluster_returns] returns_keeps [OF getAPISecret_returns [OF assms(1) w]]
  have c: "keeps I (closeClient p)" for p
    unfolding closeClient_def by (auto intro!: keeps_modS keeps_basic own(1) split: option.splits)
  have n: "keeps I (createClient K p)" for p
    unfolding createClient_def Let_def by (intro step keeps_modS own(3))
  have d: "keeps I (dropStale pods x)" for pods x
    unfolding dropStale_def by (intro step keeps_modS c own(2))
  show ?thesis
    unfolding syncAPIClients_def refreshClient_def rangeClients_def by (intro step c n d)
qed

lemma config_keeps:
  assumes "retrier (retry_on_conflict K) world_pause" and w: "worldless I"
    and cl: "\<And>s c. I s \<Longrightarrow> I (s\<lparr>cluster := c\<rparr>)"
    and client: "\<And>p x. keeps I (on_client p (DownloadTeleporter N x))" "\<And>p x d. keeps I (on_client p (UploadTeleporter N x d))"
      "\<And>p x. keeps I (on_client p (GetAdLists N x))" "\<And>p x a. keeps I (on_client p (PostAdList N x a))"
      "\<And>p x a. keeps I (on_client p (DeleteAdList N x a))" "\<And>p x. keeps I (on_client p (RunGravity N x))"
  shows "keeps I (performConfigSync K N ctx)"
proof -
  note W = returns_keeps [OF worldless_calls(1) [OF w]] returns_keeps [OF worldless_calls(2) [OF w]]
  have upd: "keeps I (UpdateClusterStatusWithRetry K)"
    by (rule returns_keeps [OF UpdateStatus_returns [OF w cl assms(1)]])
  have m: "keeps I (modCluster f)" "keeps I (modStatus g)" for f g
    unfolding modStatus_def modCluster_def by (auto intro!: keeps_modS cl)
  have rw: "keeps I ReadWriteAPIClient"
    unfolding ReadWriteAPIClient_def Let_def by (intro keeps_bindR keeps_option keeps_basic)
  have ro: "keeps I (ReadOnlyAPIClients K)"
    unfolding ReadOnlyAPIClients_def rangeClients_def Let_def by (intro keeps_bindR keeps_if keeps_basic W)
  note step = keeps_bindR keeps_ctxR keeps_tryR keeps_forR keeps_if keeps_option keeps_sum keeps_whenR keeps_basic W client upd m
    rw ro returns_keeps [OF getCluster_returns]
  have ad: "keeps I (syncAdLists K N ctx)"
    unfolding syncAdLists_def syncRW_def syncRO_def sync_rw_def sync_ro_def post_missing_def delete_lists_def range_keys_def Let_def
    by (intro step)
  show ?thesis
    unfolding performConfigSync_def uploadTo_def adListStage_def stampStatus_def Let_def
    by (intro step ad)
qed

text \<open>Only \<open>fetchCluster\<close> writes \<open>currentClusterName\<close>; \<open>syncAPIClients\<close> leaves the cluster object alone too.\<close>

definition about :: "(string \<Rightarrow> bool) \<Rightarrow> (PiHoleCluster \<Rightarrow> bool) \<Rightarrow> 'w rs \<Rightarrow> bool" where
  "about A P s \<longleftrightarrow> A (currentClusterName s) \<and> P (cluster s)"

lemma about_worldless: "worldless (about A P)"
  by (simp add: worldless_def about_def)

lemma registry_keeps_about: "typed_get K \<Longrightarrow> keeps (about A P) (syncAPIClients K)"
  by (rule registry_keeps) (simp_all add: about_worldless, simp_all add: about_def)

lemma on_client_about: "keeps (about A P) (on_client p m)"
  by (cases p) (auto simp: keeps_def on_client_def panic_def about_def split: prod.splits)

lemma config_keeps_name:
  assumes "retrier (retry_on_conflict K) world_pause"
  shows "keeps (about A (\<lambda>_. True)) (performConfigSync K N ctx)"
  by (rule config_keeps [OF assms about_worldless _ on_client_about on_client_about on_client_about on_client_about
      on_client_about on_client_about]) (simp add: about_def)


section \<open>What is to hold in the end\<close>

text \<open>No address with a space; the delete request of the operator would name another one.\<close>

definition clean_lists :: "(string \<Rightarrow> (string \<rightharpoonup> string option)) \<Rightarrow> bool" where
  "clean_lists f \<longleftrightarrow> (\<forall>u a. f u a \<noteq> None \<longrightarrow> CHR '' '' \<notin> set a)"

text \<open>The read-write instance holds every list asked for and none of the operator's besides, and every
  read-only instance holds the same addresses.\<close>

definition converged :: "('w \<Rightarrow> string \<Rightarrow> (string \<rightharpoonup> string option)) \<Rightarrow> string \<Rightarrow> string list \<Rightarrow> 'w rs \<Rightarrow> bool" where
  "converged db n ls s \<longleftrightarrow> currentClusterName s = n \<and> (\<exists>rw. pod_host s (n @ ''-rw-0'') = Some rw \<and>
     (let held = db (world s) in set ls \<subseteq> dom (held rw) \<and>
       (\<forall>a. held rw a = Some (Some operator_comment) \<longrightarrow> a \<in> set ls) \<and>
       (\<forall>u \<in> replica_hosts s. dom (held u) = dom (held rw))))"

text \<open>It depends on the clients, the name and the lists only.\<close>

definition fixed :: "'w rs \<Rightarrow> 'w rs \<Rightarrow> bool" where
  "fixed s t \<longleftrightarrow> ApiClients t = ApiClients s \<and> heap t = heap s \<and> currentClusterName t = currentClusterName s"

lemma fixed_closed: "probe_closed (fixed s)"
  by (simp add: probe_closed_def outer_def fixed_def)

lemma converged_fixed:
  assumes "fixed s t" "db (world t) = db (world s)" "converged db n ls s"
  shows "converged db n ls t"
proof -
  have "pod_host t = pod_host s"
    using assms(1) by (simp add: fixed_def pod_host_def [abs_def] client_host_def fun_eq_iff)
  moreover from this have "replica_hosts t = replica_hosts s" using assms(1) by (simp add: fixed_def replica_hosts_def)
  ultimately show ?thesis using assms by (simp add: converged_def fixed_def)
qed

text \<open>Before the sync: the registry is well formed, and the resource has the status it was fetched with.\<close>

definition before :: "('w \<Rightarrow> string \<Rightarrow> (string \<rightharpoonup> string option)) \<Rightarrow> PiHoleCluster \<Rightarrow> 'w rs \<Rightarrow> bool" where
  "before db cl s \<longleftrightarrow> reg_ok s \<and> about (\<lambda>n. n = clName cl) (\<lambda>c. same_resource cl c \<and> clStatus c = clStatus cl) s \<and>
     clean_lists (db (world s))"

text \<open>Whenever the server lists the replicas, one of them is not recorded in the status of the resource.\<close>

definition behind :: "'w kube \<Rightarrow> PiHoleCluster \<Rightarrow> bool" where
  "behind K cl \<longleftrightarrow> (\<forall>w pods. fst (k_list_pods K (clNamespace cl) (role_labels cl ''readonly'') w) = Inr pods \<longrightarrow>
     podsNeedingSync cl (pod_map pods) \<noteq> [])"

text \<open>
  The interface: the operator's world and the Pi-hole servers in it, where no call to the API server
  touches the lists of a server, and no server comes to hold an address with a space.
\<close>

locale served_world = operator_world K objs like N + pihole_env N db K
  for K :: "'w kube" and objs :: "'w \<Rightarrow> (okey \<rightharpoonup> kobj)" and like :: "kobj \<Rightarrow> kobj \<Rightarrow> bool" and N :: "'w net"
    and db :: "'w \<Rightarrow> string \<Rightarrow> (string \<rightharpoonup> string option)" +
  assumes lists_apart: "writes_keep (\<lambda>w. P (db w)) (\<lambda>_. True) K"
    and clean_net: "net_keeps (\<lambda>w. clean_lists (db w)) N"

section \<open>The configuration sync\<close>

context served_world
begin

abbreviation lists_in :: "((string \<Rightarrow> (string \<rightharpoonup> string option)) \<Rightarrow> bool) \<Rightarrow> 'w rs \<Rightarrow> bool" where
  "lists_in P \<equiv> WC (\<lambda>w. P (db w)) (\<lambda>_. True)"

lemma reads_apart: "reads_keep (\<lambda>w. P (db w)) (\<lambda>_. True) K"
  using writes_keepD(1) [OF lists_apart] .

lemma converged_kept:
  assumes "keeps (fixed s) m" "\<And>P. keeps (lists_in P) m" "converged db n ls s" "m s = (r, t)"
  shows "converged db n ls t"
proof (rule converged_fixed [OF _ _ assms(3)])
  show "fixed s t" by (rule keepsD [OF assms(1) _ assms(4)]) (simp add: fixed_def)
  show "db (world t) = db (world s)"
    using keepsD [OF assms(2) [of "\<lambda>f. f = db (world s)"] _ assms(4)] by (simp add: WC_def)
qed

lemma stamp_kept: "keeps (fixed s) (stampStatus K N f)" "keeps (lists_in P) (stampStatus K N f)"
proof -
  have "keeps (fixed s) (modStatus g :: ('w rs, unit) prog)" for g
    unfolding modStatus_def modCluster_def by (rule keeps_modS) (simp add: fixed_def)
  moreover have "keeps (fixed s) (UpdateClusterStatusWithRetry K)"
    by (rule returns_keeps [OF UpdateStatus_returns [OF probe_closedD(2) [OF fixed_closed] _ world_retry]])
       (simp add: fixed_def)
  ultimately show "keeps (fixed s) (stampStatus K N f)"
    unfolding stampStatus_def
    by (intro keeps_bindR keeps_tryR keeps_basic returns_keeps [OF worldless_calls(2) [OF probe_closedD(2) [OF fixed_closed]]])
  have "kept_world (\<lambda>w. P (db w)) (time_now N)"
    unfolding kept_world_def using time_db by (metis prod.collapse)
  then show "keeps (lists_in P) (stampStatus K N f)"
    unfolding stampStatus_def
    by (intro keeps_bindR keeps_tryR keeps_basic world_calls_keep status_changes_keep reads_keepD [OF reads_apart])
       (simp_all add: status_free_def)
qed

lemma syncAdLists_converges:
  assumes "reg_ok s" "clean_lists (db (world s))" "Config (clSpec (cluster s)) = Some cfg"
    and "syncAdLists K N ctx s = (Ok (), s')"
  shows "converged db (currentClusterName s) (cfgAdLists cfg) s'"
proof -
  obtain rw where rw: "pod_host s (currentClusterName s @ ''-rw-0'') = Some rw"
    and new: "db (world s') = (\<lambda>u.
      let target = rw_target (cfgAdLists cfg) (db (world s) rw) in
      if u \<in> replica_hosts s \<and> u \<noteq> rw then ro_target (dom target) (db (world s) u)
      else if u = rw then target else db (world s) u)"
    and st: "stable client_usable client_host s s'"
    by (rule syncAdLists_Ok [OF assms(1,4)]) (use assms(2,3) in \<open>auto simp: clean_lists_def\<close>)
  have reg: "same_registry s s'" by (rule syncAdLists_registry [OF assms(4)])
  have host: "pod_host s' n = pod_host s n" for n
    using reg stableD(1) [OF st] by (simp add: pod_host_def same_registry_def)
  then have hosts: "replica_hosts s' = replica_hosts s" using reg by (simp add: replica_hosts_def same_registry_def)
  have ro: "dom (ro_target A m) = A" for A m
    by (auto simp: ro_target_def add_lists_def restrict_map_def dom_def)
  have "set (cfgAdLists cfg) \<subseteq> dom (rw_target (cfgAdLists cfg) m)"
    "rw_target (cfgAdLists cfg) m a = Some (Some operator_comment) \<Longrightarrow> a \<in> set (cfgAdLists cfg)" for m a
    by (auto simp: rw_target_def add_lists_def dom_def split: if_splits)
  with rw reg show ?thesis
    unfolding converged_def host hosts new Let_def
    by (intro conjI exI [of _ rw]) (simp_all add: ro same_registry_def)
qed


text \<open>The calls up to the ad-list stage keep the registry, the lists clean and the resource.\<close>

lemma uploads_end:
  assumes ok: "reg_ok s" and clean: "clean_lists (db (world s))"
    and pods: "list_replicas K s = (Inr pods, w)" and need: "podsNeedingSync (cluster s) (pod_map pods) \<noteq> []"
    and run: "performConfigSync K N ctx s = (Ok (), s')"
  shows "\<exists>t. reg_ok t \<and> Sync (clSpec (cluster t)) = Sync (clSpec (cluster s)) \<and>
    Config (clSpec (cluster t)) = Config (clSpec (cluster s)) \<and> clean_lists (db (world t)) \<and>
    adListStage K N ctx t = (Ok (), s')"
proof -
  let ?x = "WithTimeout ctx (30 * second)" and ?s = "s\<lparr>world := w\<rparr>" and ?M = "ApiClients s"
  let ?P = "\<lambda>c. Sync (clSpec c) = Sync (clSpec (cluster s)) \<and> Config (clSpec c) = Config (clSpec (cluster s))"
  let ?I = "\<lambda>t. reg_with ?M ?P t \<and> lists_in clean_lists t"
  from run need obtain p d ros s1 s2 s3 s4 s5 where rw: "ReadWriteAPIClient ?s = (Ok p, s1)"
    and dl: "on_client p (DownloadTeleporter N ?x) s1 = (Ok d, s2)" and ro: "ReadOnlyAPIClients K s2 = (Ok ros, s3)"
    and up: "forR ros (uploadTo N ?x (pod_map pods) d) s3 = (Ok (), s4)"
    and stp: "stampStatus K N (\<lambda>t st. st\<lparr>ConfigSynced := True, LastConfigSyncTime := t\<rparr>) s4 = (Ok (), s5)"
    and ad: "adListStage K N ctx s5 = (Ok (), s')"
    unfolding performConfigSync_run [OF pods] Let_def by (auto elim!: bindR_OkE ctxR_OkE)
  have ok0: "reg_ok ?s" using ok by (rule reg_ok_world)
  from ReadWrite_state [OF ok0 rw] have s1: "s1 = ?s" and p: "p \<in> pointers ?M" by simp_all
  note R = reads_keepD [OF reads_apart [of clean_lists]]
  have both: "?I u" if "keeps (reg_with ?M ?P) m" "keeps (lists_in clean_lists) m" "?I t" "m t = (Ok z, u)"
    for m :: "('w rs, 'x) prog" and t z u
    using keepsD [OF that(1) _ that(4)] keepsD [OF that(2) _ that(4)] that(3) by blast
  have "kept_world (\<lambda>w. clean_lists (db w)) (k_list_pods K ns ls)" for ns ls
    using reads_apart [of clean_lists] unfolding reads_keep_def by blast
  from kept_world_step [OF this clean pods [unfolded list_replicas_def]] ok0
  have i1: "?I s1" by (simp add: s1 reg_with_def WC_def)
  have i2: "?I s2"
    by (rule both [OF returns_keeps [OF returns_reg_with [OF adlist_calls_return(5) [OF p]]]
        on_client_keeps [OF api_operations_keep(1) [OF clean_net]] i1 dl])
  have i3: "?I s3"
    by (rule both [OF returns_keeps [OF returns_reg_with [OF ReadOnly_returns(1)]] R(7) i2 ro])
  have ptr: "set ros \<subseteq> pointers ?M"
    using ReadOnly_returns(2) [OF ranges _ ro, of ?M "cluster s2"] i2 by (simp add: reg_with_def reg_at_def)
  have a: "keeps (reg_with ?M ?P) (forR ros (uploadTo N ?x (pod_map pods) d))"
    by (rule returns_keeps, rule returns_forR, rule uploadTo_returns) (use ptr in \<open>auto simp: addPodSynced_def\<close>)
  have b: "keeps (lists_in clean_lists) (forR ros (uploadTo N ?x (pod_map pods) d))"
    unfolding uploadTo_def
    by (intro keeps_forR keeps_bindR keeps_tryR keeps_option keeps_sum keeps_basic on_client_keeps api_operations_keep clean_net
        status_changes_keep) (simp_all add: status_free_def)
  have i4: "?I s4" by (rule both [OF a b i3 up])
  have "keeps (reg_with ?M ?P) (stampStatus K N (\<lambda>t st. st\<lparr>ConfigSynced := True, LastConfigSyncTime := t\<rparr>))"
    by (rule returns_keeps [OF stampStatus_returns [OF echoes _ world_retry]]) (auto simp: status_prop_def)
  from both [OF this stamp_kept(2) i4 stp] have "?I s5" .
  then show ?thesis using ad by (intro exI [of _ s5]) (simp add: reg_with_def WC_def)
qed

lemma performConfigSync_converges:
  assumes "reg_ok s" "clean_lists (db (world s))" "list_replicas K s = (Inr pods, w)"
    and "podsNeedingSync (cluster s) (pod_map pods) \<noteq> []" "performConfigSync K N ctx s = (Ok (), s')"
    and sy: "Sync (clSpec (cluster s)) = Some sy" "synAdLists sy" "Config (clSpec (cluster s)) = Some cfg" "cfgAdLists cfg \<noteq> []"
  shows "converged db (currentClusterName s) (cfgAdLists cfg) s'"
proof -
  from uploads_end [OF assms(1-5)] obtain t where t: "reg_ok t" "Sync (clSpec (cluster t)) = Some sy"
    "Config (clSpec (cluster t)) = Some cfg" "clean_lists (db (world t))" and ad: "adListStage K N ctx t = (Ok (), s')"
    unfolding sy by blast
  have "bindR (wrap ''sync ad lists'' (syncAdLists K N ctx)) (\<lambda>_.
      stampStatus K N (\<lambda>t st. st\<lparr>AdListSynced := True, LastAdListSyncTime := t\<rparr>)) t = (Ok (), s')"
    using ad sy(2,4) t(2,3) by (simp add: adListStage_def getCluster_def askR_def bindR_eq whenR_def)
  then obtain u where u: "syncAdLists K N ctx t = (Ok (), u)"
    and stp: "stampStatus K N (\<lambda>t st. st\<lparr>AdListSynced := True, LastAdListSyncTime := t\<rparr>) u = (Ok (), s')"
    by (auto elim!: bindR_OkE ctxR_OkE)
  have "converged db (currentClusterName t) (cfgAdLists cfg) s'"
    by (rule converged_kept [OF stamp_kept syncAdLists_converges [OF t(1,4,3) u] stp])
  moreover have "currentClusterName s' = currentClusterName s"
    using keepsD [OF config_keeps_name [OF world_retry, of "\<lambda>n. n = currentClusterName s"] _ assms(5)] by (simp add: about_def)
  ultimately show ?thesis by (simp add: converged_def)
qed

section \<open>The other stages\<close>

lemma late_stages_keep:
  "keeps (fixed s) (ensureIngress K)" "keeps (fixed s) (ensurePodMonitor K)" "keeps (fixed s) (ensureDNSService K)"
  "keeps (fixed s) (resourcesReady K)" "keeps (fixed s) (updateStatus K b msg)"
proof -
  note O = probe_closedD [OF fixed_closed [of s]]
  show "keeps (fixed s) (ensureIngress K)" "keeps (fixed s) (ensurePodMonitor K)" "keeps (fixed s) (ensureDNSService K)"
    using single_upserts_return [OF O(1)] by (blast intro: returns_keeps)+
  show "keeps (fixed s) (resourcesReady K)"
    by (rule returns_keeps [OF resourcesReady_returns [OF api_server_axioms O(2)]])
  have m: "keeps (fixed s) (modStatus f :: ('w rs, unit) prog)" for f
    unfolding modStatus_def modCluster_def by (rule keeps_modS) (simp add: fixed_def)
  have u: "keeps (fixed s) (UpdateClusterStatusWithRetry K)"
    by (rule returns_keeps [OF UpdateStatus_returns [OF O(2) _ world_retry]]) (simp add: fixed_def)
  have "keeps (fixed s) (setStatusCondition K x)" for x
    unfolding setStatusCondition_def
    by (intro keeps_bindR returns_keeps [OF getCluster_returns] returns_keeps [OF worldless_calls(2) [OF O(2)]] m)
  then show "keeps (fixed s) (updateStatus K b msg)"
    unfolding updateStatus_def by (intro keeps_bindR keeps_ctxR keeps_whenR m u)
qed


lemma before_step:
  assumes "keeps (\<lambda>s. reg_ok s \<and> about (\<lambda>n. n = clName cl) (\<lambda>c. same_resource cl c \<and> clStatus c = clStatus cl) s) m"
    and "keeps (lists_in clean_lists) m" "before db cl s" "m s = (r, t)"
  shows "before db cl t"
  using keepsD [OF assms(1) _ assms(4)] keepsD [OF assms(2) _ assms(4)] assms(3) unfolding before_def WC_def by blast

lemma early_closed: "probe_closed (\<lambda>s. reg_ok s \<and> about (\<lambda>n. n = clName cl) (\<lambda>c. same_resource cl c \<and> clStatus c = clStatus cl) s)"
  unfolding probe_closed_def outer_def about_def
  using spec_kept_same same_trans spec_keptD(4) by (auto simp: reg_ok_outer)

lemma before_ensure:
  assumes dep: "deployable K cl" and I: "before db cl s"
  shows "ensureAPISecret K s = (r1, t) \<Longrightarrow> before db cl t" "ensurePiHolePVC K s = (r2, t) \<Longrightarrow> before db cl t"
    "ensureReadWriteSTS K s = (r3, t) \<Longrightarrow> before db cl t" "ensureReadOnlySTS K s = (r3, t) \<Longrightarrow> before db cl t"
    "areRWPodsReady K s = (r4, t) \<Longrightarrow> before db cl t" "areROPodsReady K s = (r4, t) \<Longrightarrow> before db cl t"
    "syncAPIClients K s = (r3, t) \<Longrightarrow> before db cl t"
proof -
  let ?I = "\<lambda>s. reg_ok s \<and> about (\<lambda>n. n = clName cl) (\<lambda>c. same_resource cl c \<and> clStatus c = clStatus cl) s"
  note C = early_closed [of cl]
  note O = probe_closedD [OF C]
  have dep': "deployable K (cluster s)" "parsable K (cluster s)" if "?I s" for s
    using that dep by (auto simp: about_def same_resource_def deployable_def parsable_def pvc_params_def)
  note ops = single_upserts_return(1) [OF O(1)] ensurePiHolePVC_returns [OF O(2) dep'(2)]
    ensureReadWriteSTS_returns [OF C dep'(2)] ensureReadOnlySTS_returns [OF C dep'(1)]
    readiness_returns(1) [OF O(2)] readiness_returns(2) [OF O(2) typed sized]
  note W = ensure_keeps [OF lists_apart [of clean_lists]] checks_keep [OF lists_apart [of clean_lists]]
  note step = before_step [OF returns_keeps _ I]
  show "ensureAPISecret K s = (r1, t) \<Longrightarrow> before db cl t" "ensurePiHolePVC K s = (r2, t) \<Longrightarrow> before db cl t"
    "ensureReadWriteSTS K s = (r3, t) \<Longrightarrow> before db cl t" "ensureReadOnlySTS K s = (r3, t) \<Longrightarrow> before db cl t"
    "areRWPodsReady K s = (r4, t) \<Longrightarrow> before db cl t" "areROPodsReady K s = (r4, t) \<Longrightarrow> before db cl t"
    by (erule step [rotated 2], rule ops, assumption?, rule W)+
  assume run: "syncAPIClients K s = (r3, t)"
  from I have i: "?I s" "lists_in clean_lists s" by (simp_all add: before_def WC_def)
  have "lists_in clean_lists t" by (rule keepsD [OF syncAPIClients_keeps_world [OF reads_apart] i(2) run])
  moreover have "about (\<lambda>n. n = clName cl) (\<lambda>c. same_resource cl c \<and> clStatus c = clStatus cl) t"
    by (rule keepsD [OF registry_keeps_about [OF typed] conjunct2 [OF i(1)] run])
  ultimately show "before db cl t"
    using syncAPIClients_registry [OF typed ranges conjunct1 [OF i(1)] run] by (simp add: before_def WC_def)
qed


lemma before_replicaStage:
  assumes "deployable K cl" "before db cl s" "replicaStage K s = (Ok (), t)"
  shows "before db cl t"
proof -
  from assms(3) obtain u where "areRWPodsReady K s = (Ok True, u)" "ensureReadOnlySTS K u = (Ok (), t)"
    unfolding replicaStage_def by (auto elim!: bindR_OkE ctxR_OkE split: if_splits)
  then show ?thesis using before_ensure(4) [OF assms(1) before_ensure(5) [OF assms(1,2)]] by blast
qed

lemma performConfigSync_lists:
  assumes "performConfigSync K N ctx s = (Ok (), s')"
  obtains pods w where "list_replicas K s = (Inr pods, w)"
proof (cases "list_replicas K s")
  case (Pair x w)
  with assms that show thesis
    by (cases x) (auto simp: performConfigSync_def list_replicas_def getCluster_def askR_def bindR_def ctxR_def callW_def callR_def)
qed

lemma syncStage_converges:
  assumes I: "before db cl s" and run: "syncStage K N ctx s = (Ok (), s')" and dep: "deployable K cl" and new: "behind K cl"
    and sy: "Sync (clSpec cl) = Some sy" "synAdLists sy" "Config (clSpec cl) = Some cfg" "cfgAdLists cfg \<noteq> []"
  shows "converged db (clName cl) (cfgAdLists cfg) s'"
proof -
  from run obtain t u where 1: "areROPodsReady K s = (Ok True, t)" and 2: "syncAPIClients K t = (Ok (), u)"
    and 3: "performConfigSync K N ctx u = (Ok (), s')"
    unfolding syncStage_def by (auto elim!: bindR_OkE ctxR_OkE split: if_splits)
  have u: "before db cl u" by (rule before_ensure(7) [OF dep before_ensure(6) [OF dep I 1] 2])
  then have same: "same_resource cl (cluster u)" "clStatus (cluster u) = clStatus cl" "currentClusterName u = clName cl"
    "reg_ok u" "clean_lists (db (world u))" by (simp_all add: before_def about_def WC_def)
  then have n: "clName (cluster u) = clName cl" "clNamespace (cluster u) = clNamespace cl"
    "Sync (clSpec (cluster u)) = Some sy" "Config (clSpec (cluster u)) = Some cfg" using sy by (simp_all add: same_resource_def)
  from performConfigSync_lists [OF 3] obtain pods w where l: "list_replicas K u = (Inr pods, w)" .
  then have "fst (k_list_pods K (clNamespace cl) (role_labels cl ''readonly'') (world u)) = Inr pods"
    by (simp add: list_replicas_def role_labels_def n)
  with new have "podsNeedingSync cl (pod_map pods) \<noteq> []" unfolding behind_def by blast
  then have "podsNeedingSync (cluster u) (pod_map pods) \<noteq> []" by (simp add: podsNeedingSync_def isPodSynced_def same(2))
  from performConfigSync_converges [OF same(4,5) l this 3 n(3) sy(2) n(4) sy(4)] show ?thesis by (simp add: same(3))
qed

lemma whenCluster_converged:
  assumes "\<And>s. keeps (fixed s) m" "\<And>P. keeps (lists_in P) m" "converged db n ls s" "whenCluster b (ctxR f m) s = (r, t)"
  shows "converged db n ls t"
proof -
  have "keeps (fixed s) (whenCluster b (ctxR f m))" "keeps (lists_in P) (whenCluster b (ctxR f m))" for P
    unfolding whenCluster_def by (intro keeps_bindR keeps_whenR keeps_ctxR returns_keeps [OF getCluster_returns] assms)+
  from converged_kept [OF this assms(3,4)] show ?thesis .
qed

lemma resourceStages_converge:
  assumes I: "before db cl s" and run: "resourceStages K N ctx s = (Ok v, s')" and dep: "deployable K cl" and new: "behind K cl"
    and sy: "Sync (clSpec cl) = Some sy" "synAdLists sy" "Config (clSpec cl) = Some cfg" "cfgAdLists cfg \<noteq> []"
    and rep: "0 < sint (Replicas (clSpec cl))"
  shows "converged db (clName cl) (cfgAdLists cfg) s'"
proof -
  from run obtain s8 b s9 where e: "ensureResources K N ctx s = (Ok (), s8)" and 9: "resourcesReady K s8 = (Ok b, s9)"
    and 10: "updateStatus K b [] s9 = (Ok (), s')"
    unfolding resourceStages_def by (auto elim!: bindR_OkE ctxR_OkE)
  from e obtain x s1 y s2 s3 s4 s5 s6 s7 where
    1: "ensureAPISecret K s = (Ok x, s1)" and 2: "ensurePiHolePVC K s1 = (Ok y, s2)"
    and 3: "ensureReadWriteSTS K s2 = (Ok (), s3)"
    and 4: "whenCluster (\<lambda>cl. 0 < sint (Replicas (clSpec cl))) (replicaStage K) s3 = (Ok (), s4)"
    and 5: "whenCluster (\<lambda>cl. Sync (clSpec cl) \<noteq> None \<and> 0 < sint (Replicas (clSpec cl))) (syncStage K N ctx) s4 = (Ok (), s5)"
    and 6: "whenCluster ingressEnabled (wrap ''ensureIngress'' (ensureIngress K)) s5 = (Ok (), s6)"
    and 7: "whenCluster podMonitorEnabled (wrap ''ensurePodMonitor'' (ensurePodMonitor K)) s6 = (Ok (), s7)"
    and 8: "ensureDNSService K s7 = (Ok (), s8)"
    unfolding ensureResources_def by (auto elim!: bindR_OkE ctxR_OkE)
  have b3: "before db cl s3"
    by (rule before_ensure(3) [OF dep before_ensure(2) [OF dep before_ensure(1) [OF dep I 1] 2] 3])
  have b4: "before db cl s4"
    using whenCluster_run [OF 4] before_replicaStage [OF dep b3] b3 by auto
  have "Sync (clSpec (cluster s4)) = Some sy" "0 < sint (Replicas (clSpec (cluster s4)))"
    using b4 sy(1) rep by (simp_all add: before_def about_def same_resource_def)
  with whenCluster_run [OF 5] have "syncStage K N ctx s4 = (Ok (), s5)" by auto
  note c5 = syncStage_converges [OF b4 this dep new sy]
  note W = ensure_keeps [OF lists_apart] checks_keep [OF lists_apart]
  note c6 = whenCluster_converged [OF late_stages_keep(1) W(6) c5 6]
  note c7 = whenCluster_converged [OF late_stages_keep(2) W(7) c6 7]
  note c8 = converged_kept [OF late_stages_keep(3) W(8) c7 8]
  note c9 = converged_kept [OF late_stages_keep(4) W(11) c8 9]
  show ?thesis by (rule converged_kept [OF late_stages_keep(5) W(12) c9 10])
qed

end

end
