(* ===== verification/Responsive.thy ===== *)
theory Responsive
  imports Convergence
begin

text \<open>
  When the synchronisation goes through: Pi-hole servers that answer every well-formed request, as the API
  documents, clients for the pods, and replicas that are reported ready.
\<close>

section \<open>Programs that succeed with a value\<close>

text \<open>\<open>gives I m P\<close>: from a state in \<open>I\<close>, \<open>m\<close> succeeds with a value in \<open>P\<close> and in a state in \<open>I\<close>.\<close>

definition gives :: "('s \<Rightarrow> bool) \<Rightarrow> ('s, 'a) prog \<Rightarrow> ('a \<Rightarrow> bool) \<Rightarrow> bool" where
  "gives I m P \<longleftrightarrow> (\<forall>s. I s \<longrightarrow> (\<exists>x s'. m s = (Ok x, s') \<and> I s' \<and> P x))"

lemma givesE:
  assumes "gives I m P" "I s"
  obtains x s' where "m s = (Ok x, s')" "I s'" "P x"
  using assms unfolding gives_def by blast

lemma gives_weaken: "gives I m P \<Longrightarrow> (\<And>x. P x \<Longrightarrow> Q x) \<Longrightarrow> gives I m Q"
  unfolding gives_def by metis

lemma gives_bindR: "gives I m P \<Longrightarrow> (\<And>x. P x \<Longrightarrow> gives I (k x) Q) \<Longrightarrow> gives I (bindR m k) Q"
  unfolding gives_def by (metis bindR_eq(1))

lemma gives_ctxR: "gives I m P \<Longrightarrow> gives I (ctxR f m) P"
  unfolding gives_def by (metis ctxR_eq(1))

lemma gives_ret: "P x \<Longrightarrow> gives I (ret x) P"
  by (simp add: gives_def ret_def)

lemma gives_if: "(b \<Longrightarrow> gives I m P) \<Longrightarrow> (\<not> b \<Longrightarrow> gives I n P) \<Longrightarrow> gives I (if b then m else n) P"
  by simp

lemma gives_whenR: "(b \<Longrightarrow> gives I m (\<lambda>_. True)) \<Longrightarrow> gives I (whenR b m) (\<lambda>_. True)"
  by (simp add: whenR_def gives_ret)

lemma gives_forR: "(\<And>x. x \<in> set xs \<Longrightarrow> gives I (f x) (\<lambda>_. True)) \<Longrightarrow> gives I (forR xs f) (\<lambda>_. True)"
proof (induction xs)
  case (Cons x xs)
  then have "gives I (forR xs f) (\<lambda>_. True)" by simp
  with Cons.prems [of x] show ?case by (auto intro: gives_bindR)
qed (simp add: gives_ret)

lemma gives_modS: "(\<And>s. I s \<Longrightarrow> I (f s)) \<Longrightarrow> gives I (modS f) (\<lambda>_. True)"
  by (simp add: gives_def modS_def)

lemma gives_askR: "(\<And>s. I s \<Longrightarrow> I (snd (f s)) \<and> P (fst (f s))) \<Longrightarrow> gives I (askR f) P"
  by (force simp: gives_def askR_def split: prod.splits)

text \<open>A program that comes back and never with an error; an error that is only logged.\<close>

lemma gives_returns: "returns I m \<Longrightarrow> (\<And>s e s'. I s \<Longrightarrow> m s \<noteq> (Err e, s')) \<Longrightarrow> gives I m (\<lambda>_. True)"
proof -
  assume R: "returns I m" and no: "\<And>s e s'. I s \<Longrightarrow> m s \<noteq> (Err e, s')"
  have "\<exists>x s'. m s = (Ok x, s') \<and> I s'" if I: "I s" for s
  proof -
    obtain q s' where q: "m s = (q, s')" by (meson surj_pair)
    from returnsD [OF R I q] keepsD [OF returns_keeps [OF R] I q] no [OF I] q show ?thesis by (cases q) auto
  qed
  then show ?thesis by (simp add: gives_def)
qed

lemma gives_tryR: "returns I m \<Longrightarrow> gives I (tryR m) (\<lambda>_. True)"
  by (rule gives_returns [OF returns_tryR]) (auto simp: tryR_def split: prod.splits res.splits)

lemma gives_post: "gives I m (\<lambda>_. True) \<Longrightarrow> (\<And>s x s'. I s \<Longrightarrow> m s = (Ok x, s') \<Longrightarrow> P x) \<Longrightarrow> gives I m P"
  unfolding gives_def by metis

section \<open>Servers that answer\<close>

definition replies :: "'w net \<Rightarrow> http_req \<Rightarrow> (http_resp \<Rightarrow> bool) \<Rightarrow> bool" where
  "replies N r P \<longleftrightarrow> (\<forall>t k w. \<exists>resp w'. http_do N t k r w = (Inr resp, w') \<and> P resp)"

definition whole :: "http_resp \<Rightarrow> bool" where
  "whole r \<longleftrightarrow> rspStatus r = 200 \<and> rspReadErr r = None"

text \<open>Every request the client makes is answered with the status the API documents for success, whatever
  headers and context it carries; only an address with a space may be refused.\<close>

locale responsive_net =
  fixes N :: "'w net"
  assumes parses: "url_err N u = None"
    and auth_answers: "rqMethod r = ''POST'' \<Longrightarrow> rqURL r = b @ ''/api/auth'' \<Longrightarrow>
      replies N r (\<lambda>p. whole p \<and> (\<exists>a. dec_auth N (take MaxResponseSize (rspBody p)) = Inr a \<and> auValid a))"
    and lists_answers: "rqMethod r = ''GET'' \<Longrightarrow> rqURL r = b @ ''/api/lists'' \<Longrightarrow>
      replies N r (\<lambda>p. whole p \<and> (\<exists>ls. dec_lists N (rspBody p) (rspReadErr p) = Inr ls))"
    and create_answers: "rqMethod r = ''POST'' \<Longrightarrow> rqURL r = b @ ''/api/lists'' \<Longrightarrow>
      rqBody r = JsonBody (adlist_payload a) \<Longrightarrow> CHR '' '' \<notin> set a \<Longrightarrow> replies N r (\<lambda>p. rspStatus p = 201)"
    and delete_answers: "rqMethod r = ''DELETE'' \<Longrightarrow> rqURL r = delete_url b a \<Longrightarrow> replies N r (\<lambda>p. rspStatus p = 204)"
    and gravity_answers: "rqMethod r = ''POST'' \<Longrightarrow> rqURL r = b @ ''/api/action/gravity'' \<Longrightarrow> replies N r whole"
    and archive_answers: "rqMethod r \<in> {''GET'', ''POST''} \<Longrightarrow> rqURL r = b @ ''/api/teleporter'' \<Longrightarrow> replies N r whole"
begin

lemma new_request: "bindR (ctxR f (newRequest N ctx m u b)) k = k (request m u [] b ctx)"
  "bindR (newRequest N ctx m u b) k = k (request m u [] b ctx)"
  by (rule ext, simp add: newRequest_def parses bindR_def ctxR_def ret_def request_def)+

lemma gives_client: "(\<And>c. gives (cl_inv k b) (m c) P) \<Longrightarrow> gives (cl_inv k b) (bindR client m) P"
  by (rule gives_bindR [where P = "\<lambda>_. True"]) (auto simp: client_def intro: gives_askR)

lemma gives_Do:
  assumes "replies N r P" "\<And>p. P p \<Longrightarrow> gives (cl_inv k b) (m p) Q"
  shows "gives (cl_inv k b) (bindR (ctxR f (Do N r)) m) Q"
proof (rule gives_bindR [OF gives_ctxR assms(2)])
  have "\<exists>p s'. Do N r (c, w) = (Ok p, s') \<and> cl_inv k b s' \<and> P p" if "cl_inv k b (c, w)" for c w
  proof -
    from assms(1) obtain p w' where "http_do N (cltTimeout c) (cltSkipTLS c) r w = (Inr p, w')" "P p"
      unfolding replies_def by blast
    with that show ?thesis by (simp add: Do_def callR_def)
  qed
  then show "gives (cl_inv k b) (Do N r) P" by (auto simp: gives_def)
qed

lemma doAuth_gives: "gives (cl_inv k b) (doAuth N) (\<lambda>_. True)"
  unfolding doAuth_def Let_def new_request
proof (rule gives_client, rule gives_Do [OF auth_answers])
  fix c :: APIClient and p
  assume p: "whole p \<and> (\<exists>a. dec_auth N (take MaxResponseSize (rspBody p)) = Inr a \<and> auValid a)"
  then obtain a where a: "dec_auth N (take MaxResponseSize (rspBody p)) = Inr a" "auValid a" by blast
  from p have "ReadAllLimit MaxResponseSize p = Inr (take MaxResponseSize (rspBody p))"
    by (simp add: ReadAllLimit_def ReadAll_def whole_def)
  with p a show "gives (cl_inv k b) (if rspStatus p \<noteq> 200 then fail (Errorf ''authentication failed, status code'' [FI (rspStatus p)])
     else
     bindR (wrap ''failed to read authentication response'' (pureR (ReadAllLimit MaxResponseSize p))) (\<lambda>b.
     bindR (wrap ''failed to parse authentication response'' (pureR (dec_auth N b))) (\<lambda>a.
     if \<not> auValid a then fail (Errorf ''authentication unsuccessful'' [])
     else
     bindR (modC (\<lambda>c. c\<lparr>sessionID := auSID a\<rparr>)) (\<lambda>_.
     bindR (now N) (\<lambda>t.
     modC (\<lambda>c. c\<lparr>validity := t + seconds (auValidity a)\<rparr>)))))) (\<lambda>_. True)"
    by (auto simp: whole_def gives_def pureR_def bindR_def ctxR_def ret_def modC_def modS_def now_def askR_def split: prod.splits)
qed (simp_all add: setHeader_def request_def)


lemma retry_gives:
  assumes "gives I f (\<lambda>_. True)"
  shows "gives I (retryWithBackoff sl pihole_backoff f) (\<lambda>_. True)"
  unfolding gives_def
proof (intro allI impI)
  fix s
  assume "I s"
  with assms obtain s' where s': "f s = (Ok (), s')" "I s'" by (auto elim!: givesE)
  have "retryWithBackoff sl pihole_backoff f s = (Ok (), s')"
    using s'(1) by (simp add: retryWithBackoff_def retry_loop.simps pihole_backoff_def)
  with s'(2) show "\<exists>x s'. retryWithBackoff sl pihole_backoff f s = (Ok x, s') \<and> I s' \<and> True" by blast
qed

lemma Authenticate_gives: "gives (free k) (Authenticate N) (\<lambda>_. True)"
proof (rule gives_returns [OF Authenticate_returns])
  fix s s' :: "'w cst" and e
  assume I: "free k s"
  obtain c w where s: "s = (c, w)" by (cases s)
  from I s have "cl_inv k True (c\<lparr>mu := True\<rparr>, w)" by simp
  from givesE [OF retry_gives [OF doAuth_gives, of k True "sel N Background"] this] obtain x c' w' where
    "retryWithBackoff (sel N Background) pihole_backoff (doAuth N) (c\<lparr>mu := True\<rparr>, w) = (Ok x, (c', w'))"
    by (metis prod.collapse)
  with I s show "Authenticate N s \<noteq> (Err e, s')"
    by (simp add: Authenticate_def locked_def bindR_def Lock_def)
qed

lemma ensureAuth_gives: "gives (free k) (ensureAuth N) (\<lambda>_. True)"
proof (rule gives_returns [OF ensureAuth_returns])
  fix s s' :: "'w cst" and e
  assume I: "free k s"
  obtain c w t w1 where s: "s = (c, w)" "time_now N w = (t, w1)" by (meson surj_pair)
  from I s have f: "free k (c, w1)" by simp
  obtain x q where "Authenticate N (c, w1) = (Ok x, q)" by (rule givesE [OF Authenticate_gives f])
  with I s ensureAuth_run [of c N w t w1] show "ensureAuth N s \<noteq> (Err e, s')" by simp
qed

lemma operations_give:
  "gives (free k) (DownloadTeleporter N ctx) (\<lambda>_. True)" "gives (free k) (UploadTeleporter N ctx d) (\<lambda>_. True)"
  "gives (free k) (GetAdLists N ctx) (\<lambda>_. True)" "CHR '' '' \<notin> set a \<Longrightarrow> gives (free k) (PostAdList N ctx a) (\<lambda>_. True)"
  "gives (free k) (DeleteAdList N ctx a) (\<lambda>_. True)" "gives (free k) (RunGravity N ctx) (\<lambda>_. True)"
proof -
  note A = gives_bindR [OF gives_ctxR [OF ensureAuth_gives]] and C = gives_client
  note simps = setHeader_def request_def
  show "gives (free k) (DownloadTeleporter N ctx) (\<lambda>_. True)"
    unfolding DownloadTeleporter_def Let_def new_request
    by (rule A, rule C, rule gives_Do [OF archive_answers])
       (auto simp: simps whole_def pureR_def ReadAll_def intro!: gives_ctxR gives_ret)
  have up: "gives (free k) (doUpload N ctx (b @ ''/api/teleporter'') t p) (\<lambda>_. True)" for b t p
    unfolding doUpload_def new_request
    by (rule C, rule gives_Do [OF archive_answers [where b = b]]) (auto simp: simps whole_def intro!: gives_ret)
  have bd: "gives (free k) (askR (\<lambda>(c, w). case boundary N w of (b, w') \<Rightarrow> (b, (c, w')))) (\<lambda>_. True)"
    by (rule gives_askR) (auto split: prod.splits)
  show "gives (free k) (UploadTeleporter N ctx d) (\<lambda>_. True)"
    unfolding UploadTeleporter_def Let_def by (rule A, rule C, rule gives_bindR [OF bd], rule retry_gives, rule up)
  show "gives (free k) (GetAdLists N ctx) (\<lambda>_. True)"
    unfolding GetAdLists_def Let_def new_request
    by (rule C, rule A, rule C, rule gives_Do [OF lists_answers])
       (auto simp: simps whole_def pureR_def intro!: gives_ctxR gives_ret)
  show "gives (free k) (PostAdList N ctx a) (\<lambda>_. True)" if "CHR '' '' \<notin> set a"
    unfolding PostAdList_def Let_def new_request
    by (rule C, rule A, rule C, rule gives_Do [OF create_answers [OF _ _ _ that]]) (auto simp: simps intro!: gives_ret)
  show "gives (free k) (DeleteAdList N ctx a) (\<lambda>_. True)"
    unfolding DeleteAdList_def Let_def new_request
    by (rule C, rule A, rule gives_Do [OF delete_answers]) (auto simp: simps intro!: gives_ret)
  show "gives (free k) (RunGravity N ctx) (\<lambda>_. True)"
    unfolding RunGravity_def Let_def new_request
    by (rule C, rule A, rule C, rule gives_Do [OF gravity_answers]) (auto simp: simps whole_def intro!: gives_ret)
qed

end


section \<open>The synchronisation\<close>

locale responsive_world = served_world K objs like N db + willing_world K objs like N + responsive_net N
  for K :: "'w kube" and objs :: "'w \<Rightarrow> (okey \<rightharpoonup> kobj)" and like :: "kobj \<Rightarrow> kobj \<Rightarrow> bool" and N :: "'w net"
    and db :: "'w \<Rightarrow> string \<Rightarrow> (string \<rightharpoonup> string option)" +
  assumes lists_pods: "\<exists>pods. fst (k_list_pods K ns ls w) = Inr pods"
    and like_replicas: "objs w k = Some (OStatefulSet e) \<Longrightarrow> like (OStatefulSet d) (OStatefulSet e) \<Longrightarrow>
      stsReplicas d = Some r \<Longrightarrow> stsReplicas e = Some r"

text \<open>During the sync: the clients \<open>M\<close>, the name of the cluster, clean lists and a property of the resource.\<close>

definition syncing :: "('w \<Rightarrow> string \<Rightarrow> (string \<rightharpoonup> string option)) \<Rightarrow> (string \<times> ApiClientEntry) list \<Rightarrow> string \<Rightarrow>
    (PiHoleCluster \<Rightarrow> bool) \<Rightarrow> 'w rs \<Rightarrow> bool" where
  "syncing db M n P s \<longleftrightarrow> reg_with M P s \<and> currentClusterName s = n \<and> clean_lists (db (world s))"

context responsive_world
begin

lemma syncing_keeps:
  assumes "keeps (reg_with M P) m" "keeps (about (\<lambda>x. x = n) (\<lambda>_. True)) m" "keeps (lists_in clean_lists) m"
  shows "keeps (syncing db M n P) m"
proof (rule keepsI)
  fix s r s'
  assume I: "syncing db M n P s" and run: "m s = (r, s')"
  from keepsD [OF assms(1) _ run] keepsD [OF assms(2) _ run] keepsD [OF assms(3) _ run] I
  show "syncing db M n P s'" by (simp add: syncing_def about_def WC_def)
qed

lemma syncing_returns:
  assumes "returns (reg_with M P) m" "keeps (about (\<lambda>x. x = n) (\<lambda>_. True)) m" "keeps (lists_in clean_lists) m"
  shows "returns (syncing db M n P) m"
  by (rule returnsI [OF syncing_keeps [OF returns_keeps [OF assms(1)] assms(2,3)]])
     (rule returnsD [OF assms(1)], simp_all add: syncing_def)

lemma on_client_gives:
  assumes "p \<in> pointers M" "\<And>k. returns (free k) m" "\<And>k. gives (free k) m (\<lambda>_. True)"
    and "keeps (\<lambda>s. clean_lists (db (snd s))) m"
  shows "gives (syncing db M n P) (on_client p m) (\<lambda>_. True)"
proof (rule gives_returns [OF syncing_returns])
  show "returns (reg_with M P) (on_client p m)" by (rule returns_reg_with [OF on_client_returns [OF assms(1,2)]])
  show "keeps (about (\<lambda>x. x = n) (\<lambda>_. True)) (on_client p m)" by (rule on_client_about)
  show "keeps (lists_in clean_lists) (on_client p m)" by (rule on_client_keeps [OF assms(4)])
  fix s e s'
  assume I: "syncing db M n P s"
  then obtain name en where "map_of (ApiClients s) name = Some en" "p = enClient en" "reg_ok s"
    using assms(1) by (auto simp: pointers_def syncing_def reg_with_def)
  with reg_ok_usable obtain a where a: "p = Some a" "\<not> mu (heap s a)" unfolding client_usable_def by metis
  then have f: "free (identity (heap s a)) (heap s a, world s)" by simp
  obtain x t where "m (heap s a, world s) = (Ok x, t)" by (rule givesE [OF assms(3) f])
  with a show "on_client p m s \<noteq> (Err e, s')" by (simp add: on_client_def split: prod.splits)
qed

lemma calls_give:
  assumes "p \<in> pointers M"
  shows "gives (syncing db M n P) (on_client p (DownloadTeleporter N ctx)) (\<lambda>_. True)"
    "gives (syncing db M n P) (on_client p (GetAdLists N ctx)) (\<lambda>ls. \<forall>l \<in> set ls. CHR '' '' \<notin> set (adAddress l))"
    "CHR '' '' \<notin> set a \<Longrightarrow> gives (syncing db M n P) (on_client p (PostAdList N ctx a)) (\<lambda>_. True)"
    "gives (syncing db M n P) (on_client p (DeleteAdList N ctx a)) (\<lambda>_. True)"
    "gives (syncing db M n P) (on_client p (RunGravity N ctx)) (\<lambda>_. True)"
proof -
  note G = on_client_gives [OF assms operations_return(1) operations_give(1) api_operations_keep(1) [OF clean_net]]
    on_client_gives [OF assms operations_return(3) operations_give(3) api_operations_keep(3) [OF clean_net]]
    on_client_gives [OF assms operations_return(4) operations_give(4) api_operations_keep(4) [OF clean_net]]
    on_client_gives [OF assms operations_return(5) operations_give(5) api_operations_keep(5) [OF clean_net]]
    on_client_gives [OF assms operations_return(6) operations_give(6) api_operations_keep(6) [OF clean_net]]
  show "gives (syncing db M n P) (on_client p (DownloadTeleporter N ctx)) (\<lambda>_. True)"
    "CHR '' '' \<notin> set a \<Longrightarrow> gives (syncing db M n P) (on_client p (PostAdList N ctx a)) (\<lambda>_. True)"
    "gives (syncing db M n P) (on_client p (DeleteAdList N ctx a)) (\<lambda>_. True)"
    "gives (syncing db M n P) (on_client p (RunGravity N ctx)) (\<lambda>_. True)" by (rule G, assumption?)+
  show "gives (syncing db M n P) (on_client p (GetAdLists N ctx)) (\<lambda>ls. \<forall>l \<in> set ls. CHR '' '' \<notin> set (adAddress l))"
  proof (rule gives_post [OF G(2)])
    fix s ls s'
    assume I: "syncing db M n P s" and run: "on_client p (GetAdLists N ctx) s = (Ok ls, s')"
    then have "client_usable p s" using assms reg_ok_usable by (auto simp: syncing_def reg_with_def pointers_def)
    from store.get_Ok [OF this run] have "(\<lambda>l. (adAddress l, adComment l)) ` set ls = Map.graph (db (world s) (client_host p s))" by simp
    then have "db (world s) (client_host p s) (adAddress l) = Some (adComment l)" if "l \<in> set ls" for l
      using that by (metis (no_types, lifting) imageI in_graphD)
    with I show "\<forall>l \<in> set ls. CHR '' '' \<notin> set (adAddress l)" by (auto simp: syncing_def clean_lists_def)
  qed
qed

lemma range_keys_gives: "gives (syncing db M n P) (range_keys K ks) (\<lambda>xs. set xs = set ks)"
proof (rule gives_post [OF gives_returns])
  show "returns (syncing db M n P) (range_keys K ks)"
  proof (rule syncing_returns)
    show "returns (reg_with M P) (range_keys K ks)" unfolding range_keys_def by (intro worldless_calls) simp
    show "keeps (about (\<lambda>x. x = n) (\<lambda>_. True)) (range_keys K ks)"
      unfolding range_keys_def by (rule returns_keeps [OF worldless_calls(2) [OF about_worldless]])
    show "keeps (lists_in clean_lists) (range_keys K ks)"
      unfolding range_keys_def by (rule reads_keepD(3) [OF reads_apart])
  qed
  show "range_keys K ks s \<noteq> (Err e, s')" for s e s'
    by (simp add: range_keys_def askW_def askR_def split: prod.splits)
  show "range_keys K ks s = (Ok xs, s') \<Longrightarrow> set xs = set ks" for s xs s'
    using ranges unfolding ranges_all_def
    by (auto simp: range_keys_def askW_def askR_def dest!: mset_eq_setD split: prod.splits) (metis fst_conv mset_eq_setD)+
qed

lemma loops_give:
  assumes "p \<in> pointers M"
  shows "\<forall>a \<in> set xs. CHR '' '' \<notin> set a \<Longrightarrow>
      gives (syncing db M n P) (post_missing msg (\<lambda>a. on_client p (PostAdList N ctx a)) ex xs) (\<lambda>_. True)"
    "gives (syncing db M n P) (delete_lists msg (\<lambda>a. on_client p (DeleteAdList N ctx a)) V ls) (\<lambda>_. True)"
  unfolding post_missing_def delete_lists_def
  by (intro gives_forR gives_if gives_ctxR gives_ret calls_give [OF assms] TrueI; simp)+

lemma syncRW_gives:
  assumes "p \<in> pointers M" "\<forall>a \<in> set want. CHR '' '' \<notin> set a"
  shows "gives (syncing db M n P) (syncRW K N ctx p want) (\<lambda>final. \<forall>a \<in> set (mkeys final). CHR '' '' \<notin> set a)"
proof -
  note C = calls_give [OF assms(1), where n = n and P = P] loops_give [OF assms(1), where n = n and P = P]
  have keys: "\<forall>a \<in> set (mkeys (to_set xs)). CHR '' '' \<notin> set a" if "\<forall>a \<in> set xs. CHR '' '' \<notin> set a" for xs :: "string list"
    using that by (simp only: set_to_set)
  show ?thesis
    unfolding syncRW_def sync_rw_def Let_def
    by (rule gives_bindR [OF gives_ctxR [OF C(2)]], rule gives_bindR [OF range_keys_gives], rule gives_bindR [OF C(6)],
        (use keys [OF assms(2)] in simp), rule gives_bindR [OF gives_ctxR [OF C(2)]], rule gives_bindR [OF C(7)],
        rule gives_bindR [OF gives_ctxR [OF C(5)]], rule gives_bindR [OF gives_ctxR [OF C(2)]], rule gives_ret, rule keys) simp
qed

lemma syncRO_gives:
  assumes "p \<in> pointers M" "\<forall>a \<in> set (mkeys final). CHR '' '' \<notin> set a"
  shows "gives (syncing db M n P) (syncRO K N ctx final p) (\<lambda>_. True)"
proof -
  note C = calls_give [OF assms(1), where n = n and P = P] loops_give [OF assms(1), where n = n and P = P]
  have "gives (syncing db M n P) (sync_ro (on_client p (GetAdLists N ctx)) (\<lambda>a. on_client p (PostAdList N ctx a))
      (\<lambda>a. on_client p (DeleteAdList N ctx a)) (on_client p (RunGravity N ctx)) (range_keys K) base final) (\<lambda>_. True)" for base
    unfolding sync_ro_def
    by (rule gives_bindR [OF gives_ctxR [OF C(2)]], rule gives_bindR [OF range_keys_gives], rule gives_bindR [OF C(6)],
        (use assms(2) in simp), rule gives_bindR [OF gives_ctxR [OF C(2)]], rule gives_bindR [OF C(7)],
        rule gives_ctxR [OF C(5)])
  moreover have "p \<noteq> None" if "syncing db M n P s" for s
    using that assms(1) pointers_not_nil [of M "cluster s" s p] by (simp add: syncing_def reg_with_def reg_at_def)
  ultimately show ?thesis
    by (cases p) (auto simp: gives_def syncRO_def bindR_def getS_def)
qed

lemma registry_lookups_give:
  assumes "map_of M (n @ ''-rw-0'') = Some e" "map_of M (n @ ''-ro-'' @ x) \<noteq> None"
  shows "gives (syncing db M n P) ReadWriteAPIClient (\<lambda>p. p \<in> pointers M)"
    "gives (syncing db M n P) (ReadOnlyAPIClients K) (\<lambda>ps. set ps \<subseteq> pointers M)"
proof -
  show "gives (syncing db M n P) ReadWriteAPIClient (\<lambda>p. p \<in> pointers M)"
    using assms(1) by (auto simp: gives_def ReadWriteAPIClient_def bindR_def getS_def ret_def syncing_def reg_with_def pointers_def)
  have R: "returns (syncing db M n P) (ReadOnlyAPIClients K)"
  proof (rule syncing_returns [OF returns_reg_with [OF ReadOnly_returns(1)]])
    show "keeps (about (\<lambda>x. x = n) (\<lambda>_. True)) (ReadOnlyAPIClients K)"
      unfolding ReadOnlyAPIClients_def rangeClients_def Let_def
      by (intro keeps_bindR keeps_if keeps_basic returns_keeps [OF worldless_calls(2) [OF about_worldless]])
  qed (rule reads_keepD(7) [OF reads_apart])
  show "gives (syncing db M n P) (ReadOnlyAPIClients K) (\<lambda>ps. set ps \<subseteq> pointers M)"
  proof (rule gives_post [OF gives_returns [OF R]])
    fix s e s'
    assume I: "syncing db M n P s"
    show "ReadOnlyAPIClients K s \<noteq> (Err e, s')"
    proof
      assume run: "ReadOnlyAPIClients K s = (Err e, s')"
      obtain names w where m: "mset names = mset (mkeys (ApiClients s))"
        and "filter (\<lambda>n. HasPrefix n (currentClusterName s @ ''-ro-'')) names = []"
        by (rule ReadOnlyAPIClients_run [OF ranges run]) (auto split: if_splits)
      then have no: "\<not> HasPrefix a (currentClusterName s @ ''-ro-'')" if "a \<in> set (mkeys (ApiClients s))" for a
        using that mset_eq_setD [OF m] by (auto simp: filter_empty_conv)
      have "n @ ''-ro-'' @ x \<in> set (mkeys (ApiClients s))"
        using assms(2) I by (auto simp: syncing_def reg_with_def map_of_eq_None_iff)
      from no [OF this] I show False by (simp add: HasPrefix_def syncing_def)
    qed
  next
    fix s ps s'
    assume I: "syncing db M n P s" and run: "ReadOnlyAPIClients K s = (Ok ps, s')"
    from I have "reg_at M (cluster s) s" by (simp add: syncing_def reg_with_def reg_at_def)
    from ReadOnly_returns(2) [OF ranges this run] show "set ps \<subseteq> pointers M" .
  qed
qed


lemma syncAdLists_gives:
  assumes "map_of M (n @ ''-rw-0'') = Some e" "map_of M (n @ ''-ro-'' @ x) \<noteq> None"
    and "\<And>c. P c \<Longrightarrow> Config (clSpec c) = Some cfg" "\<forall>a \<in> set (cfgAdLists cfg). CHR '' '' \<notin> set a"
  shows "gives (syncing db M n P) (syncAdLists K N ctx) (\<lambda>_. True)"
proof -
  note L = registry_lookups_give [OF assms(1,2), where P = P]
  have g: "gives (syncing db M n P) getCluster P"
    by (auto simp: getCluster_def syncing_def reg_with_def intro!: gives_askR)
  have "gives (syncing db M n P) (case Config (clSpec cl) of None \<Rightarrow> panic ''nil pointer dereference''
     | Some cfg \<Rightarrow> bindR (syncRW K N ctx p (cfgAdLists cfg)) (\<lambda>finalRW.
         bindR (wrap ''listing read-only clients'' (ReadOnlyAPIClients K)) (\<lambda>roClients.
         forR roClients (syncRO K N ctx finalRW)))) (\<lambda>_. True)" if p: "p \<in> pointers M" and cl: "P cl" for p cl
    unfolding assms(3) [OF cl] option.case
    by (rule gives_bindR [OF syncRW_gives [OF p assms(4)]], rule gives_bindR [OF gives_ctxR [OF L(2)]], rule gives_forR,
        rule syncRO_gives, blast, assumption)
  then show ?thesis
    unfolding syncAdLists_def by (intro gives_bindR [OF gives_ctxR [OF L(1)]] gives_bindR [OF g])
qed

text \<open>The calls whose errors are swallowed.\<close>

lemma quiet_calls_give:
  assumes P: "status_prop P" "\<And>c n u. P c \<Longrightarrow> P (addPodSynced c n u)"
  shows "q \<in> pointers M \<Longrightarrow> gives (syncing db M n P) (uploadTo N ctx podMap d q) (\<lambda>_. True)"
    "(\<And>t c. P c \<Longrightarrow> P (c\<lparr>clStatus := f t (clStatus c)\<rparr>)) \<Longrightarrow> gives (syncing db M n P) (stampStatus K N f) (\<lambda>_. True)"
    "gives (syncing db M n P) (callW (k_list_pods K ns ls)) (\<lambda>_. True)"
proof -
  note W = returns_keeps [OF worldless_calls(1) [OF about_worldless]] returns_keeps [OF worldless_calls(2) [OF about_worldless]]
  have m: "keeps (about A (\<lambda>_. True)) (modCluster g)" "keeps (about A (\<lambda>_. True)) (modStatus h)" for A g h
    unfolding modStatus_def modCluster_def by (auto intro!: keeps_modS simp: about_def)
  have upd: "keeps (about A (\<lambda>_. True)) (UpdateClusterStatusWithRetry K)" for A
    by (rule returns_keeps [OF UpdateStatus_returns [OF about_worldless _ world_retry]]) (simp add: about_def)
  show "gives (syncing db M n P) (uploadTo N ctx podMap d q) (\<lambda>_. True)" if q: "q \<in> pointers M"
  proof (rule gives_returns [OF syncing_returns])
    show "returns (reg_with M P) (uploadTo N ctx podMap d q)" by (rule uploadTo_returns) (use q P(2) in auto)
    show "keeps (about (\<lambda>x. x = n) (\<lambda>_. True)) (uploadTo N ctx podMap d q)"
      unfolding uploadTo_def by (intro keeps_bindR keeps_tryR keeps_option keeps_sum keeps_basic on_client_about m)
    show "keeps (lists_in clean_lists) (uploadTo N ctx podMap d q)"
      unfolding uploadTo_def
      by (intro keeps_bindR keeps_tryR keeps_option keeps_sum keeps_basic on_client_keeps api_operations_keep clean_net
          status_changes_keep) (simp add: status_free_def)
    show "uploadTo N ctx podMap d q s \<noteq> (Err e, s')" for s e s'
      by (auto simp: uploadTo_def bindR_def getS_def panic_def ret_def tryR_def modCluster_def modS_def
          split: option.splits prod.splits res.splits sum.splits)
  qed
  show "gives (syncing db M n P) (stampStatus K N f) (\<lambda>_. True)" if f: "\<And>t c. P c \<Longrightarrow> P (c\<lparr>clStatus := f t (clStatus c)\<rparr>)"
  proof (rule gives_returns [OF syncing_returns])
    show "returns (reg_with M P) (stampStatus K N f)" by (rule stampStatus_returns [OF echoes P(1) world_retry f])
    show "keeps (about (\<lambda>x. x = n) (\<lambda>_. True)) (stampStatus K N f)"
      unfolding stampStatus_def by (intro keeps_bindR keeps_tryR keeps_basic W m upd)
    show "keeps (lists_in clean_lists) (stampStatus K N f)" by (rule stamp_kept(2))
    show "stampStatus K N f s \<noteq> (Err e, s')" for s e s'
      by (auto simp: stampStatus_def bindR_def askW_def askR_def modStatus_def modCluster_def modS_def tryR_def ret_def
          split: prod.splits res.splits)
  qed
  show "gives (syncing db M n P) (callW (k_list_pods K ns ls)) (\<lambda>_. True)"
  proof (rule gives_returns [OF syncing_returns])
    show "returns (reg_with M P) (callW (k_list_pods K ns ls))" by (intro worldless_calls) simp
    show "keeps (about (\<lambda>x. x = n) (\<lambda>_. True)) (callW (k_list_pods K ns ls))" by (rule W)
    show "keeps (lists_in clean_lists) (callW (k_list_pods K ns ls))" by (rule reads_keepD(2) [OF reads_apart])
    show "callW (k_list_pods K ns ls) s \<noteq> (Err e, s')" for s e s'
      using lists_pods [of ns ls "world s"] by (auto simp: callW_def callR_def split: prod.splits sum.splits)
  qed
qed

lemma performConfigSync_gives:
  assumes M: "map_of M (n @ ''-rw-0'') = Some e" "map_of M (n @ ''-ro-'' @ x) \<noteq> None"
    and cfg: "\<forall>a \<in> set (cfgAdLists cfg). CHR '' '' \<notin> set a"
    and P: "P = (\<lambda>c. Sync (clSpec c) = Some sy \<and> Config (clSpec c) = Some cfg)"
  shows "gives (syncing db M n P) (performConfigSync K N ctx) (\<lambda>_. True)"
proof -
  have P': "status_prop P" "\<And>c n u. P c \<Longrightarrow> P (addPodSynced c n u)" "\<And>c st. P c \<Longrightarrow> P (c\<lparr>clStatus := st\<rparr>)"
    unfolding P by (auto simp: status_prop_def addPodSynced_def)
  note L = registry_lookups_give [OF M, where P = P] and Q = quiet_calls_give [OF P'(1,2)]
  have g: "gives (syncing db M n P) getCluster P"
    by (auto simp: getCluster_def syncing_def reg_with_def intro!: gives_askR)
  have ad: "gives (syncing db M n P) (adListStage K N ctx) (\<lambda>_. True)"
    unfolding adListStage_def
  proof (rule gives_bindR [OF g])
    fix cl
    assume "P cl"
    then have "Sync (clSpec cl) = Some sy" "Config (clSpec cl) = Some cfg" by (simp_all add: P)
    moreover have "gives (syncing db M n P) (syncAdLists K N ctx) (\<lambda>_. True)"
      by (rule syncAdLists_gives [OF M _ cfg]) (simp add: P)
    ultimately show "gives (syncing db M n P) (case Sync (clSpec cl) of None \<Rightarrow> panic ''nil pointer dereference''
      | Some sy \<Rightarrow> if \<not> synAdLists sy then ret ()
        else (case Config (clSpec cl) of None \<Rightarrow> panic ''nil pointer dereference''
         | Some cfg \<Rightarrow> whenR (cfgAdLists cfg \<noteq> []) (bindR (wrap ''sync ad lists'' (syncAdLists K N ctx)) (\<lambda>_.
                stampStatus K N (\<lambda>t st. st\<lparr>AdListSynced := True, LastAdListSyncTime := t\<rparr>))))) (\<lambda>_. True)"
      using Q(2) P'(3) by (auto intro!: gives_ret gives_whenR gives_bindR gives_ctxR)
  qed
  have up: "gives (syncing db M n P) (forR ros (uploadTo N x podMap d)) (\<lambda>_. True)" if "set ros \<subseteq> pointers M" for ros x podMap d
    using that by (intro gives_forR Q(1)) auto
  have stamp: "gives (syncing db M n P) (stampStatus K N (\<lambda>t st. st\<lparr>ConfigSynced := True, LastConfigSyncTime := t\<rparr>)) (\<lambda>_. True)"
    by (rule Q(2)) (use P'(3) in auto)
  have list: "gives (syncing db M n P) (callW (k_list_pods K ns ls)) (\<lambda>_. True)" for ns ls
    by (rule Q(3)) auto
  show ?thesis
    unfolding performConfigSync_def Let_def
    by (rule gives_bindR [OF g], rule gives_bindR [OF gives_ctxR [OF list]], rule gives_if, rule gives_ret, rule TrueI,
        rule gives_bindR [OF gives_ctxR [OF L(1)]], rule gives_bindR [OF gives_ctxR [OF calls_give(1)]], assumption,
        rule gives_bindR [OF gives_ctxR [OF L(2)]], rule gives_bindR [OF up], assumption, rule gives_bindR [OF stamp ad])
qed


section \<open>The clients\<close>

lemma refresh_gives: "gives (\<lambda>s. reg_ok s \<and> underway K objs cl s) (refreshClient K p) (\<lambda>_. True)"
proof (rule gives_returns)
  have q: "keeps (WC (\<lambda>w. objs w = f) (same_resource c)) (refreshClient K p)" for f c
    unfolding refreshClient_def
    by (intro keeps_bindR keeps_if keeps_option keeps_basic own_state_keeps createClient_keeps [OF quiet_sync])
  have out: "reg_ok s' \<and> underway K objs cl s' \<and> settled r"
    if "reg_ok s \<and> underway K objs cl s" "refreshClient K p s = (r, s')" for s r s'
    using refreshClient_cases [OF _ that(2)] refreshClient_settled [OF typed _ that(2)]
      provided_stage [OF stage_keeps [OF q that(2)]] that(1) by auto
  then show "returns (\<lambda>s. reg_ok s \<and> underway K objs cl s) (refreshClient K p)"
    by (intro returnsI keepsI) blast+
  fix s e s'
  assume I: "reg_ok s \<and> underway K objs cl s"
  have c: "\<exists>u. createClient K p (s\<lparr>idleClosed := cs\<rparr>) = (Ok (), u)" for cs
  proof -
    have "password_ready objs (cluster (s\<lparr>idleClosed := cs\<rparr>)) (world (s\<lparr>idleClosed := cs\<rparr>))"
      using I by (simp add: underway_def provided_def)
    from getAPISecret_succeeds [OF this] show ?thesis
      by (auto simp: createClient_def bindR_def ctxR_def modS_def Let_def)
  qed
  from c [of "idleClosed s"] have c0: "\<exists>u. createClient K p s = (Ok (), u)" by simp
  show "refreshClient K p s \<noteq> (Err e, s')"
    using c c0 by (auto simp: refreshClient_def bindR_def getS_def ret_def closeClient_def panic_def modS_def split: option.splits)
       (metis prod.inject res.distinct(1))+
qed

end

text \<open>The pods the operator lists include the read-write pod and a read-only pod, ready and with addresses.\<close>

definition up :: "Pod \<Rightarrow> bool" where
  "up p \<longleftrightarrow> IsPodReady p \<and> podIP p \<noteq> []"

definition pods_serve :: "'w kube \<Rightarrow> PiHoleCluster \<Rightarrow> bool" where
  "pods_serve K cl \<longleftrightarrow> (\<forall>w pods. fst (k_list_pods K (clNamespace cl) [(''app.kubernetes.io/name'', ''pihole'')] w) = Inr pods \<longrightarrow>
     distinct (map podName pods) \<and> (\<exists>p \<in> set pods. podName p = clName cl @ ''-rw-0'' \<and> up p) \<and>
     (\<exists>p \<in> set pods. (\<exists>x. podName p = clName cl @ ''-ro-'' @ x) \<and> up p))"

text \<open>The server reports a read-only stateful set of the size asked for ready, with as many ready pods.\<close>

definition ro_ready :: "'w kube \<Rightarrow> PiHoleCluster \<Rightarrow> bool" where
  "ro_ready K cl \<longleftrightarrow> (\<forall>w d w'. k_get K StatefulSetKind (clNamespace cl) (clName cl @ ''-ro'') w = (Inr (OStatefulSet d), w') \<longrightarrow>
     stsReplicas d = Some (Replicas (clSpec cl)) \<longrightarrow> stsReadyReplicas d \<noteq> 0 \<and>
     (\<forall>v pods. fst (k_list_pods K (clNamespace cl) (sts_labels cl ''readonly'') v) = Inr pods \<longrightarrow>
       pods \<noteq> [] \<and> int (length (filter IsPodReady pods)) = sint (Replicas (clSpec cl))))"

context responsive_world
begin

lemma syncAPIClients_succeeds:
  assumes ok: "reg_ok s" and u: "underway K objs cl s" and serve: "pods_serve K cl"
  shows "\<exists>s' x. syncAPIClients K s = (Ok (), s') \<and> map_of (ApiClients s') (clName cl @ ''-rw-0'') \<noteq> None \<and>
    map_of (ApiClients s') (clName cl @ ''-ro-'' @ x) \<noteq> None"
proof -
  have n: "clNamespace (cluster s) = clNamespace cl" using u by (simp add: underway_def same_resource_def)
  obtain pods w where l: "list_pods K s = (Inr pods, w)"
    using lists_pods [of "clNamespace (cluster s)" "[(''app.kubernetes.io/name'', ''pihole'')]" "world s"]
    by (cases "list_pods K s") (auto simp: list_pods_def)
  have st: "stage objs {} s (s\<lparr>world := w\<rparr>)"
    using kept_world_step [OF list_quiet refl l [unfolded list_pods_def]] by (simp add: stage_def same_refl)
  have I: "reg_ok (s\<lparr>world := w\<rparr>) \<and> underway K objs cl (s\<lparr>world := w\<rparr>)"
    using reg_ok_world [OF ok] provided_stage [OF st _ u] by simp
  obtain s1 where r1: "forR pods (refreshClient K) (s\<lparr>world := w\<rparr>) = (Ok (), s1)" and ok1: "reg_ok s1"
    by (rule givesE [OF gives_forR [OF refresh_gives] I, of pods]) auto
  from drop_all [OF ranges ok1, of pods] obtain s2 where
    r2: "bindR (rangeClients K) (\<lambda>names. forR names (dropStale pods)) s1 = (Ok (), s2)"
    and m: "map_of (ApiClients s2) = (\<lambda>n. if list_ex (\<lambda>p. podName p = n) pods then map_of (ApiClients s1) n else None)" by blast
  have run: "syncAPIClients K s = (Ok (), s2)" using r1 r2 by (simp add: syncAPIClients_run(2) [OF l] bindR_eq)
  from l n have "fst (k_list_pods K (clNamespace cl) [(''app.kubernetes.io/name'', ''pihole'')] (world s)) = Inr pods"
    by (simp add: list_pods_def)
  with serve have d: "distinct (map podName pods)" and rw: "\<exists>p \<in> set pods. podName p = clName cl @ ''-rw-0'' \<and> up p"
    and ro: "\<exists>p \<in> set pods. (\<exists>x. podName p = clName cl @ ''-ro-'' @ x) \<and> up p"
    unfolding pods_serve_def by blast+
  have "map_of (ApiClients s2) (podName p) \<noteq> None" if "p \<in> set pods" "up p" for p
    using refresh_loop_Ok [OF conjunct1 [OF I] d r1] that m by (auto simp: fits_def up_def list_ex_iff)
  with rw ro run show ?thesis by metis
qed

text \<open>The stateful set that the replica stage leaves behind, as the server has it.\<close>

lemma replicas_stored:
  assumes "replicas_held K objs like cl s"
  obtains e where "objs (world s) (StatefulSetKind, clNamespace cl, clName cl @ ''-ro'') = Some (OStatefulSet e)"
    "stsReplicas e = Some (Replicas (clSpec cl))"
proof -
  from assms obtain c d c' d' x where c: "same_resource cl c" and r: "set_controller_ref K c' (OStatefulSet d) = Inr d'" "like d' x"
    and x: "objs (world s) (key_of (OStatefulSet d)) = Some x"
    and w: "wired c (new_sts c (clName cl @ ''-ro'') ''readonly'' (Replicas (clSpec cl))) d"
    unfolding replicas_held_def held_def by blast
  have k: "key_of (OStatefulSet d) = (StatefulSetKind, clNamespace cl, clName cl @ ''-ro'')"
    using wired_key [OF w] c by (simp add: same_resource_def)
  have n: "stsReplicas d = Some (Replicas (clSpec cl))"
    using w by (simp add: wired_def sts_head_def new_sts_def Int32Ptr_def)
  from ref_meta [OF r(1)] obtain f where d': "d' = OStatefulSet (d\<lparr>stsMeta := f (stsMeta d)\<rparr>)" by auto
  from stored_key [OF x] k obtain e where e: "x = OStatefulSet e" by (cases x) (auto simp: key_of_def)
  have "stsReplicas e = Some (Replicas (clSpec cl))"
    by (rule like_replicas [OF x [unfolded e] r(2) [unfolded d' e]]) (simp add: n)
  with x k e that show thesis by simp
qed

lemma syncStage_succeeds:
  assumes I: "before db cl s" and u: "underway K objs cl s" and sts: "replicas_held K objs like cl s"
    and ready: "ro_ready K cl" "pods_serve K cl"
    and sy: "Sync (clSpec cl) = Some sy" "Config (clSpec cl) = Some cfg" "\<forall>a \<in> set (cfgAdLists cfg). CHR '' '' \<notin> set a"
  shows "\<exists>s'. syncStage K N ctx s = (Ok (), s')"
proof -
  have dep: "deployable K cl" using u password_same(5) [of cl "cluster s" K] by (simp add: underway_def provided_def)
  have n: "clNamespace (cluster s) = clNamespace cl" "clName (cluster s) = clName cl"
    using u by (simp_all add: underway_def same_resource_def)
  then have lb: "sts_labels (cluster s) ''readonly'' = sts_labels cl ''readonly''" by (simp add: sts_labels_def instance_labels_def)
  obtain d where y: "objs (world s) (StatefulSetKind, clNamespace cl, clName cl @ ''-ro'') = Some (OStatefulSet d)"
    and size: "stsReplicas d = Some (Replicas (clSpec cl))" by (rule replicas_stored [OF sts])
  obtain w where d: "k_get K StatefulSetKind (clNamespace cl) (clName cl @ ''-ro'') (world s) = (Inr (OStatefulSet d), w)"
    by (rule get_obtains [of "world s" StatefulSetKind "clNamespace cl" "clName cl @ ''-ro''"]) (use y in auto)
  obtain pods v where p: "k_list_pods K (clNamespace cl) (sts_labels cl ''readonly'') w = (Inr pods, v)"
    using lists_pods by (metis prod.collapse)
  with ready(1) d size have k: "stsReadyReplicas d \<noteq> 0" "pods \<noteq> []"
    "int (length (filter IsPodReady pods)) = sint (Replicas (clSpec cl))" unfolding ro_ready_def by (metis fst_conv)+
  have 1: "areROPodsReady K s = (Ok True, s\<lparr>world := v\<rparr>)" (is "_ = (_, ?t)")
    using d p k size by (simp add: areROPodsReady_def getCluster_def askR_def bindR_def ctxR_def tryR_def callW_def callR_def
        asStatefulSet_def ret_def n lb Let_def)
  have t: "before db cl ?t" "underway K objs cl ?t"
    using before_ensure(6) [OF dep I 1] provided_stage [OF readiness_stage(2) [OF 1] _ u] by simp_all
  from syncAPIClients_succeeds [OF _ t(2) ready(2)] t(1) obtain x s2 where
    2: "syncAPIClients K ?t = (Ok (), s2)" and m: "map_of (ApiClients s2) (clName cl @ ''-rw-0'') \<noteq> None"
      "map_of (ApiClients s2) (clName cl @ ''-ro-'' @ x) \<noteq> None" by (auto simp: before_def)
  have b: "before db cl s2" by (rule before_ensure(7) [OF dep t(1) 2])
  let ?P = "\<lambda>c. Sync (clSpec c) = Some sy \<and> Config (clSpec c) = Some cfg"
  from b sy(1,2) have J: "syncing db (ApiClients s2) (clName cl) ?P s2"
    by (simp add: syncing_def reg_with_def before_def about_def same_resource_def)
  from m(1) obtain e where "map_of (ApiClients s2) (clName cl @ ''-rw-0'') = Some e" by blast
  from givesE [OF performConfigSync_gives [OF this m(2) sy(3) refl] J] obtain y s3 where
    "performConfigSync K N ctx s2 = (Ok y, s3)" by blast
  then show ?thesis using 1 2 by (simp add: syncStage_def bindR_def ctxR_def)
qed

text \<open>All the stages of a cluster with replicas to bring up to date.\<close>

lemma ensureResources_syncs:
  assumes I: "before db cl s" and cl: "cluster s = cl"
    and pw: "apSecretRef (cfgAPIPassword cfg) = None \<and> apPassword (cfgAPIPassword cfg) \<noteq> [] \<or> password_ready objs cl (world s)"
    and dep: "deployable K cl" and rep: "0 < sint (Replicas (clSpec cl))"
    and ready: "rw_ready K cl" "ro_ready K cl" "pods_serve K cl"
    and sy: "Sync (clSpec cl) = Some sy" "Config (clSpec cl) = Some cfg" "\<forall>a \<in> set (cfgAdLists cfg). CHR '' '' \<notin> set a"
  shows "\<exists>s'. ensureResources K N ctx s = (Ok (), s')"
proof -
  note B = before_ensure [OF dep] and ops = operations_underway [of cl]
  from secret_succeeds [of s cfg] sy(2) pw cl obtain a t where
    1: "ensureAPISecret K s = (Ok a, t)" and "cluster t = cl" "password_ready objs cl (world t)" by auto
  then have u: "underway K objs cl t" using dep by (simp add: underway_def provided_def same_refl)
  obtain b t2 where 2: "ensurePiHolePVC K t = (Ok b, t2)" and u2: "underway K objs cl t2" by (rule succeedsE [OF ops(1) u])
  obtain c t3 where 3: "ensureReadWriteSTS K t2 = (Ok c, t3)" and u3: "underway K objs cl t3" by (rule succeedsE [OF ops(2) u2])
  have b3: "before db cl t3" by (rule B(3) [OF B(2) [OF B(1) [OF I 1] 2] 3])
  obtain d t4 where 4: "replicaStage K t3 = (Ok d, t4)" and u4: "underway K objs cl t4"
    by (rule succeedsE [OF replicaStage_succeeds [OF ready(1)] u3])
  have b4: "before db cl t4" using before_replicaStage [OF dep b3, of t4] 4 by simp
  have "replicas_held K objs like cl t4"
    using ro_stage_Ok(2) [of t3 t4 cl] 4 u3 rep by (simp add: underway_def)
  from syncStage_succeeds [OF b4 u4 this ready(2,3) sy] obtain t5 where 5: "syncStage K N ctx t4 = (Ok (), t5)" ..
  from syncStage_Ok [OF 5] have st: "stage objs {} t4 t5" by simp
  have u5: "underway K objs cl t5" by (rule provided_stage [OF st _ u4]) simp
  have on: "whenCluster q m v = m v" if "q (cluster v)" for q v and m :: "('w rs, unit) prog"
    using that by (simp add: whenCluster_def getCluster_def askR_def bindR_def whenR_def)
  have "succeeds (underway K objs cl)
     (bindR (whenCluster ingressEnabled (wrap ''ensureIngress'' (ensureIngress K))) (\<lambda>_.
     bindR (whenCluster podMonitorEnabled (wrap ''ensurePodMonitor'' (ensurePodMonitor K))) (\<lambda>_.
     wrap ''ensureDNSService'' (ensureDNSService K))))" (is "succeeds _ ?rest")
    by (intro succeeds_bindR succeeds_wrap ops succeeds_whenCluster)
       (use succeeds_wrap [OF ops(4), unfolded succeeds_def] succeeds_wrap [OF ops(5), unfolded succeeds_def] in \<open>blast+\<close>)
  from succeedsE [OF this u5] obtain x s' where r: "?rest t5 = (Ok x, s')" by blast
  have same: "0 < sint (Replicas (clSpec (cluster t3)))" "Sync (clSpec (cluster t4)) \<noteq> None \<and> 0 < sint (Replicas (clSpec (cluster t4)))"
    using u3 u4 rep sy(1) by (simp_all add: underway_def same_resource_def)
  have "ensureResources K N ctx s = ?rest t5"
    unfolding ensureResources_def
    using 1 2 3 4 5 on [of "\<lambda>cl. 0 < sint (Replicas (clSpec cl))" t3, OF same(1)]
      on [of "\<lambda>cl. Sync (clSpec cl) \<noteq> None \<and> 0 < sint (Replicas (clSpec cl))" t4, OF same(2)]
    by (simp add: bindR_eq ctxR_eq)
  with r show ?thesis by simp
qed

lemma reconcile_syncs:
  assumes ok: "reg_ok s" and got: "k_get_cluster K ns name (world s) = (Inr cl, w)"
    and fin: "finalizer \<in> set (clFinalizers cl)" "clDeletionTimestamp cl = None"
    and clean: "clean_lists (db w)" "\<forall>a \<in> set (cfgAdLists cfg). CHR '' '' \<notin> set a"
    and sy: "Sync (clSpec cl) = Some sy" "Config (clSpec cl) = Some cfg"
    and pw: "apSecretRef (cfgAPIPassword cfg) = None \<and> apPassword (cfgAPIPassword cfg) \<noteq> [] \<or> password_ready objs cl w"
    and dep: "deployable K cl" "0 < sint (Replicas (clSpec cl))"
    and ready: "rw_ready K cl" "ro_ready K cl" "pods_serve K cl"
    and st: "accepts_status J K N cl" "J w"
  shows "\<exists>s'. Reconcile K N ctx ns name s = (Ok 0, s')"
proof -
  have "before db cl (fetched cl w s)"
    using ok clean(1) by (simp add: before_def about_def fetched_def same_refl reg_ok_def)
  from ensureResources_syncs [OF this _ _ dep ready sy clean(2)] pw obtain s1 where
    "ensureResources K N ctx (fetched cl w s) = (Ok (), s1)" by auto
  from reconcile_after [OF got fin this st] show ?thesis .
qed

end

section \<open>The reference world\<close>

definition estate_db :: "estate \<Rightarrow> string \<Rightarrow> (string \<rightharpoonup> string option)" where
  "estate_db e = farm_db (esFarm e)"

lemma farm_clean:
  assumes "farm_do r w = (p, w')" "clean_lists (farm_db w)"
  shows "clean_lists (farm_db w')"
proof -
  have put: "clean_lists (farm_db (mput b (mput a c (farm_lists w b)) w))" if "CHR '' '' \<notin> set a" for a b c
    using assms(2) that by (auto simp: clean_lists_def farm_db_def split: if_splits)
  have del: "clean_lists (farm_db (mput b (mdel a (farm_lists w b)) w))" for a b
    using assms(2) by (auto simp: clean_lists_def farm_db_def split: if_splits)
  show ?thesis
    using assms put del
    by (auto simp: farm_do_def Let_def split: if_splits body.splits json.splits list.splits option.splits prod.splits)
qed

lemma on_farm_run: "on_farm g e = (x, e') \<longleftrightarrow> (\<exists>w. g (esFarm e) = (x, w) \<and> e' = e\<lparr>esFarm := w\<rparr>)"
  by (auto simp: on_farm_def split: prod.splits)

lemma farm_calls:
  "http_do estate_net t k r = on_farm (http_do farm_net t k r)" "time_now estate_net = on_farm (time_now farm_net)"
  "wait estate_net x d = on_farm (wait farm_net x d)" "dec_auth estate_net = dec_auth farm_net"
  "dec_lists estate_net = dec_lists farm_net" "url_err estate_net u = None"
  by (simp_all add: estate_net_def farm_net_def)

lemma estate_pihole: "pihole_env estate_net estate_db (estate_kube pods)"
proof (rule pihole_env.intro)
  note F = farm.pihole_env_axioms [of "[]" "[]" zero_cluster, unfolded pihole_env_def, THEN conjunct1]
  note D = estate_db_def farm_calls on_farm_run
  show "pihole_server estate_net estate_db"
  proof (rule pihole_server.intro)
    fix r b a seg and w w' :: estate and resp ls t k y and tm :: int and x :: ctx and d :: duration and e
    show "time_now estate_net w = (tm, w') \<Longrightarrow> estate_db w' = estate_db w"
      by (auto simp: D dest: pihole_server.time_db [OF F])
    show "wait estate_net x d w = (e, w') \<Longrightarrow> estate_db w' = estate_db w"
      by (auto simp: D dest: pihole_server.wait_db [OF F])
    show "estate_db w' = estate_db w"
      if "rqMethod r = ''POST''" "rqURL r = b @ ''/api/auth''" "http_do estate_net t k r w = (y, w')"
      using that pihole_server.auth_db [OF F that(1,2)] by (auto simp: D)
    show "estate_db w' = estate_db w"
      if "rqMethod r = ''POST''" "rqURL r = b @ ''/api/action/gravity''" "http_do estate_net t k r w = (y, w')"
      using that pihole_server.gravity_db [OF F that(1,2)] by (auto simp: D)
    show "estate_db w' = estate_db w \<and> (\<lambda>l. (adAddress l, adComment l)) ` set ls = Map.graph (estate_db w b)"
      if "rqMethod r = ''GET''" "rqURL r = b @ ''/api/lists''" "http_do estate_net t k r w = (Inr resp, w')"
        "rspStatus resp = 200" "dec_lists estate_net (rspBody resp) (rspReadErr resp) = Inr ls"
    proof -
      from that(3) obtain v where v: "http_do farm_net t k r (esFarm w) = (Inr resp, v)" "w' = w\<lparr>esFarm := v\<rparr>" by (auto simp: D)
      from pihole_server.lists_db [OF F that(1,2) v(1) that(4) that(5) [unfolded farm_calls]] v(2) show ?thesis by (simp add: D)
    qed
    show "estate_db w' = (estate_db w)(b := (estate_db w b)(a \<mapsto> Some operator_comment))"
      if "rqMethod r = ''POST''" "rqURL r = b @ ''/api/lists''" "rqBody r = JsonBody (adlist_payload a)" "estate_db w b a = None"
        "http_do estate_net t k r w = (Inr resp, w')" "rspStatus resp = 200 \<or> rspStatus resp = 201"
      using that(4-6) pihole_server.create_db [OF F that(1-3)] by (auto simp: D)
    show "estate_db w' = (estate_db w)(b := (estate_db w b)(a := None))"
      if "rqMethod r = ''DELETE''" "rqURL r = b @ ''/api/lists/'' @ seg @ ''?type=block''"
        "CHR ''/'' \<notin> set seg" "PathUnescape seg = Some a"
        "http_do estate_net t k r w = (Inr resp, w')" "rspStatus resp = 200 \<or> rspStatus resp = 204"
      using that(5,6) pihole_server.delete_db [OF F that(1-4)] by (auto simp: D)
  qed
  show "pihole_env_axioms estate_db (estate_kube pods)"
    by (rule pihole_env_axioms.intro) (simp_all add: ranges_all_def estate_calls)
qed

lemma estate_apart: "writes_keep (\<lambda>w. P (estate_db w)) (\<lambda>_. True) (estate_kube pods)"
proof -
  let ?J = "\<lambda>w. P (estate_db w)" and ?K = "estate_kube pods"
  have objs: "estate_db (snd (on_objs g e)) = estate_db e" for g e
    by (simp add: on_objs_def estate_db_def split: prod.split)
  have res: "estate_db (e\<lparr>esResource := r\<rparr>) = estate_db e" for e r by (simp add: estate_db_def)
  have calls: "kept_world ?J (k_get ?K kd ns n)" "kept_world ?J (k_create ?K y)" "kept_world ?J (k_update ?K y)"
    "kept_world ?J (k_list_pods ?K ns ls)" "kept_world ?J (map_order ?K ks)" "kept_world ?J (set_status_condition ?K x cs)"
    "kept_world ?J (k_status_update ?K c)"
    for kd ns n y ls ks x cs c
    by (auto simp: kept_world_def estate_calls objs estate_status_def res split: option.splits)
  have "retrier (retry_on_conflict ?K) (calm estate_db)" by (simp add: estate_calls conflict.retrier_axioms)
  moreover have "kept_by (WC ?J (\<lambda>_. True)) (calm estate_db)" by (auto simp: kept_by_def WC_def calm_def)
  ultimately show ?thesis
    unfolding writes_keep_def reads_keep_def using calls by (auto simp: status_free_def kept_world_def)
qed

lemma estate_clean: "net_keeps (\<lambda>w. clean_lists (estate_db w)) estate_net"
proof -
  have "clean_lists (estate_db e)" if "farm_do r (esFarm e0) = (p, w)" "clean_lists (estate_db e0)" "e = e0\<lparr>esFarm := w\<rparr>"
    for r e0 p w and e :: estate
    using farm_clean [OF that(1)] that(2,3) by (simp add: estate_db_def)
  then show ?thesis
    by (auto simp: net_keeps_def kept_world_def estate_net_def farm_net_def on_farm_def split: prod.splits)
qed

interpretation estate_served: served_world "estate_kube pods" estate_objs grown estate_net estate_db for pods
  by (intro served_world.intro estate.operator_world_axioms estate_pihole served_world_axioms.intro estate_apart estate_clean)

lemma farm_replies:
  assumes "\<And>w. P (fst (farm_do r w))"
  shows "replies estate_net r P"
  unfolding replies_def
proof (intro allI)
  fix t k and w :: estate
  obtain p w' where "farm_do r (esFarm w) = (p, w')" by (meson surj_pair)
  with assms [of "esFarm w"] show "\<exists>resp w'. http_do estate_net t k r w = (Inr resp, w') \<and> P resp"
    by (simp add: farm_calls on_farm_def farm_net_def)
qed

lemma estate_responsive: "responsive_net estate_net"
proof (rule responsive_net.intro)
  fix r a b u
  note D = farm_do_def Let_def answer_def whole_def
  show "url_err estate_net u = None" by (simp add: farm_calls)
  show "replies estate_net r (\<lambda>p. whole p \<and> (\<exists>a. dec_auth estate_net (take MaxResponseSize (rspBody p)) = Inr a \<and> auValid a))"
    if "rqMethod r = ''POST''" "rqURL r = b @ ''/api/auth''"
    by (rule farm_replies) (use that in \<open>simp add: D farm_calls farm_net_def\<close>)
  show "replies estate_net r (\<lambda>p. whole p \<and> (\<exists>ls. dec_lists estate_net (rspBody p) (rspReadErr p) = Inr ls))"
    if "rqMethod r = ''GET''" "rqURL r = b @ ''/api/lists''"
    by (rule farm_replies) (use that in \<open>simp add: D farm_calls farm_net_def dec_enc_lists [OF enc_lists_length]\<close>)
  show "replies estate_net r (\<lambda>p. rspStatus p = 201)"
    if "rqMethod r = ''POST''" "rqURL r = b @ ''/api/lists''" "rqBody r = JsonBody (adlist_payload a)" "CHR '' '' \<notin> set a"
    by (rule farm_replies) (use that in \<open>simp add: D adlist_payload_def\<close>)
  show "replies estate_net r (\<lambda>p. rspStatus p = 204)" if "rqMethod r = ''DELETE''" "rqURL r = delete_url b a"
  proof (rule farm_replies)
    have "CHR ''/'' \<notin> set (QueryEscape a)" using escape_chars [of "CHR ''/''" a] by (auto simp: unreserved_def Let_def)
    from farm_delete [OF that(1) that(2) [unfolded delete_url_def] this] show "rspStatus (fst (farm_do r w)) = 204" for w
      using unescape_QueryEscape by (simp add: PathUnescape_def answer_def)
  qed
  show "replies estate_net r whole" if "rqMethod r = ''POST''" "rqURL r = b @ ''/api/action/gravity''"
    by (rule farm_replies) (use that in \<open>simp add: D\<close>)
  have e: "\<not> ends (b @ ''/api/teleporter'') ''/api/lists''" by (simp add: ends_def HasPrefix_def)
  show "replies estate_net r whole" if "rqMethod r \<in> {''GET'', ''POST''}" "rqURL r = b @ ''/api/teleporter''"
    by (rule farm_replies) (use that e in \<open>auto simp: D\<close>)
qed

interpretation estate_responsive: responsive_world "estate_kube pods" estate_objs grown estate_net estate_db for pods
proof (intro responsive_world.intro estate_served.served_world_axioms estate_willing.willing_world_axioms estate_responsive
    responsive_world_axioms.intro)
  fix ns ls w k e d r
  show "\<exists>ps. fst (k_list_pods (estate_kube pods) ns ls w) = Inr ps" by (simp add: estate_calls)
  assume "estate_objs w k = Some (OStatefulSet e)" "grown (OStatefulSet d) (OStatefulSet e)" and r: "stsReplicas d = Some r"
  then have y: "sized (OStatefulSet e) = OStatefulSet e" and g: "stamp (sized (OStatefulSet d)) = stamp (sized (OStatefulSet e))"
    by (auto simp: estate_objs_def grown_def simp del: sized.simps) (metis sized_simps(1))
  from g r y have "stamp (OStatefulSet (d\<lparr>stsReplicas := Some r, stsReadyReplicas := r\<rparr>)) = stamp (OStatefulSet e)"
    by (simp add: Let_def)
  then show "stsReplicas e = Some r" by (cases d; cases e) (simp add: stamp_def)
qed

section \<open>The properties\<close>



section \<open>A run in the reference world\<close>

definition sync_site :: PiHoleCluster where
  "sync_site = live_site\<lparr>clSpec := (clSpec live_site)\<lparr>Replicas := 1, Sync := Some \<lparr>synConfig = True, synAdLists = True\<rparr>,
     Config := Some \<lparr>cfgAPIPassword = \<lparr>apPassword = ''pw'', apSecretRef = None\<rparr>, cfgEnvVars = [], cfgAdLists = [''b'']\<rparr>\<rparr>\<rparr>"

text \<open>One pod of each role, as the label asks for.\<close>

definition site_pods :: "smap \<Rightarrow> Pod list" where
  "site_pods ls = (let rw = pod_at ''pi-rw-0'' ''10.0.0.1''; ro = pod_at ''pi-ro-0'' ''10.0.0.2'' in
     case map_of ls ''supporterino.de/pihole-role'' of
       None \<Rightarrow> [rw, ro]
     | Some role \<Rightarrow> if role = ''readonly'' then [ro] else [rw])"

definition sync_world :: estate where
  "sync_world = \<lparr>esFarm = demo_farm, esCellar = [], esResource = Some sync_site\<rparr>"

definition sync_start :: "estate rs" where
  "sync_start = new_rs zero_cluster sync_world"

lemma sync_site_names: "clNamespace sync_site = ''dns''" "clName sync_site = ''pi''" "Replicas (clSpec sync_site) = 1"
  "finalizer \<in> set (clFinalizers sync_site)" "clDeletionTimestamp sync_site = None"
  "Sync (clSpec sync_site) = Some \<lparr>synConfig = True, synAdLists = True\<rparr>"
  "Config (clSpec sync_site) = Some \<lparr>cfgAPIPassword = \<lparr>apPassword = ''pw'', apSecretRef = None\<rparr>, cfgEnvVars = [], cfgAdLists = [''b'']\<rparr>"
  "deployable (estate_kube pods) sync_site"
  using live_given
  by (simp_all add: sync_site_def deployable_def parsable_def estate_calls pvc_params_def)

lemma pod_at_up: "podName (pod_at n i) = n" "i \<noteq> [] \<Longrightarrow> up (pod_at n i)" "IsPodReady (pod_at n i)"
  by (simp_all add: up_def pod_at_def IsPodReady_iff ready_condition_def)

lemma sync_site_pods:
  "rw_ready (estate_kube site_pods) sync_site" "ro_ready (estate_kube site_pods) sync_site"
  "pods_serve (estate_kube site_pods) sync_site" "behind (estate_kube site_pods) sync_site"
proof -
  have rw: "site_pods (sts_labels sync_site ''readwrite'') = [pod_at ''pi-rw-0'' ''10.0.0.1'']"
    and ro: "site_pods (sts_labels sync_site ''readonly'') = [pod_at ''pi-ro-0'' ''10.0.0.2'']"
      "site_pods (role_labels sync_site ''readonly'') = [pod_at ''pi-ro-0'' ''10.0.0.2'']"
    and all: "site_pods [(''app.kubernetes.io/name'', ''pihole'')] = [pod_at ''pi-rw-0'' ''10.0.0.1'', pod_at ''pi-ro-0'' ''10.0.0.2'']"
    by (simp_all add: site_pods_def sts_labels_def role_labels_def instance_labels_def Let_def)
  show "rw_ready (estate_kube site_pods) sync_site" by (simp add: rw_ready_def estate_calls rw pod_at_up)
  show "pods_serve (estate_kube site_pods) sync_site"
    by (simp add: pods_serve_def estate_calls all pod_at_up sync_site_names)
  show "behind (estate_kube site_pods) sync_site"
    by (simp add: behind_def estate_calls ro pod_map_def podsNeedingSync_def) (simp add: isPodSynced_def sync_site_def live_site_def site_def some_cluster_def zero_cluster_def zero_status_def)
  show "ro_ready (estate_kube site_pods) sync_site"
    unfolding ro_ready_def sync_site_names
  proof (intro allI impI)
    fix w d w'
    assume "k_get (estate_kube site_pods) StatefulSetKind ''dns'' (''pi'' @ ''-ro'') w = (Inr (OStatefulSet d), w')"
      and r: "stsReplicas d = Some 1"
    then obtain y where "OStatefulSet d = sized y" by (auto simp: estate_calls dest!: on_objs_Inr)
    then have "sized (OStatefulSet d) = OStatefulSet d" by simp
    with r have "stsReadyReplicas d = 1" by (cases d) (simp add: Let_def)
    then show "stsReadyReplicas d \<noteq> 0 \<and> (\<forall>v pods. fst (k_list_pods (estate_kube site_pods) ''dns'' (sts_labels sync_site ''readonly'') v) =
        Inr pods \<longrightarrow> pods \<noteq> [] \<and> int (length (filter IsPodReady pods)) = sint (1::int32))"
      by (simp add: estate_calls ro pod_at_up)
  qed
qed

lemma sync_begin: "reg_ok sync_start" "world sync_start = sync_world" "clean_lists (estate_db sync_world)"
  "k_get_cluster (estate_kube pods) ''dns'' ''pi'' (world sync_start) = (Inr sync_site, sync_world)"
proof -
  show "reg_ok sync_start" "world sync_start = sync_world" by (simp_all add: sync_start_def) (simp add: new_rs_def)
  then show "k_get_cluster (estate_kube pods) ''dns'' ''pi'' (world sync_start) = (Inr sync_site, sync_world)"
    by (simp add: estate_calls estate_fetch_def sync_world_def sync_site_names)
  show "clean_lists (estate_db sync_world)"
    by (auto simp: clean_lists_def sync_world_def estate_db_def farm_db_def farm_lists_def demo_farm_def split: if_splits)
qed

lemma sync_run: "\<exists>s'. Reconcile (estate_kube site_pods) estate_net Background ''dns'' ''pi'' sync_start = (Ok 0, s')"
  by (rule estate_responsive.reconcile_syncs [OF sync_begin(1,4) sync_site_names(4,5) sync_begin(3) _ sync_site_names(6,7) _
      sync_site_names(8) _ sync_site_pods(1-3) estate_accepts])
     (simp_all add: sync_site_names sync_world_def same_refl)



end
