(* ===== verification/Startup.thy ===== *)
theory Startup
  imports Operator
begin

text \<open>
  \<open>cmd/main.go\<close> and the two set-up functions it calls: the command line, the options of the servers, the
  order of the start-up and its exit codes, and the kinds the controller watches against the objects a
  reconciliation writes.
\<close>

section \<open>The command line\<close>

record flags =
  metricsAddr :: string
  metricsCertPath :: string
  metricsCertName :: string
  metricsCertKey :: string
  webhookCertPath :: string
  webhookCertName :: string
  webhookCertKey :: string
  enableLeaderElection :: bool
  probeAddr :: string
  secureMetrics :: bool
  enableHTTP2 :: bool

definition default_flags :: flags where
  "default_flags = \<lparr>metricsAddr = ''0'', metricsCertPath = [], metricsCertName = ''tls.crt'', metricsCertKey = ''tls.key'',
     webhookCertPath = [], webhookCertName = ''tls.crt'', webhookCertKey = ''tls.key'', enableLeaderElection = False,
     probeAddr = '':8081'', secureMetrics = True, enableHTTP2 = False\<rparr>"

datatype setter = StringVar "string \<Rightarrow> flags \<Rightarrow> flags" | BoolVar "bool \<Rightarrow> flags \<Rightarrow> flags"

definition registered :: "(string \<times> setter) list" where
  "registered =
     [(''metrics-bind-address'', StringVar (\<lambda>v f. f\<lparr>metricsAddr := v\<rparr>)),
      (''health-probe-bind-address'', StringVar (\<lambda>v f. f\<lparr>probeAddr := v\<rparr>)),
      (''leader-elect'', BoolVar (\<lambda>b f. f\<lparr>enableLeaderElection := b\<rparr>)),
      (''metrics-secure'', BoolVar (\<lambda>b f. f\<lparr>secureMetrics := b\<rparr>)),
      (''webhook-cert-path'', StringVar (\<lambda>v f. f\<lparr>webhookCertPath := v\<rparr>)),
      (''webhook-cert-name'', StringVar (\<lambda>v f. f\<lparr>webhookCertName := v\<rparr>)),
      (''webhook-cert-key'', StringVar (\<lambda>v f. f\<lparr>webhookCertKey := v\<rparr>)),
      (''metrics-cert-path'', StringVar (\<lambda>v f. f\<lparr>metricsCertPath := v\<rparr>)),
      (''metrics-cert-name'', StringVar (\<lambda>v f. f\<lparr>metricsCertName := v\<rparr>)),
      (''metrics-cert-key'', StringVar (\<lambda>v f. f\<lparr>metricsCertKey := v\<rparr>)),
      (''enable-http2'', BoolVar (\<lambda>b f. f\<lparr>enableHTTP2 := b\<rparr>))]"

text \<open>
  The package \<open>flag\<close> of the standard library. The flags that zap and controller-runtime register are a
  parameter: whether the flag is boolean, and the values it accepts.
\<close>

type_synonym foreign = "string \<Rightarrow> (bool \<times> (string \<Rightarrow> bool)) option"

datatype flag_error = ErrHelp | BadSyntax string | NotDefined string | InvalidValue string string | NeedsArgument string

definition ParseBool :: "string \<Rightarrow> bool option" where
  "ParseBool v =
     (if v \<in> {''1'', ''t'', ''T'', ''TRUE'', ''true'', ''True''} then Some True
      else if v \<in> {''0'', ''f'', ''F'', ''FALSE'', ''false'', ''False''} then Some False else None)"

definition IsBoolFlag :: "foreign \<Rightarrow> string \<Rightarrow> bool option" where
  "IsBoolFlag E n = (case map_of registered n of
      Some (BoolVar _) \<Rightarrow> Some True
    | Some (StringVar _) \<Rightarrow> Some False
    | None \<Rightarrow> map_option fst (E n))"

definition set_flag :: "foreign \<Rightarrow> string \<Rightarrow> string \<Rightarrow> flags \<Rightarrow> flag_error + flags" where
  "set_flag E n v f = (case map_of registered n of
      Some (BoolVar u) \<Rightarrow> (case ParseBool v of None \<Rightarrow> Inl (InvalidValue n v) | Some b \<Rightarrow> Inr (u b f))
    | Some (StringVar u) \<Rightarrow> Inr (u v f)
    | None \<Rightarrow> (case E n of
          Some (_, ok) \<Rightarrow> if ok v then Inr f else Inl (InvalidValue n v)
        | None \<Rightarrow> Inl (NotDefined n)))"

text \<open>One or two hyphens, a name, and perhaps a value after the first equals sign.\<close>

definition flag_text :: "string \<Rightarrow> string" where
  "flag_text s = List.drop (if take 2 s = ''--'' then 2 else 1) s"

definition flag_name :: "string \<Rightarrow> string" where
  "flag_name s = takeWhile (\<lambda>c. c \<noteq> CHR ''='') (flag_text s)"

definition flag_value :: "string \<Rightarrow> string option" where
  "flag_value s = (case dropWhile (\<lambda>c. c \<noteq> CHR ''='') (flag_text s) of [] \<Rightarrow> None | _ # v \<Rightarrow> Some v)"

fun parse_flags :: "foreign \<Rightarrow> string list \<Rightarrow> flags \<Rightarrow> flag_error + flags" where
  "parse_flags E [] f = Inr f"
| "parse_flags E (s # args) f =
     (if length s < 2 \<or> hd s \<noteq> CHR ''-'' then Inr f
      else if s = ''--'' then Inr f
      else if flag_text s = [] \<or> hd (flag_text s) \<in> {CHR ''-'', CHR ''=''} then Inl (BadSyntax s)
      else let n = flag_name s in
        (case IsBoolFlag E n of
           None \<Rightarrow> Inl (if n \<in> {''help'', ''h''} then ErrHelp else NotDefined n)
         | Some True \<Rightarrow>
             (case set_flag E n (case flag_value s of None \<Rightarrow> ''true'' | Some v \<Rightarrow> v) f of
                Inl e \<Rightarrow> Inl e
              | Inr f' \<Rightarrow> parse_flags E args f')
         | Some False \<Rightarrow>
             (case flag_value s of
                Some v \<Rightarrow> (case set_flag E n v f of Inl e \<Rightarrow> Inl e | Inr f' \<Rightarrow> parse_flags E args f')
              | None \<Rightarrow> (case args of
                    [] \<Rightarrow> Inl (NeedsArgument n)
                  | v # rest \<Rightarrow> (case set_flag E n v f of Inl e \<Rightarrow> Inl e | Inr f' \<Rightarrow> parse_flags E rest f')))))"

section \<open>The options of the servers\<close>

text \<open>Of a TLS configuration only the protocols matter here; the other fields are \<open>tlsRest\<close>.\<close>

record tls_config =
  NextProtos :: "string list"
  tlsRest :: string

definition disableHTTP2 :: "tls_config \<Rightarrow> tls_config" where
  "disableHTTP2 c = c\<lparr>NextProtos := [''http/1.1'']\<rparr>"

definition tlsOpts :: "flags \<Rightarrow> (tls_config \<Rightarrow> tls_config) list" where
  "tlsOpts f = [] @ (if \<not> enableHTTP2 f then [disableHTTP2] else [])"

record webhook_options =
  woTLSOpts :: "(tls_config \<Rightarrow> tls_config) list"
  woCertDir :: string
  woCertName :: string
  woKeyName :: string

definition webhookServerOptions :: "flags \<Rightarrow> webhook_options" where
  "webhookServerOptions f =
     (let opts = \<lparr>woTLSOpts = tlsOpts f, woCertDir = [], woCertName = [], woKeyName = []\<rparr> in
      if 0 < length (webhookCertPath f)
      then opts\<lparr>woCertDir := webhookCertPath f, woCertName := webhookCertName f, woKeyName := webhookCertKey f\<rparr>
      else opts)"

record metrics_options =
  moBindAddress :: string
  moSecureServing :: bool
  moTLSOpts :: "(tls_config \<Rightarrow> tls_config) list"
  moFilterProvider :: "string option"
  moCertDir :: string
  moCertName :: string
  moKeyName :: string

definition metricsServerOptions :: "flags \<Rightarrow> metrics_options" where
  "metricsServerOptions f =
     (let opts = \<lparr>moBindAddress = metricsAddr f, moSecureServing = secureMetrics f, moTLSOpts = tlsOpts f,
            moFilterProvider = None, moCertDir = [], moCertName = [], moKeyName = []\<rparr>;
          opts = (if secureMetrics f then opts\<lparr>moFilterProvider := Some ''WithAuthenticationAndAuthorization''\<rparr> else opts) in
      if 0 < length (metricsCertPath f)
      then opts\<lparr>moCertDir := metricsCertPath f, moCertName := metricsCertName f, moKeyName := metricsCertKey f\<rparr>
      else opts)"

record manager_options =
  mgMetrics :: metrics_options
  mgWebhookServer :: webhook_options
  mgHealthProbeBindAddress :: string
  mgLeaderElection :: bool
  mgLeaderElectionID :: string

definition managerOptions :: "flags \<Rightarrow> manager_options" where
  "managerOptions f = \<lparr>mgMetrics = metricsServerOptions f, mgWebhookServer = webhookServerOptions f,
     mgHealthProbeBindAddress = probeAddr f, mgLeaderElection = enableLeaderElection f,
     mgLeaderElectionID = ''pihole-operator.supporterino.de''\<rparr>"

section \<open>The start-up\<close>

text \<open>The kinds of objects, enumerated.\<close>

instantiation kind :: enum
begin

definition enum_kind :: "kind list" where
  "enum_kind = [SecretKind, ConfigMapKind, PVCKind, StatefulSetKind, ServiceKind, IngressKind, PodMonitorKind]"

definition enum_all_kind :: "(kind \<Rightarrow> bool) \<Rightarrow> bool" where
  "enum_all_kind P = list_all P enum_class.enum"

definition enum_ex_kind :: "(kind \<Rightarrow> bool) \<Rightarrow> bool" where
  "enum_ex_kind P = list_ex P enum_class.enum"

instance
proof
  show univ: "(UNIV :: kind set) = set enum_class.enum"
  proof (rule UNIV_eq_I)
    fix k :: kind
    show "k \<in> set enum_class.enum" by (cases k) (simp_all add: enum_kind_def)
  qed
  show "distinct (enum_class.enum :: kind list)" by (simp add: enum_kind_def)
  show "enum_class.enum_all P = Ball UNIV P" "enum_class.enum_ex P = Bex UNIV P" for P :: "kind \<Rightarrow> bool"
    by (simp_all add: enum_all_kind_def enum_ex_kind_def univ list_all_iff list_ex_iff)
qed

end

record controller_config =
  ccFor :: string
  ccNamed :: string
  ccOwns :: "kind list"

definition SetupWithManager :: controller_config where
  "SetupWithManager = \<lparr>ccFor = ''PiHoleCluster'', ccNamed = ''piholecluster'',
     ccOwns = [StatefulSetKind, ServiceKind, IngressKind, SecretKind, ConfigMapKind, PVCKind]\<rparr>"

record webhook_config =
  wcFor :: string
  wcValidator :: string
  wcDefaulter :: string

definition SetupPiHoleClusterWebhookWithManager :: webhook_config where
  "SetupPiHoleClusterWebhookWithManager = \<lparr>wcFor = ''PiHoleCluster'', wcValidator = ''PiHoleClusterCustomValidator'',
     wcDefaulter = ''PiHoleClusterCustomDefaulter''\<rparr>"

text \<open>The types of the resource in the scheme of the API machinery (\<open>api/v1\<close>).\<close>

record scheme_builder =
  sbGroup :: string
  sbVersion :: string
  sbTypes :: "string list"

definition SchemeBuilder :: scheme_builder where
  "SchemeBuilder = \<lparr>sbGroup = ''supporterino.de'', sbVersion = ''v1'', sbTypes = [''PiHoleCluster'', ''PiHoleClusterList'']\<rparr>"

text \<open>The calls into client-go and controller-runtime, each with what it is given.\<close>

datatype step = AddClientGoToScheme | AddToScheme scheme_builder | GetConfigOrDie | NewManager manager_options | CompleteController controller_config
  | CompleteWebhook webhook_config | AddHealthzCheck string | AddReadyzCheck string | Start

record 'w boot =
  perform :: "step \<Rightarrow> 'w \<Rightarrow> gerror option \<times> 'w"
  Getenv :: "string \<Rightarrow> string"
  foreign_flags :: foreign

definition orExit :: "'w boot \<Rightarrow> step \<Rightarrow> ('w \<Rightarrow> int \<times> 'w) \<Rightarrow> 'w \<Rightarrow> int \<times> 'w" where
  "orExit B st k w = (case perform B st w of (Some e, w') \<Rightarrow> (1, w') | (None, w') \<Rightarrow> k w')"

text \<open>The result is the exit code of the process, 0 when \<open>main\<close> returns.\<close>

definition main :: "'w boot \<Rightarrow> string list \<Rightarrow> 'w \<Rightarrow> int \<times> 'w" where
  "main B args w = (case parse_flags (foreign_flags B) args default_flags of
      Inl ErrHelp \<Rightarrow> (0, w)
    | Inl e \<Rightarrow> (2, w)
    | Inr f \<Rightarrow>
        orExit B GetConfigOrDie (
        orExit B (NewManager (managerOptions f)) (
        orExit B (CompleteController SetupWithManager) (
        (if Getenv B ''ENABLE_WEBHOOKS'' \<noteq> ''false''
         then orExit B (CompleteWebhook SetupPiHoleClusterWebhookWithManager) else (\<lambda>k. k)) (
        orExit B (AddHealthzCheck ''healthz'') (
        orExit B (AddReadyzCheck ''readyz'') (
        orExit B Start (
        \<lambda>w. (0, w)))))))) w)"

text \<open>\<open>init\<close> runs before \<open>main\<close>; \<open>utilruntime.Must\<close> panics, which ends a Go process with the code 2.\<close>

definition Must :: "'w boot \<Rightarrow> step \<Rightarrow> ('w \<Rightarrow> int \<times> 'w) \<Rightarrow> 'w \<Rightarrow> int \<times> 'w" where
  "Must B st k w = (case perform B st w of (Some e, w') \<Rightarrow> (2, w') | (None, w') \<Rightarrow> k w')"

definition init :: "'w boot \<Rightarrow> ('w \<Rightarrow> int \<times> 'w) \<Rightarrow> 'w \<Rightarrow> int \<times> 'w" where
  "init B k = Must B AddClientGoToScheme (Must B (AddToScheme SchemeBuilder) k)"

definition process :: "'w boot \<Rightarrow> string list \<Rightarrow> 'w \<Rightarrow> int \<times> 'w" where
  "process B args = init B (main B args)"

section \<open>The order of the start-up\<close>

text \<open>The specification: the steps one after the other, until one fails.\<close>

definition init_steps :: "step list" where
  "init_steps = [AddClientGoToScheme, AddToScheme SchemeBuilder]"

definition boot_steps :: "'w boot \<Rightarrow> flags \<Rightarrow> step list" where
  "boot_steps B f = [GetConfigOrDie, NewManager (managerOptions f), CompleteController SetupWithManager] @
     (if Getenv B ''ENABLE_WEBHOOKS'' = ''false'' then [] else [CompleteWebhook SetupPiHoleClusterWebhookWithManager]) @
     [AddHealthzCheck ''healthz'', AddReadyzCheck ''readyz'', Start]"

definition exit_code :: "step \<Rightarrow> int" where
  "exit_code st = (if st \<in> set init_steps then 2 else 1)"

text \<open>\<open>boots B d sts w c w'\<close>: the steps end in \<open>w'\<close> with the exit code \<open>c\<close>, which is \<open>d\<close> if all of them succeed.\<close>

inductive boots :: "'w boot \<Rightarrow> int \<Rightarrow> step list \<Rightarrow> 'w \<Rightarrow> int \<Rightarrow> 'w \<Rightarrow> bool" for B d where
  up: "boots B d [] w d w"
| failed: "perform B st w = (Some e, w') \<Longrightarrow> boots B d (st # sts) w (exit_code st) w'"
| onward: "perform B st w = (None, v) \<Longrightarrow> boots B d sts v c w' \<Longrightarrow> boots B d (st # sts) w c w'"

inductive_simps boots_done: "boots B d [] w c w'"
inductive_simps boots_step: "boots B d (st # sts) w c w'"

lemma chain_boots:
  "set sts \<inter> set init_steps = {} \<Longrightarrow> foldr (orExit B) sts (\<lambda>w. (0, w)) w = (c, w') \<longleftrightarrow> boots B 0 sts w c w'"
proof (induction sts arbitrary: w)
  case Nil
  then show ?case by (auto simp: boots_done)
next
  case (Cons st sts)
  then show ?case by (auto simp: orExit_def boots_step exit_code_def split: prod.splits option.splits)
qed

lemma init_boots:
  assumes "\<And>w. main B args w = (c, w') \<longleftrightarrow> boots B d sts w c w'"
  shows "process B args w = (c, w') \<longleftrightarrow> boots B d (init_steps @ sts) w c w'"
  by (auto simp: process_def init_def Must_def init_steps_def boots_step assms split: prod.splits option.splits)
     (simp_all add: exit_code_def init_steps_def)

lemma boots_code: "boots B d sts w c w' \<Longrightarrow> c \<in> {d, 1, 2}"
  by (induction rule: boots.induct) (auto simp: exit_code_def)

text \<open>C37: the process refines the list of its steps. The types are registered first, and a failure there ends it
  with the exit code 2. A command line that does not parse then ends it before anything else is done,
  with the exit code 2, or 0 when help was asked for. Otherwise the calls are made in a fixed order, the
  manager is started last and only when every call before it succeeded, and the first failure ends the
  process with the exit code 1. The webhook is left out exactly when \<open>ENABLE_WEBHOOKS\<close> is \<open>false\<close>.\<close>

theorem start_up_stops_at_the_first_failure:
  "(process B args w = (c, w') \<longleftrightarrow>
     (case parse_flags (foreign_flags B) args default_flags of
        Inl e \<Rightarrow> boots B (if e = ErrHelp then 0 else 2) init_steps w c w'
      | Inr f \<Rightarrow> boots B 0 (init_steps @ boot_steps B f) w c w')) \<and>
   fst (process B args w) \<in> {0, 1, 2}"
proof -
  have run: "process B args w = (c, w') \<longleftrightarrow>
     (case parse_flags (foreign_flags B) args default_flags of
        Inl e \<Rightarrow> boots B (if e = ErrHelp then 0 else 2) init_steps w c w'
      | Inr f \<Rightarrow> boots B 0 (init_steps @ boot_steps B f) w c w')" for c w'
  proof (cases "parse_flags (foreign_flags B) args default_flags")
    case (Inl e)
    have "main B args v = (c, w') \<longleftrightarrow> boots B (if e = ErrHelp then 0 else 2) [] v c w'" for v
      using Inl by (cases e) (auto simp: main_def boots_done)
    from init_boots [OF this] Inl show ?thesis by simp
  next
    case (Inr f)
    have "main B args v = foldr (orExit B) (boot_steps B f) (\<lambda>w. (0, w)) v" for v
      by (simp add: main_def Inr boot_steps_def)
    moreover have "set (boot_steps B f) \<inter> set init_steps = {}" by (auto simp: boot_steps_def init_steps_def)
    ultimately have "main B args v = (c, w') \<longleftrightarrow> boots B 0 (boot_steps B f) v c w'" for v
      by (simp add: chain_boots)
    from init_boots [OF this] Inr show ?thesis by simp
  qed
  obtain d v where "process B args w = (d, v)" by (meson surj_pair)
  then have "fst (process B args w) \<in> {0, 1, 2}"
    using run [of d v] boots_code by (fastforce split: sum.splits if_splits)
  with run show ?thesis by blast
qed

section \<open>The servers\<close>

text \<open>What a list of TLS options makes of a configuration.\<close>

definition configured :: "(tls_config \<Rightarrow> tls_config) list \<Rightarrow> tls_config \<Rightarrow> tls_config" where
  "configured opts c = foldl (\<lambda>c f. f c) c opts"

lemma set_flag_http2:
  assumes "set_flag E n v f = Inr f'" "n \<noteq> ''enable-http2''"
  shows "enableHTTP2 f' = enableHTTP2 f"
  using assms by (auto simp: set_flag_def registered_def split: if_splits option.splits prod.splits)

lemma parse_flags_step:
  assumes "parse_flags E (s # args) f = Inr f'"
  shows "f' = f \<or> (\<exists>v g rest. set_flag E (flag_name s) v f = Inr g \<and> parse_flags E rest g = Inr f' \<and>
    set rest \<subseteq> set args \<and> length rest \<le> length args)"
proof -
  show ?thesis
  proof (rule ccontr)
    assume no: "\<not> ?thesis"
    have never: "(case set_flag E (flag_name s) v f of Inl e \<Rightarrow> Inl e | Inr g \<Rightarrow> parse_flags E rest g) \<noteq> Inr f'"
      if "set rest \<subseteq> set args" "length rest \<le> length args" for v rest
      using no that by (auto split: sum.splits)
    have tail: "(case args of [] \<Rightarrow> Inl e | v # rest \<Rightarrow> (case set_flag E (flag_name s) v f of Inl e \<Rightarrow> Inl e | Inr g \<Rightarrow>
        parse_flags E rest g)) \<noteq> Inr f'" for e
    proof (cases args)
      case (Cons a r)
      with never [of r a] show ?thesis by (simp add: subset_insertI)
    qed simp
    from no assms never [of args] tail show False
      by (simp add: Let_def split: if_splits option.splits bool.splits)
  qed
qed

lemma parse_flags_http2:
  assumes "parse_flags E args f = Inr f'" "\<forall>a \<in> set args. flag_name a \<noteq> ''enable-http2''"
  shows "enableHTTP2 f' = enableHTTP2 f"
  using assms
proof (induction "length args" arbitrary: args f rule: less_induct)
  case less
  show ?case
  proof (cases args)
    case (Cons s rest)
    with less.prems have "parse_flags E (s # rest) f = Inr f'" and n: "flag_name s \<noteq> ''enable-http2''" by simp_all
    from parse_flags_step [OF this(1)] show ?thesis
    proof (elim disjE exE conjE)
      fix v g r
      assume g: "set_flag E (flag_name s) v f = Inr g" and r: "parse_flags E r g = Inr f'" "set r \<subseteq> set rest" "length r \<le> length rest"
      have "enableHTTP2 f' = enableHTTP2 g" by (rule less.hyps [OF _ r(1)]) (use r Cons less.prems in auto)
      with set_flag_http2 [OF g n] show ?thesis by simp
    qed simp
  qed (use less.prems in simp)
qed

text \<open>C38: HTTP/2 is off for the webhook and for the metrics server unless the flag \<open>enable-http2\<close> is given: whatever
  the other arguments are, both servers are configured for \<open>http/1.1\<close> alone.\<close>

theorem http2_is_off_unless_asked_for:
  assumes "parse_flags E args default_flags = Inr f" "\<forall>a \<in> set args. flag_name a \<noteq> ''enable-http2''"
  shows "NextProtos (configured (woTLSOpts (mgWebhookServer (managerOptions f))) c) = [''http/1.1''] \<and>
    NextProtos (configured (moTLSOpts (mgMetrics (managerOptions f))) c) = [''http/1.1'']"
proof -
  have "\<not> enableHTTP2 f" using parse_flags_http2 [OF assms] by (simp add: default_flags_def)
  then show ?thesis
    by (simp add: managerOptions_def webhookServerOptions_def metricsServerOptions_def Let_def tlsOpts_def configured_def disableHTTP2_def)
qed

theorem http2_is_off_unless_asked_for_witness:
  "\<exists>f. parse_flags (\<lambda>_. None) [''--metrics-bind-address=:8443'', ''-leader-elect'', ''--webhook-cert-path'', ''/certs''] default_flags = Inr f \<and>
    webhookCertPath f = ''/certs'' \<and>
    NextProtos (configured (woTLSOpts (mgWebhookServer (managerOptions f))) \<lparr>NextProtos = [''h2''], tlsRest = []\<rparr>) = [''http/1.1'']"
proof -
  let ?args = "[''--metrics-bind-address=:8443'', ''-leader-elect'', ''--webhook-cert-path'', ''/certs'']"
  have n: "\<forall>a \<in> set ?args. flag_name a \<noteq> ''enable-http2''" by code_simp
  have p: "parse_flags (\<lambda>_. None) ?args default_flags =
      Inr (default_flags\<lparr>metricsAddr := '':8443'', enableLeaderElection := True, webhookCertPath := ''/certs''\<rparr>)" by code_simp
  from http2_is_off_unless_asked_for [OF p n] p show ?thesis by simp
qed

section \<open>What a reconciliation writes\<close>

lemma same_owned: "same_resource c d \<Longrightarrow> owned_keys d = owned_keys c"
  by (simp add: owned_keys_def same_keys)

text \<open>All that was written since \<open>s\<close> belongs to the resource of \<open>s\<close>.\<close>

definition within :: "('w \<Rightarrow> (okey \<rightharpoonup> kobj)) \<Rightarrow> 'w rs \<Rightarrow> 'w rs \<Rightarrow> bool" where
  "within objs s t \<longleftrightarrow> stage objs (owned_keys (cluster s)) s t"

lemma within_keeps:
  assumes "\<And>t r u. m t = (r, u) \<Longrightarrow> stage objs (owned_keys (cluster t)) t u"
  shows "keeps (within objs s) m"
proof (rule keepsI)
  fix t r u
  assume w: "within objs s t" and "m t = (r, u)"
  from assms [OF this(2)] have st: "stage objs (owned_keys (cluster t)) t u" .
  have "owned_keys (cluster t) = owned_keys (cluster s)" using w by (intro same_owned) (simp add: within_def stage_def)
  with w st show "within objs s u" unfolding within_def by (metis stage_trans)
qed

lemma within_quiet: "(\<And>t r u. m t = (r, u) \<Longrightarrow> stage objs {} t u) \<Longrightarrow> keeps (within objs s) m"
proof (rule within_keeps)
  fix t r u
  assume "\<And>t r u. m t = (r, u) \<Longrightarrow> stage objs {} t u" "m t = (r, u)"
  then have "stage objs {} t u" by blast
  then show "stage objs (owned_keys (cluster t)) t u" by (rule stage_mono) simp
qed

context operator_world
begin

lemma operations_within:
  "keeps (within objs s) (ensureAPISecret K)" "keeps (within objs s) (ensurePiHolePVC K)"
  "keeps (within objs s) (ensureReadWriteSTS K)" "keeps (within objs s) (ensureReadOnlySTS K)"
  "keeps (within objs s) (ensureIngress K)" "keeps (within objs s) (ensurePodMonitor K)" "keeps (within objs s) (ensureDNSService K)"
proof -
  have one: "keeps (within objs s) m" if m: "m \<in> set (operations K)" for m
  proof (rule within_keeps)
    fix t r u
    assume "m t = (r, u)"
    with operation_writes m show "stage objs (owned_keys (cluster t)) t u"
      unfolding list_all_iff by (blast intro: writes_stage)
  qed
  have v: "keeps (within objs s) m" if "keeps (within objs s) (void m)" for m :: "('w rs, 'x) prog"
  proof (rule keepsI)
    fix t r u
    assume w: "within objs s t" and run: "m t = (r, u)"
    obtain q where "void m t = (q, u)" using run by (cases r) (simp_all add: void_def bindR_def ret_def)
    from keepsD [OF that w this] show "within objs s u" .
  qed
  show "keeps (within objs s) (ensureAPISecret K)" "keeps (within objs s) (ensurePiHolePVC K)"
    by (rule v, rule one, simp add: operations_def)+
  show "keeps (within objs s) (ensureReadWriteSTS K)" "keeps (within objs s) (ensureReadOnlySTS K)"
    "keeps (within objs s) (ensureIngress K)" "keeps (within objs s) (ensurePodMonitor K)" "keeps (within objs s) (ensureDNSService K)"
    by (rule one, simp add: operations_def)+
qed

lemma stages_within: "keeps (within objs s) (resourceStages K N ctx)"
proof -
  note q = within_quiet [where objs = objs and s = s]
  have Q: "keeps (within objs s) (areRWPodsReady K)" "keeps (within objs s) (areROPodsReady K)"
    "keeps (within objs s) (syncAPIClients K)" "keeps (within objs s) (performConfigSync K N ctx)"
    "keeps (within objs s) (resourcesReady K)" "keeps (within objs s) (updateStatus K b msg)" for b msg
    by (rule q, erule readiness_stage sync_stages resourcesReady_stage updateStatus_stage)+
  show ?thesis
    unfolding resourceStages_def ensureResources_def whenCluster_def replicaStage_def syncStage_def
    by (intro keeps_bindR keeps_ctxR keeps_whenR keeps_if keeps_basic operations_within Q returns_keeps [OF getCluster_returns])
qed

text \<open>Adding the finalizer and the deletion write no object.\<close>

lemma finalizer_quiet:
  "keeps (WC (\<lambda>w. objs w = f) (\<lambda>_. True)) (addFinalizer K)" "keeps (WC (\<lambda>w. objs w = f) (\<lambda>_. True)) (handleDelete K)"
proof -
  let ?I = "WC (\<lambda>w. objs w = f) (\<lambda>_. True) :: 'w rs \<Rightarrow> bool"
  have m: "keeps ?I (modCluster g)" for g unfolding modCluster_def by (rule keeps_modS) (simp add: WC_def)
  have u: "keeps ?I (updateCluster K)"
    unfolding updateCluster_def by (intro keeps_bindR own_state_keeps world_calls_keep update_quiet m)
  have "keeps ?I (closeAll K)"
    unfolding closeAll_def rangeClients_def
    by (intro keeps_bindR keeps_forR keeps_option keeps_basic own_state_keeps world_calls_keep order_quiet)
  moreover have "keeps ?I (modS (\<lambda>s. s\<lparr>ApiClients := []\<rparr>))" by (rule keeps_modS) (simp add: WC_def)
  ultimately show "keeps ?I (addFinalizer K)" "keeps ?I (handleDelete K)"
    unfolding addFinalizer_def handleDelete_def by (intro keeps_bindR keeps_ctxR keeps_basic m u)+
qed

lemma Reconcile_within:
  assumes "k_get_cluster K ns name (world s) = (Inr cl, w)" "Reconcile K N ctx ns name s = (r, s')" "k \<notin> owned_keys cl"
  shows "objs (world s') k = objs (world s) k"
proof -
  let ?t = "fetched cl w s"
  have w: "objs w = objs (world s)" using kept_world_step [OF fetch_quiet refl assms(1)] .
  note R = Reconcile_run(2) [OF assms(1), of N ctx, unfolded assms(2), symmetric]
  have q: "objs (world s') = objs (world s)" if "addFinalizer K ?t = (r, s') \<or> handleDelete K ?t = (r, s')"
  proof -
    have i: "WC (\<lambda>w. objs w = objs (world s)) (\<lambda>_. True) ?t" using w by (simp add: WC_def)
    from that keepsD [OF finalizer_quiet(1) i] keepsD [OF finalizer_quiet(2) i]
    have "WC (\<lambda>w. objs w = objs (world s)) (\<lambda>_. True) s'" by blast
    then show ?thesis by (simp add: WC_def)
  qed
  have "within objs ?t ?t" by (simp add: within_def stage_refl)
  then have "objs (world s') k = objs w k" if "resourceStages K N ctx ?t = (r, s')"
  proof -
    assume "within objs ?t ?t"
    from keepsD [OF stages_within this that] have "within objs ?t s'" .
    with assms(3) show ?thesis unfolding within_def stage_def fetched_simps by blast
  qed
  with R q w show ?thesis by (auto split: if_splits)
qed

end

text \<open>C15: whatever a reconciliation returns, the only objects it writes are those of the resource it was called for,
  and the controller is told of changes to each of them (it owns their kinds), except for the pod monitor,
  the one kind it does not own.\<close>

theorem reconcile_writes_only_what_is_watched:
  assumes "operator_world K objs like N" "k_get_cluster K ns name (world s) = (Inr cl, w)"
    and "Reconcile K N ctx ns name s = (r, s')"
  shows "objs (world s') k = objs (world s) k \<or>
    k \<in> owned_keys cl \<and> (fst k \<notin> set (ccOwns SetupWithManager) \<longleftrightarrow> k = monitor_key cl)"
proof (cases "k \<in> owned_keys cl")
  case True
  have "\<forall>kd. kd \<notin> set (ccOwns SetupWithManager) \<longleftrightarrow> kd = PodMonitorKind" by code_simp
  then have "fst k \<notin> set (ccOwns SetupWithManager) \<longleftrightarrow> fst k = PodMonitorKind" by blast
  moreover have "fst k = PodMonitorKind \<longleftrightarrow> k = monitor_key cl" using True by (auto simp: owned_keys_def keys)
  ultimately have "fst k \<notin> set (ccOwns SetupWithManager) \<longleftrightarrow> k = monitor_key cl" by blast
  with True show ?thesis by blast
qed (use operator_world.Reconcile_within [OF assms] in blast)

theorem reconcile_writes_only_what_is_watched_witness:
  "estate_objs (world (snd (Reconcile (estate_kube (\<lambda>_. [ready_pod])) estate_net Background ''dns'' ''pi'' (operator_at (Some live_site)))))
     (SecretKind, ''dns'', ''other'') = None"
proof -
  obtain r s' where
    run: "Reconcile (estate_kube (\<lambda>_. [ready_pod])) estate_net Background ''dns'' ''pi'' (operator_at (Some live_site)) = (r, s')"
    by (meson surj_pair)
  have "(SecretKind, ''dns'', ''other'') \<notin> owned_keys live_site"
    by (simp add: owned_keys_def keys live_given)
  moreover have "estate_objs (world (operator_at (Some live_site))) (SecretKind, ''dns'', ''other'') = None"
    by (simp add: estate_objs_def estate_of_def cellar_objs_def)
  ultimately show ?thesis
    using reconcile_writes_only_what_is_watched [OF estate.operator_world_axioms live_fetch [OF live_given(7,8)] run,
      of "(SecretKind, ''dns'', ''other'')"] run by simp
qed

end
