(* ===== verification/Admission.thy ===== *)
theory Admission
  imports Operator
begin

text \<open>
  The webhook and the reconciler together: what the two webhooks let through is never too much for the
  reconciler, and what they check holds for the objects it deploys.
\<close>

section \<open>From the webhook to the reconciler\<close>

text \<open>The API server stores what the mutating webhook returns, if the validating one accepts it.\<close>

definition let_in :: "PiHoleCluster \<Rightarrow> PiHoleCluster \<Rightarrow> bool" where
  "let_in c0 c \<longleftrightarrow> Default (ClusterObj c0) = Ok (ClusterObj c) \<and> ValidateCreate (ClusterObj c) = Ok ()"

lemma let_in_fit:
  assumes "let_in c0 c" "clSpec cl = clSpec c" "Config (clSpec c0) \<noteq> None" "parsable K cl"
  shows "fit K cl"
proof -
  from assms(1) have c: "c = c0\<lparr>clSpec := default_rov (default_sync (default_monitoring (default_ingress (clSpec c0))))\<rparr>"
    by (simp add: let_in_def Default_def)
  have "ReadOnlyVolume (clSpec c) \<noteq> None" "Config (clSpec c) = Config (clSpec c0)"
    unfolding c by (auto simp: default_defs split: option.splits)
  with assms(2-4) show ?thesis by (simp add: fit_def deployable_def)
qed

lemma let_in_admissible: "let_in c0 c \<Longrightarrow> validateIngress c = Ok () \<and> validateMonitoring c = Ok ()"
  by (auto simp: let_in_def ValidateCreate_def split: res.splits)

lemma admissible_monitor:
  assumes "validateMonitoring c = Ok ()" "clSpec cl = clSpec c" "podMonitorEnabled cl"
  shows "exporterEnabled cl"
  using assms by (auto simp: validateMonitoring_Ok podMonitorEnabled_def exporterEnabled_def split: option.splits)

text \<open>The stateful set with that ending deploys the exporter beside the Pi-hole container.\<close>

definition with_exporter :: "'w kube \<Rightarrow> ('w \<Rightarrow> (okey \<rightharpoonup> kobj)) \<Rightarrow> (kobj \<Rightarrow> kobj \<Rightarrow> bool) \<Rightarrow> PiHoleCluster \<Rightarrow> string \<Rightarrow> 'w rs \<Rightarrow> bool" where
  "with_exporter K objs like cl suf s \<longleftrightarrow> (\<exists>d. held K objs like (OStatefulSet d) s \<and> key_of (OStatefulSet d) = sts_key cl suf \<and>
     length (psContainers (stsPodSpec d)) = 2)"

lemma wired_exporter:
  assumes "same_resource cl c" "held K objs like (OStatefulSet d) s" "wired c (new_sts c (clName cl @ suf) role n) d"
    and "exporterEnabled cl"
  shows "with_exporter K objs like cl suf s"
proof -
  have "exporterEnabled c" using assms(1,4) by (simp add: same_resource_def)
  with assms(3) have "length (psContainers (stsPodSpec d)) = 2" by (simp add: wired_def main_core_def)
  with assms(1,2) wired_key [OF assms(3)] show ?thesis
    by (auto simp: with_exporter_def same_resource_def sts_key_def)
qed

lemma deployed_exporter:
  assumes "deployed K objs like cl s" "exporterEnabled cl"
  shows "with_exporter K objs like cl ''-rw'' s" "0 < sint (Replicas (clSpec cl)) \<Longrightarrow> with_exporter K objs like cl ''-ro'' s"
  using assms wired_exporter by (auto simp: deployed_def instance_held_def replicas_held_def)


section \<open>A run in the reference world\<close>

text \<open>A cluster with an ingress and a pod monitor, as a user sends it and as the server stores it.\<close>

definition sent_site :: PiHoleCluster where
  "sent_site = live_site\<lparr>clSpec := (clSpec live_site)\<lparr>Replicas := 0, Ingress := Some \<lparr>ingEnabled = True, ingDomain = ''pi.example.org''\<rparr>,
     Sync := Some \<lparr>synConfig = True, synAdLists = True\<rparr>,
     Monitoring := Some \<lparr>monExporter = Some (zero_exporter\<lparr>expEnabled := True\<rparr>), monPodMonitor = Some \<lparr>pmEnabled = True\<rparr>\<rparr>\<rparr>\<rparr>"

definition stored_site :: PiHoleCluster where
  "stored_site = sent_site\<lparr>clSpec := default_rov (default_sync (default_monitoring (default_ingress (clSpec sent_site))))\<rparr>"

lemma stored_site_facts:
  "Config (clSpec stored_site) = Config (clSpec live_site)" "Replicas (clSpec stored_site) = 0"
  "finalizer \<in> set (clFinalizers stored_site)" "clDeletionTimestamp stored_site = None"
  "clNamespace stored_site = ''dns''" "clName stored_site = ''pi''" "podMonitorEnabled stored_site"
  "Ingress (clSpec stored_site) = Some \<lparr>ingEnabled = True, ingDomain = ''pi.example.org''\<rparr>"
  "deployable (estate_kube pods) stored_site"
  using live_given
  by (auto simp: stored_site_def sent_site_def default_defs podMonitorEnabled_def deployable_def parsable_def estate_calls
      split: option.splits)

lemma stored_let_in: "let_in sent_site stored_site"
proof -
  have "fqdn_ok ''pi.example.org''" by code_simp
  moreover have "validateMonitoring stored_site = Ok ()"
    by (auto simp: validateMonitoring_Ok stored_site_def sent_site_def default_defs split: option.splits)
  ultimately have "ValidateCreate (ClusterObj stored_site) = Ok ()"
    using validateIngress_Ok [of stored_site] stored_site_facts(2,8) by (simp add: ValidateCreate_def)
  then show ?thesis by (simp add: let_in_def Default_def stored_site_def)
qed


end
