(* ===== verification/Clients.thy ===== *)
theory Clients
  imports Convergence
begin

text \<open>
  A client for life: once it is made, an API client keeps the address and the password it was made with,
  whatever the operator does with it.
\<close>

section \<open>The operations of a client\<close>

lemma same_client_calls:
  "keeps (\<lambda>s. identity (fst s) = k) (newRequest N ctx meth url b)" "keeps (\<lambda>s. identity (fst s) = k) (Do N req)"
  "keeps (\<lambda>s. identity (fst s) = k) (now N)" "keeps (\<lambda>s. identity (fst s) = k) client"
  "keeps (\<lambda>s. identity (fst s) = k) (pureR x)"
  "keeps (\<lambda>s. identity (fst s) = k) (askR (\<lambda>(c, w). case boundary N w of (b, w') \<Rightarrow> (b, (c, w'))))"
proof -
  show "keeps (\<lambda>s. identity (fst s) = k) (newRequest N ctx meth url b)" "keeps (\<lambda>s. identity (fst s) = k) (pureR x)"
    unfolding newRequest_def pureR_def by (auto intro!: keeps_intros split: option.splits sum.splits)
  show "keeps (\<lambda>s. identity (fst s) = k) (Do N req)" "keeps (\<lambda>s. identity (fst s) = k) (now N)"
    "keeps (\<lambda>s. identity (fst s) = k) client"
    "keeps (\<lambda>s. identity (fst s) = k) (askR (\<lambda>(c, w). case boundary N w of (b, w') \<Rightarrow> (b, (c, w'))))"
    unfolding Do_def now_def client_def by (auto intro!: keeps_callR keeps_askR split: prod.splits)
qed

lemma same_client_session:
  "(\<And>c. identity (f c) = identity c) \<Longrightarrow> keeps (\<lambda>s. identity (fst s) = k) (modC f)"
  unfolding modC_def by (auto intro!: keeps_modS)

lemma same_client_locked:
  assumes "keeps (\<lambda>s. identity (fst s) = k) m"
  shows "keeps (\<lambda>s. identity (fst s) = k) (locked m)"
proof (rule keepsI)
  fix s r s'
  assume I: "identity (fst s) = k" and run: "locked m s = (r, s')"
  obtain c w where s: "s = (c, w)" by (cases s)
  show "identity (fst s') = k"
  proof (cases "mu c")
    case False
    obtain q t where q: "m (c\<lparr>mu := True\<rparr>, w) = (q, t)" by (meson surj_pair)
    from keepsD [OF assms _ q] I s have "identity (fst t) = k" by (simp add: identity_def)
    with run s False q show ?thesis
      by (cases q; cases t) (auto simp: locked_def bindR_def Lock_def identity_def)
  qed (use run s I in \<open>auto simp: locked_def bindR_def Lock_def\<close>)
qed

lemma same_client_operations:
  "keeps (\<lambda>s. identity (fst s) = k) (DownloadTeleporter N ctx)" "keeps (\<lambda>s. identity (fst s) = k) (UploadTeleporter N ctx d)"
  "keeps (\<lambda>s. identity (fst s) = k) (GetAdLists N ctx)" "keeps (\<lambda>s. identity (fst s) = k) (PostAdList N ctx a)"
  "keeps (\<lambda>s. identity (fst s) = k) (DeleteAdList N ctx a)" "keeps (\<lambda>s. identity (fst s) = k) (RunGravity N ctx)"
proof -
  let ?I = "\<lambda>s. identity (fst s) = k"
  note calls = same_client_calls keeps_bindR keeps_ctxR keeps_if keeps_basic
  have retried: "keeps ?I (retryWithBackoff (sel N x) pihole_backoff f)" if "keeps ?I f" for x f
    by (rule backoff.run_keeps [OF that]) (auto simp: kept_by_def pause_of_def sel_def case_prod_beta)
  have "keeps ?I (doAuth N)"
    unfolding doAuth_def Let_def by (intro calls same_client_session) (simp_all add: identity_def)
  then have "keeps ?I (Authenticate N)" unfolding Authenticate_def by (intro same_client_locked retried)
  moreover have "keeps ?I Lock" "keeps ?I Unlock"
    unfolding Unlock_def modC_def
    by (auto intro!: keepsI simp: Lock_def identity_def modS_def split: prod.splits if_splits)
  ultimately have auth: "keeps ?I (ensureAuth N)" unfolding ensureAuth_def Let_def by (intro calls)
  show "keeps ?I (DownloadTeleporter N ctx)" "keeps ?I (GetAdLists N ctx)" "keeps ?I (PostAdList N ctx a)"
    "keeps ?I (DeleteAdList N ctx a)" "keeps ?I (RunGravity N ctx)"
    unfolding DownloadTeleporter_def GetAdLists_def PostAdList_def DeleteAdList_def RunGravity_def Let_def
    by (intro calls auth)+
  show "keeps ?I (UploadTeleporter N ctx d)"
    unfolding UploadTeleporter_def doUpload_def Let_def by (intro calls auth retried)
qed

section \<open>The clients of the operator\<close>

text \<open>The first \<open>n\<close> clients are the ones of \<open>f\<close>, with their addresses and passwords.\<close>

definition lifelong :: "nat \<Rightarrow> (nat \<Rightarrow> string \<times> duration \<times> bool \<times> string) \<Rightarrow> 'w rs \<Rightarrow> bool" where
  "lifelong n f s \<longleftrightarrow> n \<le> nextAddr s \<and> (\<forall>a < n. identity (heap s a) = f a)"

lemma lifelong_closed: "probe_closed (lifelong n f)"
  by (simp add: probe_closed_def outer_def lifelong_def)

lemma lifelong_client:
  assumes "\<And>k. keeps (\<lambda>s. identity (fst s) = k) m"
  shows "keeps (lifelong n f) (on_client p m)"
proof (cases p)
  case (Some b)
  show ?thesis
  proof (rule keepsI)
    fix s r s'
    assume I: "lifelong n f s" and run: "on_client p m s = (r, s')"
    obtain q c w where q: "m (heap s b, world s) = (q, (c, w))" by (metis prod.collapse)
    from keepsD [OF assms _ q] have "identity c = identity (heap s b)" by simp
    with run Some q I show "lifelong n f s'" by (auto simp: on_client_def lifelong_def)
  qed
qed (simp add: on_client_def keeps_basic)

text \<open>The stages, for a resource the operator can handle.\<close>

definition handling :: "PiHoleCluster \<Rightarrow> nat \<Rightarrow> (nat \<Rightarrow> string \<times> duration \<times> bool \<times> string) \<Rightarrow> 'w rs \<Rightarrow> bool" where
  "handling c n f s \<longleftrightarrow> run_inv c s \<and> lifelong n f s"

lemma handling_closed: "probe_closed (handling c n f)"
  using run_inv_closed [of c] lifelong_closed [of n f] by (auto simp: probe_closed_def outer_def handling_def)

lemma handling_keeps: "keeps (run_inv c) m \<Longrightarrow> keeps (lifelong n f) m \<Longrightarrow> keeps (handling c n f) m"
  unfolding handling_def by (rule keeps_conj)

lemma keeps_whenCluster:
  assumes "\<And>s r t. I s \<Longrightarrow> b (cluster s) \<Longrightarrow> m s = (r, t) \<Longrightarrow> I t"
  shows "keeps I (whenCluster b m)"
  using assms by (intro keepsI) (blast dest: whenCluster_run)

context operator_world
begin

lemma sync_lifelong:
  "keeps (lifelong n f) (syncAPIClients K)" "keeps (lifelong n f) (performConfigSync K N ctx)"
proof -
  note w = probe_closedD(2) [OF lifelong_closed]
  show "keeps (lifelong n f) (syncAPIClients K)"
    by (rule registry_keeps [OF typed w]) (auto simp: lifelong_def)
  show "keeps (lifelong n f) (performConfigSync K N ctx)"
    by (rule config_keeps [OF world_retry w]) (simp_all add: lifelong_client same_client_operations, simp add: lifelong_def)
qed

lemma stages_lifelong:
  assumes "fit K c"
  shows "keeps (handling c n f) (resourceStages K N ctx)"
proof -
  note I = handling_closed [of c n f]
  note O = probe_closedD [OF I] and w = probe_closedD(2) [OF lifelong_closed [of n f]]
  have dep: "deployable K (cluster s)" "parsable K (cluster s)" if "handling c n f s" for s
    using that assms by (auto simp: handling_def run_inv_def fit_def same_resource_def deployable_def parsable_def pvc_params_def)
  note ops = single_upserts_return [OF O(1)] ensurePiHolePVC_returns [OF O(2) dep(2)]
    ensureReadWriteSTS_returns [OF I dep(2)] ensureReadOnlySTS_returns [OF I dep(1)]
    readiness_returns(1) [OF O(2)] readiness_returns(2) [OF O(2) typed sized]
  note step = keeps_bindR keeps_ctxR keeps_if keeps_whenR keeps_basic ops [THEN returns_keeps]
  have late: "keeps (handling c n f) (ensureIngress K)" "keeps (handling c n f) (ensurePodMonitor K)"
    using single_upserts_return [OF O(1)] by (blast intro: returns_keeps)+
  have ro: "keeps (handling c n f) (replicaStage K)"
    unfolding replicaStage_def by (intro step)
  have sy: "keeps (handling c n f) (syncStage K N ctx)" if "Sync (clSpec c) \<noteq> None"
    unfolding syncStage_def
    by (intro step handling_keeps sync_lifelong returns_keeps [OF sync_calls_return(1) [OF assms that]]
        returns_keeps [OF sync_calls_return(2) [OF assms that]])
  have e: "keeps (handling c n f) (ensureResources K N ctx)"
    unfolding ensureResources_def
  proof (intro step keeps_whenCluster)
    fix s r t
    assume s: "handling c n f s" and b: "Sync (clSpec (cluster s)) \<noteq> None \<and> 0 < sint (Replicas (clSpec (cluster s)))"
      and run: "syncStage K N ctx s = (r, t)"
    from s b have "Sync (clSpec c) \<noteq> None" by (simp add: handling_def run_inv_def same_resource_def)
    from keepsD [OF sy [OF this] s run] show "handling c n f t" .
  qed (use keepsD [OF ro] keepsD [OF keeps_ctxR [OF late(1)]] keepsD [OF keeps_ctxR [OF late(2)]] in blast)+
  have m: "keeps (lifelong n f) (modStatus g :: ('w rs, unit) prog)" for g
    unfolding modStatus_def modCluster_def by (rule keeps_modS) (simp add: lifelong_def)
  have u: "keeps (lifelong n f) (UpdateClusterStatusWithRetry K)"
    by (rule returns_keeps [OF UpdateStatus_returns [OF w _ world_retry]]) (simp add: lifelong_def)
  have "keeps (lifelong n f) (setStatusCondition K x)" for x
    unfolding setStatusCondition_def
    by (intro keeps_bindR returns_keeps [OF getCluster_returns] returns_keeps [OF worldless_calls(2) [OF w]] m)
  then have "keeps (lifelong n f) (updateStatus K b msg)" for b msg
    unfolding updateStatus_def by (intro keeps_bindR keeps_ctxR keeps_whenR m u)
  from handling_keeps [OF returns_keeps [OF updateStatus_returns] this]
  show ?thesis
    unfolding resourceStages_def
    by (intro step e returns_keeps [OF resourcesReady_returns [OF api_server_axioms O(2)]])
qed

lemma Reconcile_lifelong:
  assumes "reg_ok s" "admitted K ns name s" "Reconcile K N ctx ns name s = (r, s')" "lifelong n f s"
  shows "lifelong n f s'"
proof (cases "k_get_cluster K ns name (world s)")
  case (Pair x w)
  show ?thesis
  proof (cases x)
    case (Inl e)
    with Reconcile_run(1) [of K ns name s e w N ctx] Pair assms(3,4) show ?thesis by (auto simp: lifelong_def)
  next
    case (Inr cl)
    with Pair have got: "k_get_cluster K ns name (world s) = (Inr cl, w)" by simp
    with assms(2) have "fit K cl" by (simp add: admitted_def)
    let ?t = "fetched cl w s"
    note R = Reconcile_run(2) [OF got, of N ctx, unfolded assms(3), symmetric]
    have l: "lifelong n f ?t" using assms(4) by (simp add: lifelong_def fetched_def)
    then have "handling cl n f ?t" using assms(1) by (simp add: handling_def run_inv_def same_refl)
    from keepsD [OF stages_lifelong [OF \<open>fit K cl\<close>] this] have st: "resourceStages K N ctx ?t = (r, s') \<Longrightarrow> lifelong n f s'"
      by (simp add: handling_def)
    note w = probe_closedD(2) [OF lifelong_closed [of n f]]
    have m: "keeps (lifelong n f) (modCluster g :: ('w rs, unit) prog)" for g
      unfolding modCluster_def by (rule keeps_modS) (simp add: lifelong_def)
    have u: "keeps (lifelong n f) (updateCluster K)"
      unfolding updateCluster_def
      by (intro keeps_bindR returns_keeps [OF getCluster_returns] returns_keeps [OF worldless_calls(1) [OF w]] m)
    have c: "keeps (lifelong n f) (closeClient p :: ('w rs, unit) prog)" for p
      unfolding closeClient_def by (auto intro!: keeps_modS keeps_basic simp: lifelong_def split: option.splits)
    have a: "keeps (lifelong n f) (closeAll K)"
      unfolding closeAll_def rangeClients_def
      by (intro keeps_bindR keeps_forR keeps_option keeps_basic returns_keeps [OF worldless_calls(2) [OF w]] c)
    have d: "keeps (lifelong n f) (modS (\<lambda>s. s\<lparr>ApiClients := []\<rparr>) :: ('w rs, unit) prog)"
      by (rule keeps_modS) (simp add: lifelong_def)
    have "keeps (lifelong n f) (addFinalizer K)" "keeps (lifelong n f) (handleDelete K)"
      unfolding addFinalizer_def handleDelete_def by (intro keeps_bindR keeps_ctxR keeps_basic m u a d)+
    from keepsD [OF this(1) l] keepsD [OF this(2) l] st R show ?thesis by (auto split: if_splits)
  qed
qed

end

section \<open>The property\<close>

text \<open>The process between two restarts: reconciliations, and what others do to the world.\<close>

definition running :: "'w kube \<Rightarrow> 'w net \<Rightarrow> ('w \<Rightarrow> 'w \<Rightarrow> bool) \<Rightarrow> 'w rs \<Rightarrow> 'w rs \<Rightarrow> bool" where
  "running K N env s t \<longleftrightarrow> (\<exists>ctx ns n r. Reconcile K N ctx ns n s = (r, t) \<and> admitted K ns n s) \<or>
     (\<exists>w. env (world s) w \<and> t = s\<lparr>world := w\<rparr>)"



end
