(* ===== verification/Spec2Isabelle.thy ===== *)
theory Spec2Isabelle
  imports Responsive Startup Admission Clients
begin

text \<open>
  A model of the Pi-hole operator, with the theorems that make it correct.

  The program. The operator watches resources of kind \<open>PiHoleCluster\<close>. For each it deploys one
  read-write Pi-hole instance and a number of read-only replicas on Kubernetes, and every few minutes it
  copies the configuration of the read-write instance (a Teleporter archive) to the replicas and brings
  the ad-lists of every instance to the list in the resource, through the REST API of Pi-hole. A webhook
  completes and checks the resources before the API server stores them.

  How the parts interact. The API server calls \<open>Default\<close> and the two \<open>Validate\<close> methods of the webhook.
  controller-runtime calls \<open>Reconcile\<close> with the name of a resource. \<open>Reconcile\<close> fetches it, looks after the
  finalizer or the deletion, calls the \<open>ensure\<close> operations of \<open>resources.go\<close> in a fixed order (each builds
  an object and hands it to \<open>UpsertResource\<close>), keeps one API client for each pod (\<open>sync.go\<close>), lets the
  clients download, upload and synchronise, and writes the status (\<open>status.go\<close>). Reconciler, status and
  synchronisation share the resource through one pointer, and the clients through one map of the process.

  How code is modelled. A Go function that calls out or keeps state is a program of type \<open>('s, 'a) prog\<close>
  (Prelude): a function from a state to an outcome and a state. The outcome is \<open>Ok\<close> with the value, \<open>Err\<close>
  with the error, \<open>Panic\<close>, or \<open>Deadlock\<close> for a goroutine that blocks for ever on a mutex it holds. A Go
  pointer that may be nil is an option, \<open>time.Duration\<close> is a 64-bit word, \<open>int32\<close> a 32-bit word. What the
  process keeps is the record \<open>rs\<close> (Kube): the resource under the pointer \<open>currentClusterName\<close>, the map of API
  clients with their addresses and the connections closed so far, and the world outside. The world is a
  type variable. What the operator asks of it are the fields of two parameters, \<open>kube\<close> (Kube: the API
  server, clock, order of map iteration, owner references, conditions, quantity parser) and \<open>net\<close>
  (ApiClient: HTTP requests, JSON, delays). Laws about them are the assumptions of the locales below.

  The theories, from the bottom, with the files under src/ they model:
    - Prelude: outcomes, programs and their combinators, the collections of facts that run programs, show
      that they keep an invariant (\<open>keeps\<close>) and that they come back (\<open>returns\<close>).
    - Utils (internal/utils/string.go, typing.go, k8s.go) and ApiTypes (api/v1/piholecluster_types.go).
    - Fqdn and Webhook (internal/webhook/v1/piholecluster_webhook.go): the regular expression with a
      matcher by derivatives, proved against the inductive language of regular expressions, defaulting,
      validation and the panics of validation.
    - Retry (internal/pihole_api/api_client.go, the back-off helper), UrlEscape (\<open>url.QueryEscape\<close> of the
      standard library), ApiClient (the rest of that file) and ApiLaws (what every operation of the client
      does to its session, what each request carries, when an operation comes back).
    - AdListStore (the two reconciling halves of the ad-list synchronisation over any store of ad-lists),
      PiholeServer (Pi-hole servers as they are documented), RefServer (a concrete farm of servers),
      AdListSync (ensureAdLists and syncAdLists of internal/controller/piholecluster/sync.go).
    - Kube (the objects and the parameter \<open>kube\<close>), Registry (the map of API clients in sync.go), Upsert
      (internal/utils/generic_reconciler.go), ConfigSync (performConfigSync and ensureConfigSync in sync.go).
    - Resources (internal/controller/piholecluster/resources.go, conditional_addons.go and types.go), Ensure
      (what each operation writes, on every server), Progress (when each succeeds), Deployment (the
      properties of that file).
    - Status (internal/controller/piholecluster/status.go), Quiet (what the synchronisation leaves alone).
    - Controller (internal/controller/piholecluster/piholecluster_controller.go: the finalizer, the order of
      the stages, the deletion), Reconciling, Steady, Liveness and Lifecycle (what a whole reconciliation
      keeps, when it succeeds, and the process over time: the inductive relation \<open>op_step\<close> with its reachable
      states), Estate (a reference world; the pods, by the labels asked for, are a parameter of it), Operator
      (the properties of the whole).
    - Convergence and Responsive: from the resource to the Pi-hole servers. What a reconciliation that succeeds
      makes of the ad-lists of all instances, and when one with replicas to synchronise does succeed.
    - Admission: the webhook in front of the reconciler, what it checks against what is deployed. Clients: what
      an API client keeps for as long as the process runs.
    - Startup (cmd/main.go, with the set-up functions of the controller and the webhook, and
      api/v1/groupversion_info.go): the registration of the types, the command line, the options of the
      servers, the order of the start-up, and the kinds the controller watches against the objects a
      reconciliation writes.
\<close>

text \<open>
  Interfaces. Each is a locale, interpreted on the model's own definitions:
    - \<open>growing_set\<close> and \<open>shrinking_set\<close> (Utils): a list used as a set. Interpreted on the finalizers
      (\<open>ContainsString\<close>, \<open>RemoveString\<close>) and on the record of synchronised pods (\<open>isPodSynced\<close>, \<open>addPodSynced\<close>).
    - \<open>retrier\<close> (Retry): a retry combinator that runs attempts with pauses. Interpreted on \<open>retryWithBackoff\<close>
      with the constant \<open>pihole_backoff\<close> and on the conflict retry of client-go.
    - \<open>adlist_store\<close> (AdListStore): listing, creating and deleting ad-lists. \<open>pihole_server\<close> states the
      documented effect of the requests of the client, and a \<open>sublocale\<close> shows that the client on such a
      server is an \<open>adlist_store\<close>. Interpreted on the farm of RefServer.
    - \<open>api_server\<close> (Upsert): the server keeps what it is given up to what it fills in itself. \<open>willing_server\<close>
      (Progress) in addition refuses no well-formed request. \<open>operator_world\<close> (Controller) adds status, pods
      and the library functions; \<open>willing_world\<close> (Liveness) and \<open>resource_server\<close> (Lifecycle) extend it.
      Interpreted on the cellar (Upsert) and on the estate of servers, objects and resource (Estate).
    - \<open>served_world\<close> (Convergence) joins \<open>operator_world\<close> and the Pi-hole servers of \<open>pihole_env\<close>: no call to the
      API server touches a list. \<open>responsive_net\<close> (Responsive) says that the servers answer every well-formed
      request as documented, \<open>responsive_world\<close> joins it with \<open>served_world\<close> and \<open>willing_world\<close>. Interpreted on
      the estate (Responsive), where a whole synchronising reconciliation runs to its end.

  The specifications. \<open>UpsertResource\<close> refines: the object under the key is the desired
  one, whatever was there. The synchronisation of ad-lists refines: the lists of every server become the
  wanted ones. The retry loop refines the reference loop over the list of pauses. The compiled regular
  expression refines the grammar of host names. \<open>Reconcile\<close> refines:
  \<open>deployed\<close> (Reconciling), the eight objects as the resource describes them, and nothing
  else written.

  Bounds and fuel. No definition has fuel that could run out unseen. The back-off loop is a \<open>function\<close> with
  a termination measure; it makes \<open>MaxRetries + 1\<close> attempts, and the pauses stay within the cap without
  overflow for the constants of the code (\<open>backoff_waits_closed_form\<close>). The retry after conflicts is a
  parameter with laws; concrete worlds use the four steps of \<open>retry.DefaultBackoff\<close> of client-go
  (\<open>conflict_retry 4\<close>), for which the laws are proved. Loops over lists and maps are structural.

  Not modelled, and why:
    - In cmd/main.go the logger; the flags that libraries register, the calls into client-go and
      controller-runtime and the environment are parameters of \<open>process\<close>.
    - api/v1/zz_generated.deepcopy.go: generated. Values of the model are immutable, so a copy is the value.
    - Log lines, metrics and the text of log messages. Error values keep their text and their wrapping.
    - Closing of response bodies and the timeouts inside net/http: a request gives a response or an error,
      chosen by the parameter \<open>net\<close>, which also says whether a pause ends or its context is cancelled.
    - Aliasing of the decoded server response with the resource: the client decodes the answer of an update
      into the same pointer, which the model writes as an assignment of the answer to the field.
    - Concurrency: controller-runtime runs one worker, so reconciliations do not overlap. What others do to
      the world happens between reconciliations, in the steps of \<open>op_step\<close>; that nobody else writes the
      operator's objects in the middle of one is an assumption of \<open>operator_world\<close>, while answers of the
      server (conflicts, errors, what it fills in) are free. The theorems about single operations that do
      not mention a locale hold without it.
    - test/, config/, dist/ and docs/: no logic of the operator.
\<close>

end
